(* ===== verification/Prelude.thy ===== *)
theory Prelude
  imports Main "HOL-Library.Multiset" "HOL-Library.Sublist"
begin

text \<open>
  Shared material of the development: the functions of Go's \<open>strings\<close>, \<open>strconv\<close> and
  \<open>fmt\<close> packages the program uses, modelled on byte strings (a Go \<open>string\<close> is a sequence
  of bytes, an Isabelle \<open>string\<close> is a list of 8-bit characters); descending order keys
  for \<open>ORDER BY ... DESC\<close> and \<open>sort.Slice\<close>; generic lemmas on lists as tables.
\<close>

named_theorems go_simps "characterisations of Go library functions"

section \<open>Descending sort keys\<close>

text \<open>
  \<open>Desc n\<close> is the integer \<open>n\<close> under the reversed order, so that the library's
  \<open>sorted\<close> and \<open>sort_key\<close> speak about descending lists.
\<close>

datatype desc = Desc (undesc: int)

instantiation desc :: linorder
begin

definition less_eq_desc :: "desc \<Rightarrow> desc \<Rightarrow> bool" where
  "less_eq_desc a b = (undesc b \<le> undesc a)"

definition less_desc :: "desc \<Rightarrow> desc \<Rightarrow> bool" where
  "less_desc a b = (undesc b < undesc a)"

instance
  by standard (auto simp: less_eq_desc_def less_desc_def desc.expand)

end

lemma Desc_le_iff [simp]: "Desc a \<le> Desc b \<longleftrightarrow> b \<le> a"
  by (simp add: less_eq_desc_def)

lemma Desc_less_iff [simp]: "Desc a < Desc b \<longleftrightarrow> b < a"
  by (simp add: less_desc_def)

text \<open>
  The contract of a sort whose treatment of ties is left open: the result is a
  permutation of the argument in descending order of the key.
\<close>

definition desc_sorts :: "('a \<Rightarrow> int) \<Rightarrow> ('a list \<Rightarrow> 'a list) \<Rightarrow> bool" where
  "desc_sorts key srt \<longleftrightarrow>
     (\<forall>xs. mset (srt xs) = mset xs \<and> sorted (map (\<lambda>x. Desc (key x)) (srt xs)))"

lemma desc_sorts_mset: "desc_sorts key srt \<Longrightarrow> mset (srt xs) = mset xs"
  by (simp add: desc_sorts_def)

lemma desc_sorts_set: "desc_sorts key srt \<Longrightarrow> set (srt xs) = set xs"
  by (metis desc_sorts_mset set_mset_mset)

lemma desc_sorts_sorted: "desc_sorts key srt \<Longrightarrow> sorted (map (\<lambda>x. Desc (key x)) (srt xs))"
  by (simp add: desc_sorts_def)

definition sort_desc :: "('a \<Rightarrow> int) \<Rightarrow> 'a list \<Rightarrow> 'a list" where
  "sort_desc key xs = sort_key (\<lambda>x. Desc (key x)) xs"

lemma desc_sorts_sort_desc [simp]: "desc_sorts key (sort_desc key)"
  by (simp add: desc_sorts_def sort_desc_def)

text \<open>The first element a predicate accepts has the greatest key among those accepted.\<close>

lemma find_sorted_desc_max:
  assumes "sorted (map (\<lambda>x. Desc (key x)) xs)" and "List.find P xs = Some r"
    and "x \<in> set xs" and "P x"
  shows "key x \<le> key r"
  using assms
proof (induction xs)
  case Nil
  then show ?case by simp
next
  case (Cons y ys)
  then show ?case by (cases "P y") auto
qed

lemma find_Some_D: "List.find P xs = Some x \<Longrightarrow> x \<in> set xs \<and> P x"
  by (auto simp: find_Some_iff)

lemma find_None_D: "List.find P xs = None \<Longrightarrow> x \<in> set xs \<Longrightarrow> \<not> P x"
  by (simp add: find_None_iff)

lemma find_is_SomeI: "x \<in> set xs \<Longrightarrow> P x \<Longrightarrow> \<exists>y. List.find P xs = Some y"
  by (metis find_None_iff not_None_eq)

section \<open>Sorting by a relation\<close>

text \<open>\<open>ORDER BY name\<close>: the engine's collation is a relation given by the environment.\<close>

fun insert_rel :: "('a \<Rightarrow> 'a \<Rightarrow> bool) \<Rightarrow> 'a \<Rightarrow> 'a list \<Rightarrow> 'a list" where
  "insert_rel le x [] = [x]"
| "insert_rel le x (y # ys) = (if le x y then x # y # ys else y # insert_rel le x ys)"

fun sort_rel :: "('a \<Rightarrow> 'a \<Rightarrow> bool) \<Rightarrow> 'a list \<Rightarrow> 'a list" where
  "sort_rel le [] = []"
| "sort_rel le (x # xs) = insert_rel le x (sort_rel le xs)"

lemma mset_insert_rel: "mset (insert_rel le x xs) = add_mset x (mset xs)"
  by (induction xs) auto

lemma mset_sort_rel [simp]: "mset (sort_rel le xs) = mset xs"
  by (induction xs) (auto simp: mset_insert_rel)

lemma set_sort_rel [simp]: "set (sort_rel le xs) = set xs"
  by (metis mset_sort_rel set_mset_mset)

lemma length_sort_rel [simp]: "length (sort_rel le xs) = length xs"
  by (metis mset_sort_rel size_mset)

lemma sorted_insert_rel:
  assumes "\<And>a b. le a b \<or> le b a" and "transp le" and "sorted_wrt le xs"
  shows "sorted_wrt le (insert_rel le x xs)"
  using assms(3)
proof (induction xs)
  case Nil
  then show ?case by simp
next
  case (Cons y ys)
  have set_ins: "set (insert_rel le x ys) = insert x (set ys)"
    by (metis mset_insert_rel set_mset_add_mset_insert set_mset_mset)
  show ?case
  proof (cases "le x y")
    case True
    with Cons.prems \<open>transp le\<close> show ?thesis
      by (auto dest: transpD)
  next
    case False
    with assms(1) have "le y x" by blast
    with False Cons show ?thesis by (simp add: set_ins)
  qed
qed

lemma sorted_sort_rel:
  assumes "\<And>a b. le a b \<or> le b a" and "transp le"
  shows "sorted_wrt le (sort_rel le xs)"
  by (induction xs) (simp_all add: sorted_insert_rel[OF assms])

section \<open>Go's strings package\<close>

definition has_prefix :: "string \<Rightarrow> string \<Rightarrow> bool" where
  "has_prefix s p \<longleftrightarrow> length p \<le> length s \<and> take (length p) s = p"

definition has_suffix :: "string \<Rightarrow> string \<Rightarrow> bool" where
  "has_suffix s p \<longleftrightarrow> length p \<le> length s \<and> drop (length s - length p) s = p"

lemma has_prefix_iff [go_simps]: "has_prefix s p \<longleftrightarrow> prefix p s"
  by (auto simp: has_prefix_def prefix_def) (metis append_take_drop_id)

lemma has_suffix_iff [go_simps]: "has_suffix s p \<longleftrightarrow> suffix p s"
  by (auto simp: has_suffix_def suffix_def) (metis append_take_drop_id)

text \<open>\<open>strings.Index\<close> and \<open>strings.LastIndex\<close> for a one-byte separator; -1 is \<open>None\<close>.\<close>

fun index_byte :: "char \<Rightarrow> string \<Rightarrow> nat option" where
  "index_byte c [] = None"
| "index_byte c (x # xs) = (if x = c then Some 0 else map_option Suc (index_byte c xs))"

fun last_index_byte :: "char \<Rightarrow> string \<Rightarrow> nat option" where
  "last_index_byte c [] = None"
| "last_index_byte c (x # xs) =
     (case last_index_byte c xs of
        Some i \<Rightarrow> Some (Suc i)
      | None \<Rightarrow> if x = c then Some 0 else None)"

lemma index_byte_None [go_simps]: "index_byte c s = None \<longleftrightarrow> c \<notin> set s"
  by (induction s) auto

lemma index_byte_append [go_simps]:
  "c \<notin> set s \<Longrightarrow> index_byte c (s @ c # t) = Some (length s)"
  by (induction s) auto

lemma last_index_byte_None [go_simps]: "last_index_byte c s = None \<longleftrightarrow> c \<notin> set s"
  by (induction s) (auto split: option.splits)

lemma last_index_byte_append [go_simps]:
  "c \<notin> set t \<Longrightarrow> last_index_byte c (s @ c # t) = Some (length s)"
  by (induction s) (auto simp: last_index_byte_None split: option.splits)

text \<open>\<open>strings.Contains\<close>.\<close>

fun contains :: "string \<Rightarrow> string \<Rightarrow> bool" where
  "contains [] sub = (sub = [])"
| "contains (x # xs) sub = (has_prefix (x # xs) sub \<or> contains xs sub)"

lemma contains_iff [go_simps]: "contains s sub \<longleftrightarrow> (\<exists>u v. s = u @ sub @ v)"
proof (induction s)
  case Nil
  then show ?case by simp
next
  case (Cons x xs)
  show ?case
  proof
    assume "contains (x # xs) sub"
    then consider "prefix sub (x # xs)" | "contains xs sub"
      by (auto simp: has_prefix_iff)
    then show "\<exists>u v. x # xs = u @ sub @ v"
    proof cases
      case 1
      then show ?thesis by (metis append_Nil prefix_def)
    next
      case 2
      with Cons.IH obtain u v where "xs = u @ sub @ v" by auto
      then have "x # xs = (x # u) @ sub @ v" by simp
      then show ?thesis by blast
    qed
  next
    assume "\<exists>u v. x # xs = u @ sub @ v"
    then obtain u v where uv: "x # xs = u @ sub @ v" by blast
    show "contains (x # xs) sub"
    proof (cases u)
      case Nil
      with uv have "has_prefix (x # xs) sub" by (simp add: has_prefix_iff)
      then show ?thesis by simp
    next
      case (Cons y u')
      with uv Cons.IH show ?thesis by auto
    qed
  qed
qed

text \<open>\<open>strings.TrimSpace\<close>, for the ASCII white space bytes.\<close>

definition is_space :: "char \<Rightarrow> bool" where
  "is_space c \<longleftrightarrow> of_char c \<in> {9, 10, 11, 12, 13, 32 :: nat}"

definition trim_space :: "string \<Rightarrow> string" where
  "trim_space s = rev (dropWhile is_space (rev (dropWhile is_space s)))"

definition trim_prefix :: "string \<Rightarrow> string \<Rightarrow> string" where
  "trim_prefix s p = (if has_prefix s p then drop (length p) s else s)"

text \<open>\<open>strings.Split\<close> and \<open>strings.Join\<close> for a one-byte separator.\<close>

fun split_on :: "char \<Rightarrow> string \<Rightarrow> string list" where
  "split_on c [] = [[]]"
| "split_on c (x # xs) =
     (if x = c then [] # split_on c xs
      else (case split_on c xs of [] \<Rightarrow> [[x]] | y # ys \<Rightarrow> (x # y) # ys))"

fun join_on :: "char \<Rightarrow> string list \<Rightarrow> string" where
  "join_on c [] = []"
| "join_on c [x] = x"
| "join_on c (x # y # ys) = x @ c # join_on c (y # ys)"

lemma split_on_nonempty [simp]: "split_on c s \<noteq> []"
  by (cases s) (auto split: list.splits)

lemma join_split [simp]: "join_on c (split_on c s) = s"
proof (induction s)
  case Nil
  then show ?case by simp
next
  case (Cons x xs)
  obtain y ys where y: "split_on c xs = y # ys" by (meson neq_Nil_conv split_on_nonempty)
  with Cons show ?case by (cases ys) auto
qed

lemma split_on_inject [simp]: "split_on c s = split_on c t \<longleftrightarrow> s = t"
  by (metis join_split)

lemma split_on_append: "split_on c (u @ c # v) = split_on c u @ split_on c v"
  by (induction u) (auto split: list.splits)

lemma split_on_none [simp]: "c \<notin> set s \<Longrightarrow> split_on c s = [s]"
  by (induction s) auto

lemma join_append:
  "xs \<noteq> [] \<Longrightarrow> ys \<noteq> [] \<Longrightarrow> join_on c (xs @ ys) = join_on c xs @ c # join_on c ys"
proof (induction xs rule: join_on.induct)
  case (2 c x)
  then show ?case by (cases ys) auto
qed auto

text \<open>Splitting a joined list gives the list back when no piece holds the separator.\<close>

lemma split_join:
  "xs \<noteq> [] \<Longrightarrow> \<forall>x \<in> set xs. c \<notin> set x \<Longrightarrow> split_on c (join_on c xs) = xs"
  by (induction c xs rule: join_on.induct) (auto simp: split_on_append)

lemma prefix_split_iff:
  "prefix (split_on c p) (split_on c s) \<longleftrightarrow> s = p \<or> prefix (p @ [c]) s"
proof
  assume "prefix (split_on c p) (split_on c s)"
  then obtain zs where zs: "split_on c s = split_on c p @ zs" by (auto simp: prefix_def)
  show "s = p \<or> prefix (p @ [c]) s"
  proof (cases "zs = []")
    case True
    with zs show ?thesis by simp
  next
    case False
    have "s = join_on c (split_on c p @ zs)" using zs by (metis join_split)
    with False have "s = p @ c # join_on c zs" by (simp add: join_append)
    then show ?thesis by (simp add: prefix_def)
  qed
next
  assume "s = p \<or> prefix (p @ [c]) s"
  then show "prefix (split_on c p) (split_on c s)"
    by (auto simp: prefix_def split_on_append)
qed

section \<open>Decimal numbers: \<open>%d\<close> and \<open>strconv\<close>\<close>

definition digit_char :: "nat \<Rightarrow> char" where
  "digit_char d = char_of (48 + d)"

definition is_digit :: "char \<Rightarrow> bool" where
  "is_digit c \<longleftrightarrow> 48 \<le> (of_char c :: nat) \<and> (of_char c :: nat) \<le> 57"

definition digit_val :: "char \<Rightarrow> nat" where
  "digit_val c = of_char c - 48"

fun nat_dec :: "nat \<Rightarrow> string" where
  "nat_dec n = (if n < 10 then [digit_char n] else nat_dec (n div 10) @ [digit_char (n mod 10)])"

declare nat_dec.simps [simp del]

definition int_dec :: "int \<Rightarrow> string" where
  "int_dec i = (if i < 0 then CHR ''-'' # nat_dec (nat (- i)) else nat_dec (nat i))"

fun dec_val :: "nat \<Rightarrow> string \<Rightarrow> nat" where
  "dec_val acc [] = acc"
| "dec_val acc (c # cs) = dec_val (10 * acc + digit_val c) cs"

lemma of_char_digit_char: "d < 10 \<Longrightarrow> of_char (digit_char d) = (48 + d :: nat)"
  by (simp add: digit_char_def)

lemma is_digit_digit_char [simp]: "d < 10 \<Longrightarrow> is_digit (digit_char d)"
  by (simp add: is_digit_def of_char_digit_char)

lemma digit_val_digit_char [simp]: "d < 10 \<Longrightarrow> digit_val (digit_char d) = d"
  by (simp add: digit_val_def of_char_digit_char)

lemma nat_dec_digits: "c \<in> set (nat_dec n) \<Longrightarrow> is_digit c"
proof (induction n rule: nat_dec.induct)
  case (1 n)
  then show ?case
    by (cases "n < 10") (auto simp: nat_dec.simps[of n])
qed

lemma nat_dec_nonempty [simp]: "nat_dec n \<noteq> []"
  by (simp add: nat_dec.simps[of n])

lemma dec_val_append: "dec_val a (s @ t) = dec_val (dec_val a s) t"
  by (induction s arbitrary: a) auto

lemma dec_val_nat_dec [simp]: "dec_val 0 (nat_dec n) = n"
proof (induction n rule: nat_dec.induct)
  case (1 n)
  show ?case
  proof (cases "n < 10")
    case True
    then show ?thesis by (simp add: nat_dec.simps[of n])
  next
    case False
    with "1" have "dec_val 0 (nat_dec (n div 10)) = n div 10" by simp
    with False show ?thesis by (simp add: nat_dec.simps[of n] dec_val_append)
  qed
qed

lemma nat_dec_inject [simp]: "nat_dec m = nat_dec n \<longleftrightarrow> m = n"
  by (metis dec_val_nat_dec)

lemma not_digit_colon: "\<not> is_digit (CHR '':'')"
  by (simp add: is_digit_def)

lemma not_digit_minus: "\<not> is_digit (CHR ''-'')"
  by (simp add: is_digit_def)

lemma int_dec_no_colon: "CHR '':'' \<notin> set (int_dec i)"
  using nat_dec_digits not_digit_colon by (auto simp: int_dec_def)

lemma hd_nat_dec_digit: "is_digit (hd (nat_dec n))"
  by (rule nat_dec_digits[of _ n]) (rule hd_in_set, simp)

lemma int_dec_inject [simp]: "int_dec i = int_dec j \<longleftrightarrow> i = j"
proof
  assume eq: "int_dec i = int_dec j"
  have ne: "nat_dec m \<noteq> CHR ''-'' # t" for m t
    using hd_nat_dec_digit[of m] not_digit_minus by (metis list.sel(1))
  show "i = j"
    using eq ne by (auto simp: int_dec_def split: if_splits dest: sym)
qed simp

text \<open>
  \<open>strconv.ParseInt(s, 10, 64)\<close>: the value and whether an error is returned. A string
  that is no number gives \<open>(0, err)\<close>; one out of range gives the nearest bound, with an
  error, which is the value a caller sees that drops the error.
\<close>

definition max_int64 :: int where "max_int64 = 2 ^ 63 - 1"
definition min_int64 :: int where "min_int64 = - (2 ^ 63)"

definition parse_int :: "string \<Rightarrow> int \<times> bool" where
  "parse_int s =
     (let neg = (s \<noteq> [] \<and> hd s = CHR ''-'');
          ds = (if s \<noteq> [] \<and> (hd s = CHR ''-'' \<or> hd s = CHR ''+'') then tl s else s)
      in if ds = [] \<or> (\<exists>c \<in> set ds. \<not> is_digit c) then (0, True)
         else let v = (if neg then - int (dec_val 0 ds) else int (dec_val 0 ds))
              in if v < min_int64 then (min_int64, True)
                 else if max_int64 < v then (max_int64, True)
                 else (v, False))"

text \<open>\<open>n, _ := strconv.Atoi(s)\<close>.\<close>

definition atoi :: "string \<Rightarrow> int" where
  "atoi s = fst (parse_int s)"

lemma parse_int_int_dec:
  assumes "min_int64 \<le> i" and "i \<le> max_int64"
  shows "parse_int (int_dec i) = (i, False)"
proof -
  have nd: "\<forall>c \<in> set (nat_dec n). is_digit c" for n
    using nat_dec_digits by blast
  have hd: "hd (nat_dec n) \<noteq> CHR ''-''" "hd (nat_dec n) \<noteq> CHR ''+''" for n
    using hd_nat_dec_digit[of n] by (auto simp: is_digit_def)
  show ?thesis
    using assms nd hd by (auto simp: parse_int_def int_dec_def Let_def)
qed

section \<open>Tables: lists of rows with a key\<close>

lemma find_filter: "List.find P (filter Q xs) = List.find (\<lambda>x. Q x \<and> P x) xs"
  by (induction xs) auto

lemma find_cong_set:
  "(\<And>x. x \<in> set xs \<Longrightarrow> P x = Q x) \<Longrightarrow> List.find P xs = List.find Q xs"
  by (induction xs) auto

lemma find_append:
  "List.find P (xs @ ys) = (case List.find P xs of Some x \<Rightarrow> Some x | None \<Rightarrow> List.find P ys)"
  by (induction xs) auto

lemma find_key_None: "List.find (\<lambda>x. key x = k) xs = None \<longleftrightarrow> k \<notin> key ` set xs"
  by (induction xs) auto

lemma find_map_to:
  assumes "\<And>x. x \<in> set xs \<Longrightarrow> P (f x) = Q x"
  shows "List.find P (map f xs) = map_option f (List.find Q xs)"
  using assms by (induction xs) auto

lemmas find_map_cond = find_map_to[where P = P and Q = P for P]

lemma find_key_unique:
  assumes "distinct (map key xs)" and "x \<in> set xs"
  shows "List.find (\<lambda>y. key y = key x) xs = Some x"
  using assms by (induction xs) auto

lemma distinct_map_filterI: "distinct (map f xs) \<Longrightarrow> distinct (map f (filter P xs))"
  by (rule distinct_map_filter)

lemma find_perm_unique:
  assumes "mset xs = mset ys" and "distinct (map key xs)"
  shows "List.find (\<lambda>y. key y = k) xs = List.find (\<lambda>y. key y = k) ys"
proof -
  have set_eq: "set xs = set ys" using assms(1) mset_eq_setD by blast
  have d: "distinct (map key ys)"
    using assms by (metis mset_eq_imp_distinct_iff mset_map)
  show ?thesis
  proof (cases "List.find (\<lambda>y. key y = k) xs")
    case None
    then have "List.find (\<lambda>y. key y = k) ys = None" by (simp add: find_None_iff set_eq)
    then show ?thesis using None by simp
  next
    case (Some x)
    then have "x \<in> set ys" "key x = k" using set_eq find_Some_D[OF Some] by auto
    then have "List.find (\<lambda>y. key y = k) ys = Some x" using find_key_unique[OF d, of x] by simp
    then show ?thesis using Some by simp
  qed
qed

end
