(* ===== verification/Store_Base.thy ===== *)
theory Store_Base
  imports Prelude "HOL-Library.Char_ord" "HOL-Library.List_Lexorder"
begin

text \<open>
  The data of \<open>internal/store/store.go\<close> and of the schema in
  \<open>internal/store/migrations/\<close>: the Go structs as records, the database as a record of
  tables, and the SQL statements as state transformers with explicit errors. What the
  SQL text leaves to the engine (collation, the order of ties, error texts, the order of
  timestamps) is the parameter \<open>sqlenv\<close>; its documented behaviour is \<open>sql_contract\<close>.
\<close>

section \<open>Dialects, errors, environment\<close>

datatype dialect = DialectSQLite | DialectPostgres

datatype go_error = ErrNoRows | ErrMsg string

fun err_text :: "go_error \<Rightarrow> string" where
  "err_text ErrNoRows = ''sql: no rows in result set''"
| "err_text (ErrMsg m) = m"

text \<open>\<open>fmt.Errorf("<prefix>: %w", err)\<close>; no caller unwraps the result.\<close>

definition wrap_err :: "string \<Rightarrow> go_error \<Rightarrow> go_error" where
  "wrap_err p e = ErrMsg (p @ '': '' @ err_text e)"

text \<open>Timestamps are the texts Go formats and scans; SQL compares them by \<open>ts_le\<close>.\<close>

type_synonym timestamp = string

record domain =
  d_ID :: int
  d_Name :: string
  d_DefaultURL :: string
  d_StatusCode :: int
  d_Enabled :: bool
  d_CreatedAt :: timestamp
  d_UpdatedAt :: timestamp

record redirect_rule =
  r_ID :: int
  r_DomainID :: int
  r_Path :: string
  r_TargetURL :: string
  r_StatusCode :: int
  r_Priority :: int
  r_Enabled :: bool
  r_CreatedAt :: timestamp
  r_UpdatedAt :: timestamp

record request_log_entry =
  l_Domain :: string
  l_Path :: string
  l_Query :: string
  l_Status :: int
  l_TargetURL :: string
  l_ClientIP :: string
  l_UserAgent :: string
  l_Referer :: string

record domain_with_rules =
  dr_Domain :: domain
  dr_Rules :: "redirect_rule list"
  dr_HitCount :: int

text \<open>Rows of \<open>request_log\<close> and \<open>domain_stats\<close>; the two JSON texts are lists of counts.\<close>

record log_row =
  lr_entry :: request_log_entry
  lr_created_at :: timestamp

record stat_row =
  st_domain :: string
  st_bucket :: timestamp
  st_hit_count :: int
  st_unique_ips :: int
  st_top_paths :: "(string \<times> int) list"
  st_top_referers :: "(string \<times> int) list"

text \<open>The expressions the traffic query groups by, one per dialect and granularity.\<close>

datatype bucket_expr = PgDay | PgWeek | PgHour | LiteDay | LiteWeek | LiteBucket

record sqlenv =
  env_dialect :: dialect
  collate :: "string \<Rightarrow> string \<Rightarrow> bool"
  ord_prio :: "redirect_rule list \<Rightarrow> redirect_rule list"
  ord_count :: "(string \<times> int) list \<Rightarrow> (string \<times> int) list"
  ts_le :: "timestamp \<Rightarrow> timestamp \<Rightarrow> bool"
  ord_created :: "log_row list \<Rightarrow> log_row list"
  eval_bucket :: "bucket_expr \<Rightarrow> timestamp \<Rightarrow> string"
  uniq_msg :: string
  fk_msg :: string
  offset_msg :: string

text \<open>
  What the code relies on: \<open>ORDER BY name\<close> is a total order on the texts,
  \<open>ORDER BY priority DESC\<close> and \<open>ORDER BY cnt DESC\<close> give a descending permutation of
  the rows with ties in any order, and the text of a uniqueness error holds one of the
  words that the API handlers look for.
\<close>

definition sql_contract :: "sqlenv \<Rightarrow> bool" where
  "sql_contract env \<longleftrightarrow>
     (\<forall>a b. collate env a b \<or> collate env b a) \<and> transp (collate env) \<and>
     (\<forall>a b. collate env a b \<and> collate env b a \<longrightarrow> a = b) \<and>
     desc_sorts r_Priority (ord_prio env) \<and> desc_sorts snd (ord_count env) \<and>
     (contains (uniq_msg env) ''UNIQUE'' \<or> contains (uniq_msg env) ''unique'' \<or>
      contains (uniq_msg env) ''duplicate'')"

text \<open>An engine that meets the contract: bytewise collation and stable sorts.\<close>

definition reference_env :: "dialect \<Rightarrow> sqlenv" where
  "reference_env d =
     \<lparr>env_dialect = d, collate = (\<le>), ord_prio = sort_desc r_Priority,
      ord_count = sort_desc snd, ts_le = (\<le>),
      ord_created = rev \<circ> sort_rel (\<lambda>a b. lr_created_at a \<le> lr_created_at b),
      eval_bucket = (\<lambda>e b. if e = LiteDay then take 10 b @ ''T00:00:00Z'' else b),
      uniq_msg = ''UNIQUE constraint failed'', fk_msg = ''FOREIGN KEY constraint failed'',
      offset_msg = ''OFFSET must not be negative''\<rparr>"

lemma reference_env_sel [simp]:
  "env_dialect (reference_env d) = d" "collate (reference_env d) = (\<le>)"
  "ord_prio (reference_env d) = sort_desc r_Priority"
  "ord_count (reference_env d) = sort_desc snd" "ts_le (reference_env d) = (\<le>)"
  by (simp_all add: reference_env_def)

lemma reference_env_contract: "sql_contract (reference_env d)"
proof -
  have "contains (uniq_msg (reference_env d)) ''UNIQUE''"
    by (simp add: reference_env_def has_prefix_def)
  moreover have "transp ((\<le>) :: string \<Rightarrow> string \<Rightarrow> bool)" by simp
  ultimately show ?thesis
    by (auto simp: sql_contract_def linear)
qed

section \<open>The database and its faults\<close>

text \<open>
  \<open>faults\<close> is the environment's plan: each statement takes the next entry. \<open>Fail\<close> makes
  the statement fail (a lost connection, a value the column type rejects, an aborted
  transaction); \<open>Cut n\<close> lets a query deliver its first \<open>n\<close> rows and then end with an
  error, which the caller only sees in \<open>rows.Err()\<close>. After the plan no statement fails
  for a reason outside the schema.
\<close>

datatype fault = NoFault | Fail string | Cut nat string

record db =
  domains :: "domain list"
  redirect_rules :: "redirect_rule list"
  request_log :: "log_row list"
  domain_stats :: "stat_row list"
  dom_seq :: int
  rule_seq :: int
  db_now :: timestamp
  faults :: "fault list"

type_synonym 'a res = "(go_error + 'a) \<times> db"

definition next_fault :: "db \<Rightarrow> fault \<times> db" where
  "next_fault s = (case faults s of [] \<Rightarrow> (NoFault, s) | f # fs \<Rightarrow> (f, s\<lparr>faults := fs\<rparr>))"

text \<open>\<open>x, err := m; if err != nil { return err }\<close>, and its return values.\<close>

definition bindE :: "(db \<Rightarrow> 'a res) \<Rightarrow> ('a \<Rightarrow> db \<Rightarrow> 'b res) \<Rightarrow> db \<Rightarrow> 'b res" where
  "bindE m f s = (case m s of (Inl e, s') \<Rightarrow> (Inl e, s') | (Inr x, s') \<Rightarrow> f x s')"

definition retE :: "'a \<Rightarrow> db \<Rightarrow> 'a res" where
  "retE x s = (Inr x, s)"

definition failE :: "go_error \<Rightarrow> db \<Rightarrow> 'a res" where
  "failE e s = (Inl e, s)"

definition map_err :: "(go_error \<Rightarrow> go_error) \<Rightarrow> (db \<Rightarrow> 'a res) \<Rightarrow> db \<Rightarrow> 'a res" where
  "map_err g m s = (case m s of (Inl e, s') \<Rightarrow> (Inl (g e), s') | (Inr x, s') \<Rightarrow> (Inr x, s'))"

text \<open>A statement (\<open>Exec\<close>), a query read row by row, a query read to the end with
  \<open>rows.Err()\<close> checked, and \<open>QueryRow(...).Scan(...)\<close>.\<close>

definition exec :: "(db \<Rightarrow> 'a res) \<Rightarrow> db \<Rightarrow> 'a res" where
  "exec st s =
     (case next_fault s of
        (NoFault, s') \<Rightarrow> st s'
      | (Fail m, s') \<Rightarrow> (Inl (ErrMsg m), s')
      | (Cut n m, s') \<Rightarrow> (Inl (ErrMsg m), s'))"

definition query :: "(db \<Rightarrow> 'r list) \<Rightarrow> db \<Rightarrow> ('r list \<times> go_error option) res" where
  "query rows s =
     (case next_fault s of
        (NoFault, s') \<Rightarrow> (Inr (rows s', None), s')
      | (Fail m, s') \<Rightarrow> (Inl (ErrMsg m), s')
      | (Cut n m, s') \<Rightarrow> (Inr (take n (rows s'), Some (ErrMsg m)), s'))"

definition query_all :: "(db \<Rightarrow> 'r list) \<Rightarrow> db \<Rightarrow> 'r list res" where
  "query_all rows =
     bindE (query rows) (\<lambda>(rs, e). case e of None \<Rightarrow> retE rs | Some er \<Rightarrow> failE er)"

definition query_row :: "(db \<Rightarrow> 'r option) \<Rightarrow> db \<Rightarrow> 'r res" where
  "query_row row =
     exec (\<lambda>s. case row s of None \<Rightarrow> (Inl ErrNoRows, s) | Some r \<Rightarrow> (Inr r, s))"

text \<open>A loop over a slice that returns at the first error.\<close>

primrec for_each :: "('a \<Rightarrow> db \<Rightarrow> unit res) \<Rightarrow> 'a list \<Rightarrow> db \<Rightarrow> unit res" where
  "for_each f [] = retE ()"
| "for_each f (x # xs) = bindE (f x) (\<lambda>_. for_each f xs)"

text \<open>
  \<open>tx := db.Begin(); defer tx.Rollback(); ...; return tx.Commit()\<close>. A rollback restores
  the tables; PostgreSQL's sequences are not rolled back, SQLite's are.
\<close>

definition rollback :: "sqlenv \<Rightarrow> db \<Rightarrow> db \<Rightarrow> db" where
  "rollback env s0 s1 =
     (if env_dialect env = DialectPostgres
      then s0\<lparr>dom_seq := dom_seq s1, rule_seq := rule_seq s1, faults := faults s1\<rparr>
      else s0\<lparr>faults := faults s1\<rparr>)"

definition transaction :: "sqlenv \<Rightarrow> (db \<Rightarrow> 'a res) \<Rightarrow> db \<Rightarrow> 'a res" where
  "transaction env body =
     bindE (exec (retE ())) (\<lambda>_ s0.
       case body s0 of
         (Inl e, s1) \<Rightarrow> (Inl e, rollback env s0 s1)
       | (Inr x, s1) \<Rightarrow>
           (case exec (retE ()) s1 of
              (Inl e, s2) \<Rightarrow> (Inl e, rollback env s0 s2)
            | (Inr _, s2) \<Rightarrow> (Inr x, s2)))"

section \<open>Reasoning about statements\<close>

text \<open>A statement that is executed fails before it runs, or runs.\<close>

lemma exec_cases:
  assumes "exec st s = (r, s')"
  obtains (failed) m where "r = Inl (ErrMsg m)" and "s' = snd (next_fault s)"
  | (ran) "st (snd (next_fault s)) = (r, s')"
  using assms by (auto simp: exec_def split: fault.splits prod.splits)

lemma exec_total:
  assumes "\<And>s. fst (st s) = Inr ()" and "exec st s = (r, s')"
  shows "(r = Inr () \<and> s' = snd (st (snd (next_fault s)))) \<or>
    ((\<exists>m. r = Inl (ErrMsg m)) \<and> s' = snd (next_fault s))"
  using assms(2)
proof (rule exec_cases)
  assume "st (snd (next_fault s)) = (r, s')"
  with assms(1)[of "snd (next_fault s)"] show ?thesis by (metis fst_conv snd_conv)
qed auto

text \<open>\<open>keeps P m\<close>: the operation keeps the property of the database, also when it fails.\<close>

definition keeps :: "(db \<Rightarrow> bool) \<Rightarrow> (db \<Rightarrow> 'a res) \<Rightarrow> bool" where
  "keeps P m \<longleftrightarrow> (\<forall>s. P s \<longrightarrow> P (snd (m s)))"

named_theorems keeps_intros "composition rules for keeps"

lemma keepsI: "(\<And>s. P s \<Longrightarrow> P (snd (m s))) \<Longrightarrow> keeps P m"
  by (simp add: keeps_def)

lemma keepsD: "keeps P m \<Longrightarrow> P s \<Longrightarrow> P (snd (m s))"
  by (simp add: keeps_def)

lemma keeps_bindE [keeps_intros]:
  "keeps P m \<Longrightarrow> (\<And>x. keeps P (f x)) \<Longrightarrow> keeps P (bindE m f)"
  unfolding keeps_def bindE_def by (auto split: sum.splits prod.splits)

lemma keeps_retE [keeps_intros]: "keeps P (retE x)"
  by (simp add: keeps_def retE_def)

lemma keeps_read [keeps_intros]: "keeps P (\<lambda>s. (Inr (f s), s))"
  by (simp add: keeps_def)

lemma keeps_failE [keeps_intros]: "keeps P (failE e)"
  by (simp add: keeps_def failE_def)

lemma keeps_map_err [keeps_intros]: "keeps P m \<Longrightarrow> keeps P (map_err g m)"
  unfolding keeps_def map_err_def by (auto split: sum.splits prod.splits)

lemma keeps_if [keeps_intros]:
  "(c \<Longrightarrow> keeps P a) \<Longrightarrow> (\<not> c \<Longrightarrow> keeps P b) \<Longrightarrow> keeps P (if c then a else b)"
  by simp

lemma keeps_option [keeps_intros]:
  "keeps P a \<Longrightarrow> (\<And>x. keeps P (b x)) \<Longrightarrow> keeps P (case v of None \<Rightarrow> a | Some x \<Rightarrow> b x)"
  by (cases v) auto

lemma keeps_dialect [keeps_intros]:
  "keeps P a \<Longrightarrow> keeps P b \<Longrightarrow>
   keeps P (case d of DialectSQLite \<Rightarrow> a | DialectPostgres \<Rightarrow> b)"
  by (cases d) auto

lemma keeps_for_each [keeps_intros]: "(\<And>x. keeps P (f x)) \<Longrightarrow> keeps P (for_each f xs)"
  by (induction xs) (auto intro: keeps_intros)

text \<open>Properties that do not read the fault plan.\<close>

definition fault_free_prop :: "(db \<Rightarrow> bool) \<Rightarrow> bool" where
  "fault_free_prop P \<longleftrightarrow> (\<forall>s fs. P (s\<lparr>faults := fs\<rparr>) = P s)"

lemma fault_free_propD: "fault_free_prop P \<Longrightarrow> P (s\<lparr>faults := fs\<rparr>) = P s"
  by (simp add: fault_free_prop_def)

lemma next_fault_keeps: "fault_free_prop P \<Longrightarrow> P (snd (next_fault s)) = P s"
  by (auto simp: next_fault_def fault_free_prop_def split: list.splits)

lemma keeps_exec [keeps_intros]:
  assumes "fault_free_prop P" and "keeps P st"
  shows "keeps P (exec st)"
proof (rule keepsI)
  fix s assume P: "P s"
  obtain f s' where n: "next_fault s = (f, s')" by fastforce
  with next_fault_keeps[OF assms(1), of s] P have "P s'" by simp
  with n keepsD[OF assms(2), of s'] show "P (snd (exec st s))"
    by (cases f) (auto simp: exec_def)
qed

lemma keeps_query [keeps_intros]:
  assumes "fault_free_prop P"
  shows "keeps P (query rows)"
proof (rule keepsI)
  fix s assume P: "P s"
  obtain f s' where n: "next_fault s = (f, s')" by fastforce
  with next_fault_keeps[OF assms, of s] P have "P s'" by simp
  with n show "P (snd (query rows s))" by (cases f) (auto simp: query_def)
qed

lemma keeps_query_all [keeps_intros]: "fault_free_prop P \<Longrightarrow> keeps P (query_all rows)"
  unfolding query_all_def
  by (intro keeps_bindE keeps_query) (auto intro: keeps_intros split: prod.splits)

lemma keeps_query_row [keeps_intros]: "fault_free_prop P \<Longrightarrow> keeps P (query_row row)"
  unfolding query_row_def
  by (intro keeps_exec) (auto simp: keeps_def split: option.splits)

text \<open>Without faults, statements compute.\<close>

lemma next_fault_Nil [simp]: "faults s = [] \<Longrightarrow> next_fault s = (NoFault, s)"
  by (simp add: next_fault_def)

lemma next_fault_frame [simp]:
  "domains (snd (next_fault s)) = domains s"
  "redirect_rules (snd (next_fault s)) = redirect_rules s"
  "request_log (snd (next_fault s)) = request_log s"
  "domain_stats (snd (next_fault s)) = domain_stats s"
  "dom_seq (snd (next_fault s)) = dom_seq s" "rule_seq (snd (next_fault s)) = rule_seq s"
  "db_now (snd (next_fault s)) = db_now s"
  by (simp_all add: next_fault_def split: list.split)

lemma exec_Nil [simp]: "faults s = [] \<Longrightarrow> exec st s = st s"
  by (simp add: exec_def)

lemma query_Nil [simp]: "faults s = [] \<Longrightarrow> query rows s = (Inr (rows s, None), s)"
  by (simp add: query_def)

lemma query_all_Nil [simp]: "faults s = [] \<Longrightarrow> query_all rows s = (Inr (rows s), s)"
  by (simp add: query_all_def bindE_def retE_def)

lemma query_row_Nil [simp]:
  "faults s = [] \<Longrightarrow>
   query_row row s = (case row s of None \<Rightarrow> (Inl ErrNoRows, s) | Some r \<Rightarrow> (Inr r, s))"
  by (simp add: query_row_def)

lemma retE_simp [simp]: "retE x s = (Inr x, s)"
  by (simp add: retE_def)

lemma failE_simp [simp]: "failE e s = (Inl e, s)"
  by (simp add: failE_def)

lemma bindE_Inr: "m s = (Inr x, s') \<Longrightarrow> bindE m f s = f x s'"
  by (simp add: bindE_def)

lemma bindE_Inl: "m s = (Inl e, s') \<Longrightarrow> bindE m f s = (Inl e, s')"
  by (simp add: bindE_def)

lemma map_err_Inr: "m s = (Inr x, s') \<Longrightarrow> map_err g m s = (Inr x, s')"
  by (simp add: map_err_def)

lemma transaction_Nil:
  assumes "faults s = []" and "body s = (Inr x, s')" and "faults s' = []"
  shows "transaction env body s = (Inr x, s')"
  using assms by (simp add: transaction_def bindE_def)

section \<open>Runs with faults and runs without\<close>

text \<open>
  A statement that does not look at the fault plan is \<open>blind\<close>. An operation is
  \<open>transparent\<close> when each successful run, under any plan in which no query is cut short, is
  the run without faults: what is proved of the latter then holds of every success.
\<close>

definition clean :: "db \<Rightarrow> db" where
  "clean s = s\<lparr>faults := []\<rparr>"

definition nocut :: "db \<Rightarrow> bool" where
  "nocut s \<longleftrightarrow> (\<forall>f \<in> set (faults s). case f of Cut n m \<Rightarrow> False | _ \<Rightarrow> True)"

definition blind :: "(db \<Rightarrow> 'a res) \<Rightarrow> bool" where
  "blind st \<longleftrightarrow>
     (\<forall>s fs. st (s\<lparr>faults := fs\<rparr>) = (fst (st s), (snd (st s))\<lparr>faults := fs\<rparr>) \<and>
             faults (snd (st s)) = faults s)"

definition transparent :: "(db \<Rightarrow> 'a res) \<Rightarrow> bool" where
  "transparent m \<longleftrightarrow>
     (\<forall>s. nocut s \<longrightarrow> nocut (snd (m s)) \<and>
        (\<forall>x s'. m s = (Inr x, s') \<longrightarrow> m (clean s) = (Inr x, clean s')))"

named_theorems transparent_intros "composition rules for transparent"

lemma clean_sel [simp]:
  "faults (clean s) = []" "domains (clean s) = domains s"
  "redirect_rules (clean s) = redirect_rules s" "request_log (clean s) = request_log s"
  "domain_stats (clean s) = domain_stats s"
  "dom_seq (clean s) = dom_seq s" "rule_seq (clean s) = rule_seq s" "db_now (clean s) = db_now s"
  by (simp_all add: clean_def)

lemma clean_clean [simp]: "clean (clean s) = clean s"
  by (simp add: clean_def)

lemma clean_Nil: "faults s = [] \<Longrightarrow> clean s = s"
  by (simp add: clean_def)

lemma transparentD:
  assumes "transparent m" and "nocut s"
  shows "nocut (snd (m s))" and "m s = (Inr x, s') \<Longrightarrow> m (clean s) = (Inr x, clean s')"
  using assms by (auto simp: transparent_def)

lemma nocut_next: "nocut s \<Longrightarrow> nocut (snd (next_fault s))"
  by (auto simp: nocut_def next_fault_def split: list.splits)

lemma next_fault_clean: "clean (snd (next_fault s)) = clean s"
  by (simp add: clean_def next_fault_def split: list.splits)

lemma nocut_not_Cut: "nocut s \<Longrightarrow> fst (next_fault s) \<noteq> Cut n m"
  by (auto simp: nocut_def next_fault_def split: list.splits)

lemma transparent_retE [transparent_intros]: "transparent (retE x)"
  by (simp add: transparent_def)

lemma transparent_failE [transparent_intros]: "transparent (failE e)"
  by (simp add: transparent_def)

lemma transparent_bindE [transparent_intros]:
  assumes "transparent m" and "\<And>x. transparent (f x)"
  shows "transparent (bindE m f)"
  unfolding transparent_def
proof (intro allI impI conjI)
  fix s assume nc: "nocut s"
  obtain r s1 where m: "m s = (r, s1)" by fastforce
  with transparentD(1)[OF assms(1) nc] have nc1: "nocut s1" by simp
  show "nocut (snd (bindE m f s))"
    using m nc1 transparentD(1)[OF assms(2) nc1] by (cases r) (simp_all add: bindE_def)
  fix x s' assume "bindE m f s = (Inr x, s')"
  with m obtain y where y: "m s = (Inr y, s1)" "f y s1 = (Inr x, s')"
    by (cases r) (simp_all add: bindE_def)
  from transparentD(2)[OF assms(1) nc y(1)] transparentD(2)[OF assms(2) nc1 y(2)]
  show "bindE m f (clean s) = (Inr x, clean s')" by (simp add: bindE_def)
qed

lemma transparent_map_err [transparent_intros]: "transparent m \<Longrightarrow> transparent (map_err g m)"
  unfolding transparent_def map_err_def
  by (auto split: sum.splits prod.splits)

lemma transparent_exec [transparent_intros]:
  assumes "blind st"
  shows "transparent (exec st)"
  unfolding transparent_def
proof (intro allI impI conjI)
  fix s assume nc: "nocut s"
  obtain f s1 where n: "next_fault s = (f, s1)" by fastforce
  with nocut_next[OF nc] have nc1: "nocut s1" by simp
  have fl: "faults (snd (st s1)) = faults s1" using assms by (simp add: blind_def)
  with nc1 have "nocut (snd (st s1))" by (simp add: nocut_def)
  then show "nocut (snd (exec st s))" using n nc1 by (cases f) (auto simp: exec_def)
  fix x s' assume "exec st s = (Inr x, s')"
  with n have st: "st s1 = (Inr x, s')" by (cases f) (auto simp: exec_def)
  have "clean s = s1\<lparr>faults := []\<rparr>" using next_fault_clean[of s] n by (simp add: clean_def)
  with assms st have "st (clean s) = (Inr x, s'\<lparr>faults := []\<rparr>)" by (simp add: blind_def)
  then show "exec st (clean s) = (Inr x, clean s')" by (simp add: clean_def)
qed

definition blind_rows :: "(db \<Rightarrow> 'r) \<Rightarrow> bool" where
  "blind_rows rows \<longleftrightarrow> (\<forall>s fs. rows (s\<lparr>faults := fs\<rparr>) = rows s)"

lemma transparent_query [transparent_intros]:
  assumes "blind_rows rows"
  shows "transparent (query rows)"
  unfolding transparent_def
proof (intro allI impI conjI)
  fix s assume nc: "nocut s"
  obtain f s1 where n: "next_fault s = (f, s1)" by fastforce
  with nocut_next[OF nc] have nc1: "nocut s1" by simp
  then show "nocut (snd (query rows s))" using n by (cases f) (auto simp: query_def)
  fix x s' assume q: "query rows s = (Inr x, s')"
  have "f \<noteq> Cut k m" for k m using nocut_not_Cut[OF nc] n by simp
  with n q have x: "x = (rows s1, None)" "s' = s1" by (cases f; auto simp: query_def)+
  have "clean s = s1\<lparr>faults := []\<rparr>" using next_fault_clean[of s] n by (simp add: clean_def)
  with x assms show "query rows (clean s) = (Inr x, clean s')"
    by (simp add: blind_rows_def clean_def)
qed

lemma transparent_query_all [transparent_intros]:
  "blind_rows rows \<Longrightarrow> transparent (query_all rows)"
  unfolding query_all_def
  by (intro transparent_intros) (auto intro: transparent_intros split: prod.splits option.splits)

lemma transparent_query_row [transparent_intros]:
  "blind_rows row \<Longrightarrow> transparent (query_row row)"
  unfolding query_row_def
  by (intro transparent_intros) (auto simp: blind_def blind_rows_def split: option.splits)

lemma transparent_for_each [transparent_intros]:
  "(\<And>x. transparent (f x)) \<Longrightarrow> transparent (for_each f xs)"
  by (induction xs) (auto intro: transparent_intros)

lemma transparent_if [transparent_intros]:
  "transparent a \<Longrightarrow> transparent b \<Longrightarrow> transparent (if c then a else b)"
  by simp

lemma blind_retE [simp]: "blind (retE x)"
  by (simp add: blind_def)

lemma transparent_transaction [transparent_intros]:
  assumes "transparent body"
  shows "transparent (transaction env body)"
  unfolding transparent_def
proof (intro allI impI conjI)
  fix s assume nc: "nocut s"
  have ret: "transparent (exec (retE ()))" by (intro transparent_intros blind_retE)
  obtain r0 s0 where b: "exec (retE ()) s = (r0, s0)" by fastforce
  with transparentD(1)[OF ret nc] have nc0: "nocut s0" by simp
  obtain r1 s1 where r1: "body s0 = (r1, s1)" by fastforce
  with transparentD(1)[OF assms nc0] have nc1: "nocut s1" by simp
  obtain r2 s2 where r2: "exec (retE ()) s1 = (r2, s2)" by fastforce
  with transparentD(1)[OF ret nc1] have nc2: "nocut s2" by simp
  have rb: "nocut (rollback env a c) = nocut c" for a c by (simp add: rollback_def nocut_def)
  show "nocut (snd (transaction env body s))"
    using b r1 r2 nc0 nc1 nc2
    by (cases r0; cases r1; cases r2) (simp_all add: transaction_def bindE_def rb)
  fix x s' assume "transaction env body s = (Inr x, s')"
  with b r1 r2 obtain u v where "r0 = Inr u" "r1 = Inr x" "r2 = Inr v" "s' = s2"
    by (cases r0; cases r1; cases r2) (auto simp: transaction_def bindE_def)
  with b r1 r2 transparentD(2)[OF ret nc] transparentD(2)[OF assms nc0] transparentD(2)[OF ret nc1]
  show "transaction env body (clean s) = (Inr x, clean s')"
    by (simp add: transaction_def bindE_def)
qed

section \<open>All or nothing\<close>

definition same_tables :: "db \<Rightarrow> db \<Rightarrow> bool" where
  "same_tables s s' \<longleftrightarrow>
     domains s' = domains s \<and> redirect_rules s' = redirect_rules s \<and>
     request_log s' = request_log s \<and> domain_stats s' = domain_stats s \<and> db_now s' = db_now s"

lemma same_tables_refl [simp]: "same_tables s s"
  by (simp add: same_tables_def)

lemma same_tables_trans: "same_tables a b \<Longrightarrow> same_tables b c \<Longrightarrow> same_tables a c"
  by (simp add: same_tables_def)

lemma same_tables_next [simp]: "same_tables s (snd (next_fault s))"
  by (simp add: same_tables_def next_fault_def split: list.split)

lemma same_tables_rollback [simp]: "same_tables s0 (rollback env s0 s1)"
  by (simp add: same_tables_def rollback_def)

lemma exec_retE_tables: "same_tables s (snd (exec (retE x) s))"
  using same_tables_next[of s] by (auto simp: exec_def simp del: same_tables_next split: fault.splits prod.splits)

text \<open>A transaction that returns an error leaves every table as it found it.\<close>

lemma transaction_error:
  assumes "transaction env body s = (Inl e, s')"
  shows "same_tables s s'"
proof -
  obtain r0 s0 where b: "exec (retE ()) s = (r0, s0)" by fastforce
  with exec_retE_tables[of s "()"] have t0: "same_tables s s0" by simp
  obtain r1 s1 where r1: "body s0 = (r1, s1)" by fastforce
  obtain r2 s2 where r2: "exec (retE ()) s1 = (r2, s2)" by fastforce
  have "s' = s0 \<or> (\<exists>s''. s' = rollback env s0 s'')"
    using assms b r1 r2 by (cases r0; cases r1; cases r2) (auto simp: transaction_def bindE_def)
  with t0 show ?thesis by (auto intro: same_tables_trans)
qed

end
