(* ===== verification/Store_CRUD.thy ===== *)
theory Store_CRUD
  imports Store_Base
begin

text \<open>
  \<open>internal/store/store.go\<close>: dialect helpers, the CRUD operations on domains and rules,
  and the integrity of the two tables (unique names, ids and paths, foreign keys, ids
  below their sequences), which every operation keeps.
\<close>

section \<open>Dialect helpers\<close>

text \<open>Column values as a driver delivers them to \<open>Scan(src any)\<close>; a time is in nanoseconds.\<close>

datatype sqlval = VBool bool | VInt int | VTime int | VText string | VBytes string | VNull

definition boolToInt :: "bool \<Rightarrow> int" where
  "boolToInt b = (if b then 1 else 0)"

definition boolVal :: "dialect \<Rightarrow> bool \<Rightarrow> sqlval" where
  "boolVal d b =
     (if d = DialectPostgres then VBool b else if b then VInt 1 else VInt 0)"

text \<open>Into a fresh variable, which a value of another type leaves \<open>False\<close>.\<close>

fun scanBool :: "sqlval \<Rightarrow> bool" where
  "scanBool (VBool b) = b"
| "scanBool (VInt v) = (v = 1)"
| "scanBool VNull = False"
| "scanBool _ = False"

lemma scanBool_boolVal [simp]: "scanBool (boolVal d b) = b"
  by (simp add: boolVal_def)

lemma scanBool_boolToInt [simp]: "scanBool (VInt (boolToInt b)) = b"
  by (simp add: boolToInt_def)

text \<open>\<open>q\<close> rewrites \<open>?\<close> placeholders to \<open>$1, $2, ...\<close> for PostgreSQL.\<close>

fun q_loop :: "nat \<Rightarrow> string \<Rightarrow> string" where
  "q_loop n [] = []"
| "q_loop n (c # cs) =
     (if c = CHR ''?'' then (CHR ''$'' # nat_dec (Suc n)) @ q_loop (Suc n) cs
      else c # q_loop n cs)"

definition q :: "dialect \<Rightarrow> string \<Rightarrow> string" where
  "q d sql = (if d = DialectSQLite then sql else q_loop 0 sql)"

section \<open>SQL statements on domains and rules\<close>

text \<open>A value stored in the \<open>enabled\<close> column and scanned back.\<close>

definition stored_bool :: "sqlenv \<Rightarrow> bool \<Rightarrow> bool" where
  "stored_bool env b = scanBool (boolVal (env_dialect env) b)"

lemma stored_bool_id [simp]: "stored_bool env b = b"
  by (simp add: stored_bool_def)

definition find_domain :: "string \<Rightarrow> db \<Rightarrow> domain option" where
  "find_domain n s = List.find (\<lambda>d. d_Name d = n) (domains s)"

definition find_rule :: "int \<Rightarrow> string \<Rightarrow> db \<Rightarrow> redirect_rule option" where
  "find_rule i p s = List.find (\<lambda>r. (r_DomainID r, r_Path r) = (i, p)) (redirect_rules s)"

text \<open>A rejected insert still consumes a value of PostgreSQL's sequence.\<close>

definition burn_dom_seq :: "sqlenv \<Rightarrow> db \<Rightarrow> db" where
  "burn_dom_seq env s =
     (if env_dialect env = DialectPostgres then s\<lparr>dom_seq := dom_seq s + 1\<rparr> else s)"

definition burn_rule_seq :: "sqlenv \<Rightarrow> db \<Rightarrow> db" where
  "burn_rule_seq env s =
     (if env_dialect env = DialectPostgres then s\<lparr>rule_seq := rule_seq s + 1\<rparr> else s)"

definition add_domain :: "sqlenv \<Rightarrow> string \<Rightarrow> string \<Rightarrow> int \<Rightarrow> bool \<Rightarrow> db \<Rightarrow> db" where
  "add_domain env n url sc en s =
     s\<lparr>domains := domains s @
         [\<lparr>d_ID = dom_seq s, d_Name = n, d_DefaultURL = url, d_StatusCode = sc,
           d_Enabled = stored_bool env en, d_CreatedAt = db_now s, d_UpdatedAt = db_now s\<rparr>],
       dom_seq := dom_seq s + 1\<rparr>"

definition add_rule ::
  "sqlenv \<Rightarrow> int \<Rightarrow> string \<Rightarrow> string \<Rightarrow> int \<Rightarrow> int \<Rightarrow> bool \<Rightarrow> db \<Rightarrow> db" where
  "add_rule env i p url sc prio en s =
     s\<lparr>redirect_rules := redirect_rules s @
         [\<lparr>r_ID = rule_seq s, r_DomainID = i, r_Path = p, r_TargetURL = url,
           r_StatusCode = sc, r_Priority = prio, r_Enabled = stored_bool env en,
           r_CreatedAt = db_now s, r_UpdatedAt = db_now s\<rparr>],
       rule_seq := rule_seq s + 1\<rparr>"

text \<open>\<open>INSERT INTO domains (...) VALUES (...)\<close>: the new id, or the UNIQUE violation.\<close>

definition sql_insert_domain ::
  "sqlenv \<Rightarrow> string \<Rightarrow> string \<Rightarrow> int \<Rightarrow> bool \<Rightarrow> db \<Rightarrow> int res" where
  "sql_insert_domain env n url sc en s =
     (case find_domain n s of
        Some _ \<Rightarrow> (Inl (ErrMsg (uniq_msg env)), burn_dom_seq env s)
      | None \<Rightarrow> (Inr (dom_seq s), add_domain env n url sc en s))"

text \<open>\<open>INSERT INTO redirect_rules (...)\<close> with \<open>UNIQUE(domain_id, path)\<close> and the foreign key.\<close>

definition sql_insert_rule ::
  "sqlenv \<Rightarrow> int \<Rightarrow> string \<Rightarrow> string \<Rightarrow> int \<Rightarrow> int \<Rightarrow> bool \<Rightarrow> db \<Rightarrow> int res" where
  "sql_insert_rule env i p url sc prio en s =
     (if find_rule i p s \<noteq> None then (Inl (ErrMsg (uniq_msg env)), burn_rule_seq env s)
      else if i \<notin> d_ID ` set (domains s) then (Inl (ErrMsg (fk_msg env)), burn_rule_seq env s)
      else (Inr (rule_seq s), add_rule env i p url sc prio en s))"

text \<open>\<open>DELETE FROM domains WHERE name = ?\<close>, with \<open>ON DELETE CASCADE\<close> on the rules.\<close>

definition sql_delete_domain :: "string \<Rightarrow> db \<Rightarrow> unit res" where
  "sql_delete_domain n s =
     (Inr (),
      s\<lparr>domains := filter (\<lambda>d. d_Name d \<noteq> n) (domains s),
        redirect_rules :=
          filter (\<lambda>r. \<not> (\<exists>d \<in> set (domains s). d_Name d = n \<and> d_ID d = r_DomainID r))
            (redirect_rules s)\<rparr>)"

definition sql_delete_rule :: "int \<Rightarrow> db \<Rightarrow> unit res" where
  "sql_delete_rule i s =
     (Inr (), s\<lparr>redirect_rules := filter (\<lambda>r. r_ID r \<noteq> i) (redirect_rules s)\<rparr>)"

definition sql_update_domain ::
  "sqlenv \<Rightarrow> string \<Rightarrow> string \<Rightarrow> int \<Rightarrow> bool \<Rightarrow> db \<Rightarrow> unit res" where
  "sql_update_domain env n url sc en s =
     (Inr (),
      s\<lparr>domains := map (\<lambda>d. if d_Name d = n
          then d\<lparr>d_DefaultURL := url, d_StatusCode := sc, d_Enabled := stored_bool env en,
                 d_UpdatedAt := db_now s\<rparr>
          else d) (domains s)\<rparr>)"

text \<open>\<open>UPDATE redirect_rules SET path = ?, ... WHERE id = ?\<close> can violate \<open>UNIQUE(domain_id, path)\<close>.\<close>

definition sql_update_rule ::
  "sqlenv \<Rightarrow> int \<Rightarrow> string \<Rightarrow> string \<Rightarrow> int \<Rightarrow> int \<Rightarrow> bool \<Rightarrow> db \<Rightarrow> unit res" where
  "sql_update_rule env i p url sc prio en s =
     (case List.find (\<lambda>r. r_ID r = i) (redirect_rules s) of
        None \<Rightarrow> (Inr (), s)
      | Some old \<Rightarrow>
          (if \<exists>r \<in> set (redirect_rules s).
                r_ID r \<noteq> i \<and> r_DomainID r = r_DomainID old \<and> r_Path r = p
           then (Inl (ErrMsg (uniq_msg env)), s)
           else (Inr (),
             s\<lparr>redirect_rules := map (\<lambda>r. if r_ID r = i
                 then r\<lparr>r_Path := p, r_TargetURL := url, r_StatusCode := sc,
                        r_Priority := prio, r_Enabled := stored_bool env en,
                        r_UpdatedAt := db_now s\<rparr>
                 else r) (redirect_rules s)\<rparr>)))"

section \<open>\<open>LIKE\<close>\<close>

text \<open>
  \<open>_\<close> matches one character (a byte and the UTF-8 continuation bytes after it) and \<open>%\<close> any
  number of bytes, which on valid UTF-8 is any number of characters; SQLite ignores the case of ASCII letters,
  in PostgreSQL a backslash makes the next byte literal.
\<close>

definition ascii_lower :: "char \<Rightarrow> char" where
  "ascii_lower c =
     (let n = of_char c :: nat in if 65 \<le> n \<and> n \<le> 90 then char_of (n + 32) else c)"

definition like_char :: "dialect \<Rightarrow> char \<Rightarrow> char \<Rightarrow> bool" where
  "like_char d p c =
     (if d = DialectSQLite then ascii_lower p = ascii_lower c else p = c)"

definition continuation :: "char \<Rightarrow> bool" where
  "continuation c \<longleftrightarrow> (let n = of_char c :: nat in 128 \<le> n \<and> n < 192)"

function (sequential) like :: "dialect \<Rightarrow> string \<Rightarrow> string \<Rightarrow> bool" where
  "like d [] t = (t = [])"
| "like d (p # ps) t =
     (if p = CHR ''%'' then
        like d ps t \<or> (case t of [] \<Rightarrow> False | _ # t' \<Rightarrow> like d (p # ps) t')
      else if p = CHR ''_'' then
        (case t of [] \<Rightarrow> False | _ # t' \<Rightarrow> like d ps (dropWhile continuation t'))
      else if p = CHR 0x5C \<and> d = DialectPostgres then
        (case ps of [] \<Rightarrow> False
         | e # ps' \<Rightarrow> (case t of [] \<Rightarrow> False | c # t' \<Rightarrow> c = e \<and> like d ps' t'))
      else (case t of [] \<Rightarrow> False | c # t' \<Rightarrow> like_char d p c \<and> like d ps t'))"
  by pat_completeness auto
termination
  by (relation "measure (\<lambda>(d, p, t). length p + length t)")
    (auto intro: le_less_trans[OF length_dropWhile_le])

section \<open>Domain operations\<close>

text \<open>\<open>OFFSET\<close>: PostgreSQL rejects a negative one, SQLite takes it as 0.\<close>

definition limit_offset :: "int \<Rightarrow> int \<Rightarrow> 'a list \<Rightarrow> 'a list" where
  "limit_offset lim off xs = take (nat lim) (drop (nat off) xs)"

definition search_domains :: "sqlenv \<Rightarrow> string \<Rightarrow> db \<Rightarrow> domain list" where
  "search_domains env search s =
     (if search = [] then domains s
      else filter (\<lambda>d. like (env_dialect env) (''%'' @ search @ ''%'') (d_Name d)) (domains s))"

definition by_name :: "sqlenv \<Rightarrow> domain list \<Rightarrow> domain list" where
  "by_name env = sort_rel (\<lambda>a b. collate env (d_Name a) (d_Name b))"

definition ListDomains ::
  "sqlenv \<Rightarrow> string \<Rightarrow> int \<Rightarrow> int \<Rightarrow> db \<Rightarrow> (domain list \<times> int) res" where
  "ListDomains env search limit offset =
     bindE (exec (\<lambda>s. (Inr (int (length (search_domains env search s))), s))) (\<lambda>total.
       let lim = (if limit \<le> 0 then 50 else limit) in
       bindE
         (if env_dialect env = DialectPostgres \<and> offset < 0
          then exec (failE (ErrMsg (offset_msg env)))
          else query_all (\<lambda>s. limit_offset lim offset (by_name env (search_domains env search s))))
         (\<lambda>ds. retE (ds, total)))"

definition ListRules :: "sqlenv \<Rightarrow> int \<Rightarrow> db \<Rightarrow> redirect_rule list res" where
  "ListRules env domainID =
     query_all (\<lambda>s. ord_prio env (filter (\<lambda>r. r_DomainID r = domainID) (redirect_rules s)))"

definition GetDomain :: "sqlenv \<Rightarrow> string \<Rightarrow> db \<Rightarrow> domain_with_rules res" where
  "GetDomain env name =
     bindE (query_row (find_domain name)) (\<lambda>d.
       bindE (ListRules env (d_ID d)) (\<lambda>rules.
         retE \<lparr>dr_Domain = d, dr_Rules = rules, dr_HitCount = 0\<rparr>))"

text \<open>
  SQLite inserts and reads the timestamps back in a second statement; PostgreSQL returns
  them from the insert. The result is the argument struct with the columns filled in.
\<close>

definition CreateDomain :: "sqlenv \<Rightarrow> domain \<Rightarrow> db \<Rightarrow> domain res" where
  "CreateDomain env d =
     bindE (exec (sql_insert_domain env (d_Name d) (d_DefaultURL d) (d_StatusCode d) (d_Enabled d)))
       (\<lambda>i. if env_dialect env = DialectPostgres
            then (\<lambda>s. (Inr (d\<lparr>d_ID := i, d_CreatedAt := db_now s, d_UpdatedAt := db_now s\<rparr>), s))
            else bindE (query_row (\<lambda>s. List.find (\<lambda>x. d_ID x = i) (domains s)))
              (\<lambda>x. retE (d\<lparr>d_ID := i, d_CreatedAt := d_CreatedAt x,
                          d_UpdatedAt := d_UpdatedAt x\<rparr>)))"

definition UpdateDomain :: "sqlenv \<Rightarrow> string \<Rightarrow> domain \<Rightarrow> db \<Rightarrow> unit res" where
  "UpdateDomain env name d =
     exec (sql_update_domain env name (d_DefaultURL d) (d_StatusCode d) (d_Enabled d))"

definition DeleteDomain :: "sqlenv \<Rightarrow> string \<Rightarrow> db \<Rightarrow> unit res" where
  "DeleteDomain env name = exec (sql_delete_domain name)"

section \<open>Rule operations\<close>

definition CreateRule :: "sqlenv \<Rightarrow> redirect_rule \<Rightarrow> db \<Rightarrow> redirect_rule res" where
  "CreateRule env r =
     bindE (exec (sql_insert_rule env (r_DomainID r) (r_Path r) (r_TargetURL r)
                    (r_StatusCode r) (r_Priority r) (r_Enabled r)))
       (\<lambda>i. retE (r\<lparr>r_ID := i\<rparr>))"

definition UpdateRule :: "sqlenv \<Rightarrow> int \<Rightarrow> redirect_rule \<Rightarrow> db \<Rightarrow> unit res" where
  "UpdateRule env i r =
     exec (sql_update_rule env i (r_Path r) (r_TargetURL r) (r_StatusCode r)
             (r_Priority r) (r_Enabled r))"

definition DeleteRule :: "sqlenv \<Rightarrow> int \<Rightarrow> db \<Rightarrow> unit res" where
  "DeleteRule env i = exec (sql_delete_rule i)"

definition GetRuleDomainID :: "sqlenv \<Rightarrow> int \<Rightarrow> db \<Rightarrow> int res" where
  "GetRuleDomainID env ruleID =
     query_row (\<lambda>s. map_option r_DomainID (List.find (\<lambda>r. r_ID r = ruleID) (redirect_rules s)))"

section \<open>Integrity of the tables\<close>

definition wf_db :: "db \<Rightarrow> bool" where
  "wf_db s \<longleftrightarrow>
     distinct (map d_Name (domains s)) \<and> distinct (map d_ID (domains s)) \<and>
     (\<forall>d \<in> set (domains s). d_ID d < dom_seq s) \<and>
     distinct (map r_ID (redirect_rules s)) \<and>
     (\<forall>r \<in> set (redirect_rules s). r_ID r < rule_seq s) \<and>
     distinct (map (\<lambda>r. (r_DomainID r, r_Path r)) (redirect_rules s)) \<and>
     (\<forall>r \<in> set (redirect_rules s). r_DomainID r \<in> d_ID ` set (domains s))"

lemma wf_dbD:
  assumes "wf_db s"
  shows wf_names: "distinct (map d_Name (domains s))"
    and wf_ids: "distinct (map d_ID (domains s))"
    and wf_dom_seq: "d \<in> set (domains s) \<Longrightarrow> d_ID d < dom_seq s"
    and wf_rule_ids: "distinct (map r_ID (redirect_rules s))"
    and wf_rule_seq: "r \<in> set (redirect_rules s) \<Longrightarrow> r_ID r < rule_seq s"
    and wf_rule_keys: "distinct (map (\<lambda>r. (r_DomainID r, r_Path r)) (redirect_rules s))"
    and wf_fk: "r \<in> set (redirect_rules s) \<Longrightarrow> r_DomainID r \<in> d_ID ` set (domains s)"
  using assms by (auto simp: wf_db_def)

lemma fault_free_wf [simp]: "fault_free_prop wf_db"
  by (simp add: fault_free_prop_def wf_db_def)

lemma find_domain_None: "find_domain n s = None \<longleftrightarrow> n \<notin> d_Name ` set (domains s)"
  by (auto simp: find_domain_def find_None_iff)

lemma find_domain_Some: "find_domain n s = Some d \<Longrightarrow> d \<in> set (domains s) \<and> d_Name d = n"
  unfolding find_domain_def by (rule find_Some_D)

lemma find_domain_mem:
  "wf_db s \<Longrightarrow> d \<in> set (domains s) \<Longrightarrow> find_domain (d_Name d) s = Some d"
  unfolding find_domain_def by (rule find_key_unique[OF wf_names])

lemma find_rule_None:
  "find_rule i p s = None \<longleftrightarrow> (i, p) \<notin> (\<lambda>r. (r_DomainID r, r_Path r)) ` set (redirect_rules s)"
  by (auto simp: find_rule_def find_None_iff)

lemma find_rule_Some:
  "find_rule i p s = Some r \<Longrightarrow> r \<in> set (redirect_rules s) \<and> r_DomainID r = i \<and> r_Path r = p"
  using find_Some_D[of _ "redirect_rules s" r] by (fastforce simp: find_rule_def)

lemma find_rule_mem:
  "wf_db s \<Longrightarrow> r \<in> set (redirect_rules s) \<Longrightarrow> find_rule (r_DomainID r) (r_Path r) s = Some r"
  unfolding find_rule_def by (rule find_key_unique[OF wf_rule_keys])

lemma wf_add_domain:
  assumes "wf_db s" and "find_domain n s = None"
  shows "wf_db (add_domain env n url sc en s)"
proof -
  have "dom_seq s \<notin> d_ID ` set (domains s)"
    using wf_dom_seq[OF assms(1)] by fastforce
  then show ?thesis
    using assms by (fastforce simp: wf_db_def add_domain_def find_domain_None)
qed

lemma wf_add_rule:
  assumes "wf_db s" and "find_rule i p s = None" and "i \<in> d_ID ` set (domains s)"
  shows "wf_db (add_rule env i p url sc prio en s)"
proof -
  have "rule_seq s \<notin> r_ID ` set (redirect_rules s)"
    using wf_rule_seq[OF assms(1)] by fastforce
  then show ?thesis
    using assms by (fastforce simp: wf_db_def add_rule_def find_rule_None)
qed

lemma wf_burn [simp]: "wf_db s \<Longrightarrow> wf_db (burn_dom_seq env s)" "wf_db s \<Longrightarrow> wf_db (burn_rule_seq env s)"
  by (fastforce simp: burn_dom_seq_def burn_rule_seq_def wf_db_def)+

lemma keeps_insert_domain [keeps_intros]: "keeps wf_db (sql_insert_domain env n url sc en)"
  by (rule keepsI) (auto simp: sql_insert_domain_def wf_add_domain split: option.splits)

lemma keeps_insert_rule [keeps_intros]: "keeps wf_db (sql_insert_rule env i p url sc prio en)"
  by (rule keepsI) (auto simp: sql_insert_rule_def wf_add_rule)

lemma wf_map_domains:
  assumes "wf_db s" and n: "\<And>d. d_Name (f d) = d_Name d" and i: "\<And>d. d_ID (f d) = d_ID d"
  shows "wf_db (s\<lparr>domains := map f (domains s)\<rparr>)"
proof -
  have "d_ID ` f ` A = d_ID ` A" for A by (simp add: image_image i)
  with assms show ?thesis by (simp add: wf_db_def comp_def)
qed

lemma keeps_update_domain [keeps_intros]: "keeps wf_db (sql_update_domain env n url sc en)"
  by (rule keepsI) (simp add: sql_update_domain_def wf_map_domains)

text \<open>An update of one rule keeps the keys distinct when no other rule has the new path.\<close>

lemma distinct_keys_update:
  assumes "distinct (map key rs)" and "distinct (map ident rs)"
    and "\<And>r. r \<in> set rs \<Longrightarrow> ident r \<noteq> i \<Longrightarrow> key r \<noteq> k"
    and "\<And>r. r \<in> set rs \<Longrightarrow> key (f r) = (if ident r = i then k else key r)"
  shows "distinct (map (\<lambda>r. key (f r)) rs)"
  using assms
proof (induction rs)
  case Nil
  then show ?case by simp
next
  case (Cons x xs)
  have "key (f x) \<notin> (\<lambda>r. key (f r)) ` set xs"
  proof
    assume "key (f x) \<in> (\<lambda>r. key (f r)) ` set xs"
    then obtain y where y: "y \<in> set xs" "key (f x) = key (f y)" by auto
    have "ident x \<noteq> ident y" "key x \<noteq> key y" using Cons.prems(1,2) y(1) by force+
    with y Cons.prems(3)[of x] Cons.prems(3)[of y] Cons.prems(4)[of x] Cons.prems(4)[of y]
    show False by (auto split: if_splits)
  qed
  with Cons show ?case by simp
qed

lemma wf_map_rules:
  assumes wf: "wf_db s" and i: "\<And>r. r_ID (f r) = r_ID r"
    and d: "\<And>r. r_DomainID (f r) = r_DomainID r"
    and keys: "distinct (map (\<lambda>r. (r_DomainID (f r), r_Path (f r))) (redirect_rules s))"
  shows "wf_db (s\<lparr>redirect_rules := map f (redirect_rules s)\<rparr>)"
  using wf keys by (simp add: wf_db_def comp_def i d)

lemma keeps_update_rule [keeps_intros]: "keeps wf_db (sql_update_rule env i p url sc prio en)"
proof (rule keepsI)
  fix s assume wf: "wf_db s"
  let ?f = "\<lambda>r. if r_ID r = i then r\<lparr>r_Path := p, r_TargetURL := url, r_StatusCode := sc,
              r_Priority := prio, r_Enabled := stored_bool env en, r_UpdatedAt := db_now s\<rparr>
              else r"
  have ids: "r_ID (?f r) = r_ID r" "r_DomainID (?f r) = r_DomainID r" for r by auto
  show "wf_db (snd (sql_update_rule env i p url sc prio en s))"
  proof (cases "List.find (\<lambda>r. r_ID r = i) (redirect_rules s)")
    case None
    with wf show ?thesis by (simp add: sql_update_rule_def)
  next
    case (Some old)
    from find_Some_D[OF Some] have old: "old \<in> set (redirect_rules s)" "r_ID old = i" by auto
    show ?thesis
    proof (cases "\<exists>r \<in> set (redirect_rules s).
        r_ID r \<noteq> i \<and> r_DomainID r = r_DomainID old \<and> r_Path r = p")
      case True
      with wf Some show ?thesis by (simp add: sql_update_rule_def)
    next
      case False
      have uniq: "r = old" if "r \<in> set (redirect_rules s)" "r_ID r = i" for r
        using wf_rule_ids[OF wf] that old by (metis inj_onD distinct_map)
      have keys: "distinct (map (\<lambda>r. (r_DomainID (?f r), r_Path (?f r))) (redirect_rules s))"
        by (rule distinct_keys_update[OF wf_rule_keys[OF wf] wf_rule_ids[OF wf],
              where k = "(r_DomainID old, p)" and i = i]) (use False uniq in auto)
      have eq: "snd (sql_update_rule env i p url sc prio en s) =
          s\<lparr>redirect_rules := map ?f (redirect_rules s)\<rparr>"
        by (simp only: sql_update_rule_def Some option.case if_not_P[OF False] snd_conv)
      show ?thesis unfolding eq by (rule wf_map_rules[OF wf ids keys])
    qed
  qed
qed

lemma wf_filter_rules:
  "wf_db s \<Longrightarrow> wf_db (s\<lparr>redirect_rules := filter P (redirect_rules s)\<rparr>)"
  by (auto simp: wf_db_def distinct_map_filterI)

lemma keeps_delete_rule [keeps_intros]: "keeps wf_db (sql_delete_rule i)"
  by (rule keepsI) (simp add: sql_delete_rule_def wf_filter_rules)

lemma keeps_delete_domain [keeps_intros]: "keeps wf_db (sql_delete_domain n)"
proof (rule keepsI)
  fix s assume wf: "wf_db s"
  have "r_DomainID r \<in> d_ID ` {d \<in> set (domains s). d_Name d \<noteq> n}"
    if "r \<in> set (redirect_rules s)"
      and "\<not> (\<exists>d \<in> set (domains s). d_Name d = n \<and> d_ID d = r_DomainID r)" for r
    using wf_fk[OF wf that(1)] that(2) by fastforce
  with wf show "wf_db (snd (sql_delete_domain n s))"
    by (auto simp: sql_delete_domain_def wf_db_def distinct_map_filterI)
qed

text \<open>Every operation of the API keeps the integrity of the tables, whatever fails in it.\<close>

lemma keeps_ListDomains: "keeps wf_db (ListDomains env search lim off)"
  unfolding ListDomains_def Let_def
  by (intro keeps_intros fault_free_wf)

lemma keeps_ListRules [keeps_intros]: "keeps wf_db (ListRules env i)"
  unfolding ListRules_def by (intro keeps_intros fault_free_wf)

lemma keeps_GetDomain: "keeps wf_db (GetDomain env n)"
  unfolding GetDomain_def by (intro keeps_intros fault_free_wf)

lemma keeps_CreateDomain: "keeps wf_db (CreateDomain env d)"
  unfolding CreateDomain_def
  by (intro keeps_intros fault_free_wf)

lemma keeps_UpdateDomain: "keeps wf_db (UpdateDomain env n d)"
  unfolding UpdateDomain_def by (intro keeps_intros fault_free_wf)

lemma keeps_DeleteDomain: "keeps wf_db (DeleteDomain env n)"
  unfolding DeleteDomain_def by (intro keeps_intros fault_free_wf)

lemma keeps_CreateRule: "keeps wf_db (CreateRule env r)"
  unfolding CreateRule_def by (intro keeps_intros fault_free_wf)

lemma keeps_UpdateRule: "keeps wf_db (UpdateRule env i r)"
  unfolding UpdateRule_def by (intro keeps_intros fault_free_wf)

lemma keeps_DeleteRule: "keeps wf_db (DeleteRule env i)"
  unfolding DeleteRule_def by (intro keeps_intros fault_free_wf)

lemmas keeps_CRUD =
  keeps_CreateDomain keeps_UpdateDomain keeps_DeleteDomain
  keeps_CreateRule keeps_UpdateRule keeps_DeleteRule

section \<open>A small database for witnesses\<close>

definition demo_domain :: "int \<Rightarrow> string \<Rightarrow> string \<Rightarrow> int \<Rightarrow> bool \<Rightarrow> domain" where
  "demo_domain i n url sc en =
     \<lparr>d_ID = i, d_Name = n, d_DefaultURL = url, d_StatusCode = sc, d_Enabled = en,
      d_CreatedAt = ''t0'', d_UpdatedAt = ''t0''\<rparr>"

definition demo_rule ::
  "int \<Rightarrow> int \<Rightarrow> string \<Rightarrow> string \<Rightarrow> int \<Rightarrow> int \<Rightarrow> bool \<Rightarrow> redirect_rule" where
  "demo_rule i di p url sc prio en =
     \<lparr>r_ID = i, r_DomainID = di, r_Path = p, r_TargetURL = url, r_StatusCode = sc,
      r_Priority = prio, r_Enabled = en, r_CreatedAt = ''t0'', r_UpdatedAt = ''t0''\<rparr>"

definition demo_db :: db where
  "demo_db =
     \<lparr>domains = [demo_domain 1 ''old.example'' ''https://new.example'' 301 True,
                 demo_domain 2 ''off.example'' ''https://new.example'' 301 False],
      redirect_rules =
        [demo_rule 1 1 ''/docs'' ''https://docs.example'' 302 10 True,
         demo_rule 2 1 ''/docs/api'' ''https://api.example'' 307 20 True,
         demo_rule 3 1 ''/blog'' ''https://blog.example'' 301 30 False],
      request_log = [], domain_stats = [], dom_seq = 3, rule_seq = 4,
      db_now = ''t1'', faults = []\<rparr>"

lemmas demo_defs = demo_db_def demo_domain_def demo_rule_def

lemma demo_db_wf [simp]: "wf_db demo_db"
  by (simp add: wf_db_def demo_defs)

lemma demo_db_faults [simp]: "faults demo_db = []"
  by (simp add: demo_db_def)

end
