(* ===== verification/Store_View.thy ===== *)
theory Store_View
  imports Store_CRUD
begin

text \<open>
  The abstract contents of the store: a map from domain names to sites (default target,
  status, enabled flag and the rules by path). Ids, row order and timestamps are gone.
  Each SQL statement on the tables is a simple update of this map.
\<close>

record rule_view =
  v_TargetURL :: string
  v_StatusCode :: int
  v_Priority :: int
  v_Enabled :: bool

record site =
  s_DefaultURL :: string
  s_StatusCode :: int
  s_Enabled :: bool
  s_Rules :: "string \<rightharpoonup> rule_view"

definition rule_view_of :: "redirect_rule \<Rightarrow> rule_view" where
  "rule_view_of r =
     \<lparr>v_TargetURL = r_TargetURL r, v_StatusCode = r_StatusCode r,
      v_Priority = r_Priority r, v_Enabled = r_Enabled r\<rparr>"

definition site_of :: "db \<Rightarrow> domain \<Rightarrow> site" where
  "site_of s d =
     \<lparr>s_DefaultURL = d_DefaultURL d, s_StatusCode = d_StatusCode d, s_Enabled = d_Enabled d,
      s_Rules = (\<lambda>p. map_option rule_view_of (find_rule (d_ID d) p s))\<rparr>"

definition view :: "db \<Rightarrow> string \<rightharpoonup> site" where
  "view s n = map_option (site_of s) (find_domain n s)"

lemma view_None: "view s n = None \<longleftrightarrow> find_domain n s = None"
  by (simp add: view_def)

lemma view_Some: "view s n = Some x \<Longrightarrow> \<exists>d. find_domain n s = Some d \<and> x = site_of s d"
  by (auto simp: view_def)

lemma dom_view: "dom (view s) = d_Name ` set (domains s)"
  using find_domain_None by (auto simp: view_def dom_def)

text \<open>The view only reads the two tables.\<close>

lemma find_frame:
  "domains s' = domains s \<Longrightarrow> find_domain n s' = find_domain n s"
  "redirect_rules s' = redirect_rules s \<Longrightarrow> find_rule i p s' = find_rule i p s"
  by (simp_all add: find_domain_def find_rule_def)

lemma view_frame:
  assumes "domains s' = domains s" and "redirect_rules s' = redirect_rules s"
  shows "view s' = view s"
proof -
  have site: "site_of s' = site_of s"
    by (rule ext) (simp add: site_of_def find_frame(2)[OF assms(2)])
  show ?thesis by (rule ext) (simp only: view_def find_frame(1)[OF assms(1)] site)
qed

lemma view_burn [simp]: "view (burn_dom_seq env s) = view s" "view (burn_rule_seq env s) = view s"
  by (auto intro!: view_frame simp: burn_dom_seq_def burn_rule_seq_def)

lemma view_faults [simp]: "view (s\<lparr>faults := fs\<rparr>) = view s"
  by (rule view_frame) simp_all

section \<open>Statements as updates of the view\<close>

lemma distinct_id_eq:
  "wf_db s \<Longrightarrow> d \<in> set (domains s) \<Longrightarrow> d' \<in> set (domains s) \<Longrightarrow> d_ID d = d_ID d' \<Longrightarrow> d = d'"
  using wf_ids by (metis distinct_map inj_onD)

lemma find_domain_id_inj:
  assumes "wf_db s" and "find_domain n s = Some d" and "find_domain m s = Some d'"
    and "d_ID d = d_ID d'"
  shows "n = m"
  using distinct_id_eq[OF assms(1)] find_domain_Some[OF assms(2)] find_domain_Some[OF assms(3)]
    assms(4) by auto

lemma view_add_domain:
  assumes wf: "wf_db s" and new: "find_domain n s = None"
  shows "view (add_domain env n url sc en s) =
    (view s)(n \<mapsto> \<lparr>s_DefaultURL = url, s_StatusCode = sc, s_Enabled = en, s_Rules = Map.empty\<rparr>)"
proof -
  let ?s = "add_domain env n url sc en s"
  have rules: "find_rule i p ?s = find_rule i p s" for i p
    by (rule find_frame) (simp add: add_domain_def)
  have none: "find_rule (dom_seq s) p s = None" for p
    using wf_fk[OF wf] wf_dom_seq[OF wf] by (fastforce simp: find_rule_None)
  have doms: "find_domain m ?s =
      (case find_domain m s of Some d \<Rightarrow> Some d
       | None \<Rightarrow> if m = n then Some (last (domains ?s)) else None)" for m
    by (auto simp: find_domain_def add_domain_def find_append split: option.split)
  have site: "site_of ?s d = site_of s d" for d
    by (simp add: site_of_def rules)
  have row: "site_of s (last (domains ?s)) =
      \<lparr>s_DefaultURL = url, s_StatusCode = sc, s_Enabled = en, s_Rules = Map.empty\<rparr>"
    by (simp add: site_of_def add_domain_def none)
  show ?thesis
  proof (rule ext)
    fix m
    show "view ?s m = ((view s)(n \<mapsto> \<lparr>s_DefaultURL = url, s_StatusCode = sc,
        s_Enabled = en, s_Rules = Map.empty\<rparr>)) m"
      using new by (simp add: view_def doms site row split: option.split)
  qed
qed

lemma find_rule_add_rule_row:
  "find_rule i' p' (add_rule env i p url sc prio en s) =
    (case find_rule i' p' s of Some r \<Rightarrow> Some r
     | None \<Rightarrow> if i' = i \<and> p' = p
               then Some (last (redirect_rules (add_rule env i p url sc prio en s))) else None)"
  by (auto simp: find_rule_def add_rule_def find_append split: option.split)

lemma find_rule_add_rule:
  assumes "find_rule i p s = None"
  shows "map_option rule_view_of (find_rule i' p' (add_rule env i p url sc prio en s)) =
    (if i' = i \<and> p' = p
     then Some \<lparr>v_TargetURL = url, v_StatusCode = sc, v_Priority = prio, v_Enabled = en\<rparr>
     else map_option rule_view_of (find_rule i' p' s))"
  unfolding find_rule_add_rule_row using assms
  by (auto simp: add_rule_def rule_view_of_def split: option.split)

text \<open>A change of the rule table at the key of one domain changes that site only.\<close>

lemma view_rules_at:
  assumes wf: "wf_db s" and d: "find_domain n s = Some d"
    and doms: "domains s' = domains s"
    and rules: "\<And>i' p'. map_option rule_view_of (find_rule i' p' s') =
      (if i' = d_ID d then g p' else map_option rule_view_of (find_rule i' p' s))"
  shows "view s' = (view s)(n \<mapsto> (site_of s d)\<lparr>s_Rules := g\<rparr>)"
proof (rule ext)
  fix m
  show "view s' m = ((view s)(n \<mapsto> (site_of s d)\<lparr>s_Rules := g\<rparr>)) m"
  proof (cases "m = n")
    case True
    with d show ?thesis by (simp add: view_def find_frame(1)[OF doms] site_of_def rules)
  next
    case False
    then have "d_ID d' \<noteq> d_ID d" if "find_domain m s = Some d'" for d'
      using find_domain_id_inj[OF wf d that] by auto
    with False show ?thesis
      by (cases "find_domain m s") (simp_all add: view_def find_frame(1)[OF doms] site_of_def rules)
  qed
qed

lemma view_add_rule:
  assumes "wf_db s" and "find_domain n s = Some d" and "find_rule (d_ID d) p s = None"
  shows "view (add_rule env (d_ID d) p url sc prio en s) =
    (view s)(n \<mapsto> (site_of s d)\<lparr>s_Rules := (s_Rules (site_of s d))(p \<mapsto>
      \<lparr>v_TargetURL = url, v_StatusCode = sc, v_Priority = prio, v_Enabled = en\<rparr>)\<rparr>)"
  by (rule view_rules_at[OF assms(1,2)], simp add: add_rule_def)
    (auto simp: find_rule_add_rule[OF assms(3)] site_of_def)

text \<open>In-place updates of the domain columns.\<close>

lemma view_map_domains:
  assumes n: "\<And>d. d_Name (f d) = d_Name d" and i: "\<And>d. d_ID (f d) = d_ID d"
  shows "view (s\<lparr>domains := map f (domains s)\<rparr>) m =
    map_option (\<lambda>d. (site_of s (f d))) (find_domain m s)"
proof -
  have "find_domain m (s\<lparr>domains := map f (domains s)\<rparr>) = map_option f (find_domain m s)"
    unfolding find_domain_def by (simp add: find_map_cond n)
  then show ?thesis
    by (simp add: view_def site_of_def find_rule_def option.map_comp comp_def i)
qed

lemma view_update_domain:
  "view (snd (sql_update_domain env n url sc en s)) =
    (case view s n of None \<Rightarrow> view s
     | Some x \<Rightarrow> (view s)(n \<mapsto> x\<lparr>s_DefaultURL := url, s_StatusCode := sc, s_Enabled := en\<rparr>))"
  (is "view ?s = ?r")
proof (rule ext)
  fix m
  let ?f = "\<lambda>d. if d_Name d = n then d\<lparr>d_DefaultURL := url, d_StatusCode := sc,
              d_Enabled := stored_bool env en, d_UpdatedAt := db_now s\<rparr> else d"
  have "view ?s m = map_option (\<lambda>d. site_of s (?f d)) (find_domain m s)"
    using view_map_domains[of ?f s m] by (simp add: sql_update_domain_def)
  then show "view ?s m = ?r m"
    by (cases "find_domain m s"; cases "m = n")
      (auto simp: view_def site_of_def dest: find_domain_Some split: option.splits)
qed

lemma view_delete_domain:
  assumes wf: "wf_db s"
  shows "view (snd (sql_delete_domain n s)) = (view s)(n := None)"
proof (rule ext)
  fix m
  let ?s = "snd (sql_delete_domain n s)"
  have fd: "find_domain m ?s = (if m = n then None else find_domain m s)"
    by (auto simp: find_domain_def sql_delete_domain_def find_filter find_None_iff
        intro: find_cong_set)
  have fr: "find_rule (d_ID d) p ?s = find_rule (d_ID d) p s"
    if "find_domain m s = Some d" and "m \<noteq> n" for d p
  proof -
    have "\<not> (\<exists>d' \<in> set (domains s). d_Name d' = n \<and> d_ID d' = d_ID d)"
      using distinct_id_eq[OF wf] find_domain_Some[OF that(1)] that(2) by auto
    then show ?thesis
      by (auto simp: find_rule_def sql_delete_domain_def find_filter intro: find_cong_set)
  qed
  show "view ?s m = ((view s)(n := None)) m"
    by (cases "find_domain m s") (auto simp: view_def fd site_of_def fr)
qed

text \<open>Deleting rules by a condition on their keys.\<close>

lemma find_rule_filter:
  assumes "wf_db s"
  shows "find_rule i p (s\<lparr>redirect_rules := filter P (redirect_rules s)\<rparr>) =
    (case find_rule i p s of None \<Rightarrow> None | Some r \<Rightarrow> if P r then Some r else None)"
proof (cases "find_rule i p s")
  case None
  then have "find_rule i p (s\<lparr>redirect_rules := filter P (redirect_rules s)\<rparr>) = None"
    by (auto simp: find_rule_def find_filter find_None_iff)
  with None show ?thesis by simp
next
  case (Some r)
  note r = find_rule_Some[OF Some]
  have uniq: "x = r" if "x \<in> set (redirect_rules s)" "r_DomainID x = i" "r_Path x = p" for x
    using find_rule_mem[OF assms that(1)] that(2,3) Some by simp
  have "List.find (\<lambda>x. P x \<and> (r_DomainID x, r_Path x) = (i, p)) (redirect_rules s) =
      (if P r then List.find (\<lambda>x. (r_DomainID x, r_Path x) = (i, p)) (redirect_rules s) else None)"
    using uniq by (auto simp: find_None_iff intro!: find_cong_set)
  with Some show ?thesis by (simp add: find_rule_def find_filter)
qed

text \<open>A state in which statements compute: sound tables and no fault ahead.\<close>

definition good :: "db \<Rightarrow> bool" where
  "good s \<longleftrightarrow> wf_db s \<and> faults s = []"

lemma goodD: "good s \<Longrightarrow> wf_db s" "good s \<Longrightarrow> faults s = []"
  by (simp_all add: good_def)

lemma goodI: "wf_db s \<Longrightarrow> faults s = [] \<Longrightarrow> good s"
  by (simp add: good_def)

text \<open>The id of a domain by its name.\<close>

definition id_of :: "db \<Rightarrow> string \<rightharpoonup> int" where
  "id_of s n = map_option d_ID (find_domain n s)"

lemma id_of_Some: "id_of s n = Some i \<longleftrightarrow> (\<exists>d. find_domain n s = Some d \<and> d_ID d = i)"
  by (auto simp: id_of_def)

lemma id_of_inj:
  assumes "wf_db s" and "id_of s n = Some i" and "id_of s m = Some i"
  shows "n = m"
proof -
  from assms(2,3) obtain d d' where "find_domain n s = Some d" "find_domain m s = Some d'"
    "d_ID d = d_ID d'" by (auto simp: id_of_Some)
  then show ?thesis by (rule find_domain_id_inj[OF assms(1)])
qed

lemma id_of_frame:
  assumes "domains s' = domains s"
  shows "id_of s' = id_of s"
  by (rule ext) (simp add: id_of_def find_frame(1)[OF assms])

lemma view_id_of: "(view s n = None) = (id_of s n = None)"
  unfolding view_def id_of_def by simp

text \<open>Deleting one rule by its id.\<close>

lemma view_delete_rule:
  assumes wf: "wf_db s" and r: "r \<in> set (redirect_rules s)" and n: "id_of s n = Some (r_DomainID r)"
  shows "view (snd (sql_delete_rule (r_ID r) s)) =
    (view s)(n \<mapsto> (the (view s n))\<lparr>s_Rules := (s_Rules (the (view s n)))(r_Path r := None)\<rparr>)"
proof -
  from n obtain d where d: "find_domain n s = Some d" "d_ID d = r_DomainID r"
    by (auto simp: id_of_def)
  have same: "x = r" if "x \<in> set (redirect_rules s)" "r_ID x = r_ID r" for x
    using wf_rule_ids[OF wf] that r by (metis inj_onD distinct_map)
  have "view (snd (sql_delete_rule (r_ID r) s)) =
      (view s)(n \<mapsto> (site_of s d)\<lparr>s_Rules := (s_Rules (site_of s d))(r_Path r := None)\<rparr>)"
  proof (rule view_rules_at[OF wf d(1)])
    show "domains (snd (sql_delete_rule (r_ID r) s)) = domains s"
      by (simp add: sql_delete_rule_def)
    fix i' p'
    show "map_option rule_view_of (find_rule i' p' (snd (sql_delete_rule (r_ID r) s))) =
        (if i' = d_ID d then ((s_Rules (site_of s d))(r_Path r := None)) p'
         else map_option rule_view_of (find_rule i' p' s))"
    proof (cases "find_rule i' p' s")
      case None
      then show ?thesis by (auto simp: sql_delete_rule_def find_rule_filter[OF wf] site_of_def)
    next
      case (Some x)
      from find_rule_Some[OF Some] same[of x] have "r_ID x = r_ID r \<longleftrightarrow> x = r" by auto
      moreover have "x = r \<longleftrightarrow> i' = d_ID d \<and> p' = r_Path r"
      proof
        assume "x = r"
        with find_rule_Some[OF Some] d(2) show "i' = d_ID d \<and> p' = r_Path r" by simp
      next
        assume "i' = d_ID d \<and> p' = r_Path r"
        with Some find_rule_mem[OF wf r] d(2) show "x = r" by simp
      qed
      ultimately show ?thesis
        using Some by (auto simp: sql_delete_rule_def find_rule_filter[OF wf] site_of_def)
    qed
  qed
  with d show ?thesis by (simp add: view_def)
qed

text \<open>Updating one rule by its id, which may move it to another path of its domain.\<close>

definition rule_with_id :: "int \<Rightarrow> db \<Rightarrow> redirect_rule option" where
  "rule_with_id i s = List.find (\<lambda>r. r_ID r = i) (redirect_rules s)"

lemma rule_with_id_Some:
  "rule_with_id i s = Some r \<Longrightarrow> r \<in> set (redirect_rules s) \<and> r_ID r = i"
  unfolding rule_with_id_def by (rule find_Some_D)

lemma rule_id_unique:
  assumes "wf_db s" and "r \<in> set (redirect_rules s)" and "r' \<in> set (redirect_rules s)"
    and "r_ID r = r_ID r'"
  shows "r = r'"
  using wf_rule_ids[OF assms(1)] assms(2-) by (metis distinct_map inj_onD)

lemma find_rule_eq_iff:
  assumes "wf_db s" and "find_rule i p s = Some r" and "x \<in> set (redirect_rules s)"
  shows "r = x \<longleftrightarrow> i = r_DomainID x \<and> p = r_Path x"
proof
  assume "r = x"
  with find_rule_Some[OF assms(2)] show "i = r_DomainID x \<and> p = r_Path x" by simp
next
  assume "i = r_DomainID x \<and> p = r_Path x"
  with assms(2) find_rule_mem[OF assms(1,3)] show "r = x" by simp
qed

lemma owner_exists:
  assumes "wf_db s" and "r \<in> set (redirect_rules s)"
  shows "\<exists>n. id_of s n = Some (r_DomainID r)"
proof -
  from wf_fk[OF assms] obtain d where d: "d \<in> set (domains s)" "d_ID d = r_DomainID r" by auto
  from find_domain_mem[OF assms(1) d(1)] d(2) show ?thesis by (auto simp: id_of_def)
qed

lemma find_rule_update_rule:
  assumes wf: "wf_db s" and old: "rule_with_id i s = Some old"
    and free: "\<not> (\<exists>r \<in> set (redirect_rules s). r_ID r \<noteq> i \<and> r_DomainID r = r_DomainID old \<and> r_Path r = p)"
    and s': "redirect_rules s' = map (\<lambda>r. if r_ID r = i
      then r\<lparr>r_Path := p, r_TargetURL := url, r_StatusCode := sc, r_Priority := prio,
             r_Enabled := en, r_UpdatedAt := t\<rparr> else r) (redirect_rules s)"
  shows "map_option rule_view_of (find_rule i' p' s') =
    (if i' = r_DomainID old \<and> p' = p
     then Some \<lparr>v_TargetURL = url, v_StatusCode = sc, v_Priority = prio, v_Enabled = en\<rparr>
     else if i' = r_DomainID old \<and> p' = r_Path old then None
     else map_option rule_view_of (find_rule i' p' s))"
proof -
  let ?f = "\<lambda>r. if r_ID r = i then r\<lparr>r_Path := p, r_TargetURL := url, r_StatusCode := sc,
              r_Priority := prio, r_Enabled := en, r_UpdatedAt := t\<rparr> else r"
  let ?Q = "\<lambda>r. if r = old then i' = r_DomainID old \<and> p' = p else r_DomainID r = i' \<and> r_Path r = p'"
  note oldD = rule_with_id_Some[OF old]
  have is_old: "r_ID r = i \<longleftrightarrow> r = old" if "r \<in> set (redirect_rules s)" for r
    using rule_id_unique[OF wf that, of old] oldD by auto
  have "List.find (\<lambda>r. (r_DomainID r, r_Path r) = (i', p')) (map ?f (redirect_rules s)) =
      map_option ?f (List.find ?Q (redirect_rules s))"
    by (rule find_map_to) (use is_old in auto)
  then have fr: "find_rule i' p' s' = map_option ?f (List.find ?Q (redirect_rules s))"
    by (simp add: find_rule_def s')
  show ?thesis
  proof (cases "i' = r_DomainID old \<and> p' = p")
    case True
    have "List.find ?Q (redirect_rules s) = Some old"
    proof (cases "List.find ?Q (redirect_rules s)")
      case None
      with oldD True show ?thesis by (auto simp: find_None_iff)
    next
      case (Some r)
      from find_Some_D[OF Some] True free is_old have "r = old" by (auto split: if_splits)
      with Some show ?thesis by simp
    qed
    with True oldD fr show ?thesis by (simp add: rule_view_of_def)
  next
    case False
    then have "List.find ?Q (redirect_rules s) =
        List.find (\<lambda>r. r \<noteq> old \<and> (r_DomainID r, r_Path r) = (i', p')) (redirect_rules s)"
      by (intro find_cong_set) auto
    also have "\<dots> = find_rule i' p' (s\<lparr>redirect_rules := filter (\<lambda>r. r \<noteq> old) (redirect_rules s)\<rparr>)"
      by (simp add: find_rule_def find_filter)
    finally have eq: "List.find ?Q (redirect_rules s) =
        (case find_rule i' p' s of None \<Rightarrow> None | Some r \<Rightarrow> if r \<noteq> old then Some r else None)"
      by (simp only: find_rule_filter[OF wf])
    show ?thesis
    proof (cases "find_rule i' p' s")
      case None
      with False eq fr show ?thesis by auto
    next
      case (Some r)
      have "r = old \<longleftrightarrow> i' = r_DomainID old \<and> p' = r_Path old"
        using find_rule_eq_iff[OF wf Some, of old] oldD by simp
      with False eq fr Some find_rule_Some[OF Some] is_old[of r] show ?thesis by auto
    qed
  qed
qed

lemma view_update_rule:
  assumes wf: "wf_db s" and old: "rule_with_id i s = Some old"
    and n: "id_of s n = Some (r_DomainID old)"
    and free: "\<not> (\<exists>r \<in> set (redirect_rules s). r_ID r \<noteq> i \<and> r_DomainID r = r_DomainID old \<and> r_Path r = p)"
  shows "sql_update_rule env i p url sc prio en s = (Inr (), s') \<Longrightarrow>
    view s' = (view s)(n \<mapsto> (the (view s n))\<lparr>s_Rules :=
      (s_Rules (the (view s n)))(r_Path old := None, p \<mapsto>
        \<lparr>v_TargetURL = url, v_StatusCode = sc, v_Priority = prio, v_Enabled = en\<rparr>)\<rparr>)"
proof -
  let ?v = "\<lparr>v_TargetURL = url, v_StatusCode = sc, v_Priority = prio, v_Enabled = en\<rparr>"
  let ?f = "\<lambda>r. if r_ID r = i then r\<lparr>r_Path := p, r_TargetURL := url, r_StatusCode := sc,
              r_Priority := prio, r_Enabled := en, r_UpdatedAt := db_now s\<rparr> else r"
  assume "sql_update_rule env i p url sc prio en s = (Inr (), s')"
  then have s': "s' = s\<lparr>redirect_rules := map ?f (redirect_rules s)\<rparr>"
    by (simp only: sql_update_rule_def old[unfolded rule_with_id_def] option.case
        if_not_P[OF free] stored_bool_id) simp
  have moved: "map_option rule_view_of (find_rule i' p' s') =
      (if i' = r_DomainID old \<and> p' = p then Some ?v
       else if i' = r_DomainID old \<and> p' = r_Path old then None
       else map_option rule_view_of (find_rule i' p' s))" for i' p'
    by (rule find_rule_update_rule[OF wf old free, where t = "db_now s"]) (simp add: s')
  from n obtain d where d: "find_domain n s = Some d" "d_ID d = r_DomainID old"
    by (auto simp: id_of_def)
  have "view s' = (view s)(n \<mapsto> (site_of s d)\<lparr>s_Rules :=
      (s_Rules (site_of s d))(r_Path old := None, p \<mapsto> ?v)\<rparr>)"
    by (rule view_rules_at[OF wf d(1)])
      (simp_all only: moved d(2), simp_all add: s' site_of_def d(2))
  with d show ?thesis by (simp add: view_def)
qed

section \<open>Listing without faults\<close>

lemma ListRules_Nil:
  "faults s = [] \<Longrightarrow> ListRules env i s =
     (Inr (ord_prio env (filter (\<lambda>r. r_DomainID r = i) (redirect_rules s))), s)"
  by (simp add: ListRules_def)

lemma ListDomains_Nil:
  assumes "faults s = []" and "0 \<le> off"
  shows "ListDomains env search lim off s =
    (Inr (limit_offset (if lim \<le> 0 then 50 else lim) off (by_name env (search_domains env search s)),
          int (length (search_domains env search s))), s)"
  using assms by (simp add: ListDomains_def bindE_def Let_def)

lemma by_name_perm: "mset (by_name env ds) = mset ds"
  by (simp add: by_name_def)

lemma length_by_name [simp]: "length (by_name env ds) = length ds"
  by (simp add: by_name_def)

lemma set_by_name [simp]: "set (by_name env ds) = set ds"
  by (simp add: by_name_def)

lemma distinct_by_name [simp]: "distinct (map f (by_name env ds)) = distinct (map f ds)"
  by (metis by_name_perm mset_eq_imp_distinct_iff mset_map)

lemma find_by_name:
  "wf_db s \<Longrightarrow> List.find (\<lambda>d. d_Name d = n) (by_name env (domains s)) = find_domain n s"
  unfolding find_domain_def
  by (rule find_perm_unique) (simp_all add: by_name_perm wf_names)

lemma search_domains_all [simp]: "search_domains env [] s = domains s"
  by (simp add: search_domains_def)

lemma limit_all [simp]: "int (length xs) \<le> lim \<Longrightarrow> limit_offset lim 0 xs = xs"
  by (simp add: limit_offset_def)

end
