(* ===== verification/Chan.thy ===== *)
theory Chan
  imports Prelude
begin

text \<open>
  Buffered Go channels, as the program uses them: the redirect engine sends log entries
  with \<open>select { case ch <- e: default: }\<close> (never blocking, dropping when the buffer is
  full), the analytics writer and the beacon workers receive. The locale states the
  interface those clients rely on; \<open>chan\<close> is the language's buffered channel.
\<close>

record 'a chan =
  ch_buf :: "'a list"
  ch_cap :: nat

definition make_chan :: "nat \<Rightarrow> 'a chan" where
  "make_chan n = \<lparr>ch_buf = [], ch_cap = n\<rparr>"

definition try_send :: "'a \<Rightarrow> 'a chan \<Rightarrow> bool \<times> 'a chan" where
  "try_send x c =
     (if length (ch_buf c) < ch_cap c then (True, c\<lparr>ch_buf := ch_buf c @ [x]\<rparr>)
      else (False, c))"

definition try_recv :: "'a chan \<Rightarrow> ('a \<times> 'a chan) option" where
  "try_recv c = (case ch_buf c of [] \<Rightarrow> None | x # xs \<Rightarrow> Some (x, c\<lparr>ch_buf := xs\<rparr>))"

definition chan_ok :: "'a chan \<Rightarrow> bool" where
  "chan_ok c \<longleftrightarrow> length (ch_buf c) \<le> ch_cap c"

locale bounded_chan =
  fixes send :: "'a \<Rightarrow> 'c \<Rightarrow> bool \<times> 'c"
    and recv :: "'c \<Rightarrow> ('a \<times> 'c) option"
    and contents :: "'c \<Rightarrow> 'a list"
    and room :: "'c \<Rightarrow> nat"
    and ok :: "'c \<Rightarrow> bool"
  assumes send_accept: "ok c \<Longrightarrow> length (contents c) < room c \<Longrightarrow>
            fst (send x c) \<and> contents (snd (send x c)) = contents c @ [x]"
    and send_drop: "ok c \<Longrightarrow> room c \<le> length (contents c) \<Longrightarrow> send x c = (False, c)"
    and send_room: "ok c \<Longrightarrow> room (snd (send x c)) = room c"
    and send_ok: "ok c \<Longrightarrow> ok (snd (send x c))"
    and recv_None: "ok c \<Longrightarrow> recv c = None \<longleftrightarrow> contents c = []"
    and recv_Some: "ok c \<Longrightarrow> recv c = Some (x, c') \<Longrightarrow>
            contents c = x # contents c' \<and> ok c' \<and> room c' = room c"
    and ok_bound: "ok c \<Longrightarrow> length (contents c) \<le> room c"
begin

text \<open>Sending a list, one by one; the accepted entries are those not dropped.\<close>

fun send_all :: "'a list \<Rightarrow> 'c \<Rightarrow> 'a list \<times> 'c" where
  "send_all [] c = ([], c)"
| "send_all (x # xs) c =
     (let (b, c1) = send x c; (acc, c2) = send_all xs c1
      in (if b then x # acc else acc, c2))"

lemma send_contents:
  assumes "ok c"
  shows "contents (snd (send x c)) = contents c @ (if fst (send x c) then [x] else [])"
  using send_accept[OF assms, of x] send_drop[OF assms, of x]
  by (cases "length (contents c) < room c") (auto simp: not_less)

lemma send_flag: "ok c \<Longrightarrow> fst (send x c) \<longleftrightarrow> length (contents c) < room c"
  using send_accept[of c x] send_drop[of c x] by (cases "length (contents c) < room c") auto

lemma send_all_fifo:
  assumes "ok c" and "send_all xs c = (acc, c')"
  shows "contents c' = contents c @ acc \<and> ok c' \<and> room c' = room c \<and> subseq acc xs"
  using assms
proof (induction xs arbitrary: c acc c')
  case Nil
  then show ?case by simp
next
  case (Cons x xs)
  obtain b c1 where s: "send x c = (b, c1)" by fastforce
  obtain a2 c2 where r: "send_all xs c1 = (a2, c2)" by fastforce
  have c1: "contents c1 = contents c @ (if b then [x] else [])" "ok c1" "room c1 = room c"
    using send_contents[OF Cons.prems(1), of x] send_ok[OF Cons.prems(1), of x]
      send_room[OF Cons.prems(1), of x] s by auto
  from Cons.IH[OF c1(2) r] c1 Cons.prems(2) s r show ?case by auto
qed

text \<open>Nothing is dropped while the entries fit.\<close>

lemma send_all_fits:
  assumes "ok c" and "length (contents c) + length xs \<le> room c"
  shows "fst (send_all xs c) = xs"
  using assms
proof (induction xs arbitrary: c)
  case Nil
  then show ?case by simp
next
  case (Cons x xs)
  obtain b c1 where s: "send x c = (b, c1)" by fastforce
  from Cons.prems have lt: "length (contents c) < room c" by simp
  with send_accept[OF Cons.prems(1), of x] send_ok[OF Cons.prems(1), of x]
    send_room[OF Cons.prems(1), of x] s
  have "b" "contents c1 = contents c @ [x]" "ok c1" "room c1 = room c" by auto
  with Cons.IH[of c1] Cons.prems(2) s show ?case by (auto split: prod.splits)
qed

end

interpretation gochan: bounded_chan try_send try_recv ch_buf ch_cap chan_ok
  by unfold_locales
    (auto simp: try_send_def try_recv_def chan_ok_def split: list.splits if_splits)

lemma chan_ok_make [simp]: "chan_ok (make_chan n)"
  by (simp add: chan_ok_def make_chan_def)

lemma make_chan_sel [simp]: "ch_buf (make_chan n) = []" "ch_cap (make_chan n) = n"
  by (simp_all add: make_chan_def)

lemma chan_ok_try_send [simp]: "chan_ok c \<Longrightarrow> chan_ok (snd (try_send x c))"
  by (rule gochan.send_ok)

end
