(* ===== verification/Engine.thy ===== *)
theory Engine
  imports Store_View Chan
begin

text \<open>
  \<open>internal/redirect/engine.go\<close>: the in-memory domain map, its reload from the store, and
  the serving of one request. \<open>sort.Slice\<close> is not stable: it is the parameter \<open>srt\<close>,
  known only to sort by descending priority (\<open>desc_sorts rl_Priority srt\<close>).
\<close>

section \<open>Requests and replies\<close>

text \<open>\<open>rq_Header\<close> is \<open>Header.Get\<close>: the first value of a header, or the empty string.\<close>

record request =
  rq_Method :: string
  rq_Host :: string
  rq_Path :: string
  rq_RawQuery :: string
  rq_RemoteAddr :: string
  rq_RequestURI :: string
  rq_Header :: "string \<Rightarrow> string"

datatype reply = NotFound | RedirectTo string int | Panic

text \<open>
  \<open>http.Redirect(w, r, url, code)\<close>: \<open>WriteHeader\<close> panics on a code that has not three
  digits. For a code of the 100s other than 101 it only sends an informational header, and
  the final response, with the same headers, has status 200. The \<open>Location\<close> header is derived
  from \<open>url\<close>; the model keeps \<open>url\<close> itself.
\<close>

definition http_Redirect :: "string \<Rightarrow> int \<Rightarrow> reply" where
  "http_Redirect url code =
     (if code < 100 \<or> 999 < code then Panic
      else if code \<le> 199 \<and> code \<noteq> 101 then RedirectTo url 200
      else RedirectTo url code)"

section \<open>The engine\<close>

record rule =
  rl_Path :: string
  rl_TargetURL :: string
  rl_StatusCode :: int
  rl_Priority :: int

record domain_entry =
  de_DefaultURL :: string
  de_StatusCode :: int
  de_Rules :: "rule list"

record engine =
  e_domains :: "string \<rightharpoonup> domain_entry"
  e_logCh :: "request_log_entry chan"
  e_beaconCh :: "request_log_entry chan option"

definition stripPort :: "string \<Rightarrow> string" where
  "stripPort host = (case last_index_byte (CHR '':'') host of Some i \<Rightarrow> take i host | None \<Rightarrow> host)"

definition matchPath :: "string \<Rightarrow> string \<Rightarrow> bool" where
  "matchPath pattern path =
     (if pattern = path then True
      else if has_suffix pattern ''/'' then has_prefix path pattern
      else has_prefix path (pattern @ ''/'') \<or> path = pattern)"

definition clientIP :: "request \<Rightarrow> string" where
  "clientIP r =
     (let xff = rq_Header r ''X-Forwarded-For''; xri = rq_Header r ''X-Real-Ip'' in
      if xff \<noteq> [] then
        (case index_byte (CHR '','') xff of
           Some i \<Rightarrow> trim_space (take i xff)
         | None \<Rightarrow> trim_space xff)
      else if xri \<noteq> [] then xri
      else (case last_index_byte (CHR '':'') (rq_RemoteAddr r) of
              Some i \<Rightarrow> take i (rq_RemoteAddr r)
            | None \<Rightarrow> rq_RemoteAddr r))"

section \<open>Reload\<close>

definition load_rule :: "redirect_rule \<Rightarrow> rule" where
  "load_rule r = \<lparr>rl_Path = r_Path r, rl_TargetURL = r_TargetURL r,
                  rl_StatusCode = r_StatusCode r, rl_Priority = r_Priority r\<rparr>"

definition make_entry :: "(rule list \<Rightarrow> rule list) \<Rightarrow> domain \<Rightarrow> redirect_rule list \<Rightarrow> domain_entry" where
  "make_entry srt d rules =
     \<lparr>de_DefaultURL = d_DefaultURL d, de_StatusCode = d_StatusCode d,
      de_Rules = srt (map load_rule (filter r_Enabled rules))\<rparr>"

text \<open>The loop over the domains: disabled ones and those whose rules cannot be read are skipped.\<close>

fun load_all ::
  "sqlenv \<Rightarrow> (rule list \<Rightarrow> rule list) \<Rightarrow> domain list \<Rightarrow> (string \<rightharpoonup> domain_entry) \<Rightarrow> db \<Rightarrow>
   (string \<rightharpoonup> domain_entry) \<times> db" where
  "load_all env srt [] m s = (m, s)"
| "load_all env srt (d # ds) m s =
     (if \<not> d_Enabled d then load_all env srt ds m s
      else (case ListRules env (d_ID d) s of
              (Inl e, s') \<Rightarrow> load_all env srt ds m s'
            | (Inr rules, s') \<Rightarrow> load_all env srt ds (m(d_Name d \<mapsto> make_entry srt d rules)) s'))"

definition Reload ::
  "sqlenv \<Rightarrow> (rule list \<Rightarrow> rule list) \<Rightarrow> engine \<Rightarrow> db \<Rightarrow> (go_error option \<times> engine) \<times> db" where
  "Reload env srt e s =
     (case ListDomains env [] 100000 0 s of
        (Inl er, s') \<Rightarrow> ((Some er, e), s')
      | (Inr (ds, n), s') \<Rightarrow>
          (let (m, s'') = load_all env srt ds Map.empty s'
           in ((None, e\<lparr>e_domains := m\<rparr>), s'')))"

definition NewEngine ::
  "sqlenv \<Rightarrow> (rule list \<Rightarrow> rule list) \<Rightarrow> request_log_entry chan \<Rightarrow> db \<Rightarrow> engine \<times> db" where
  "NewEngine env srt logCh s =
     (case Reload env srt \<lparr>e_domains = Map.empty, e_logCh = logCh, e_beaconCh = None\<rparr> s of
        ((_, e), s') \<Rightarrow> (e, s'))"

definition SetBeaconCh :: "request_log_entry chan \<Rightarrow> engine \<Rightarrow> engine" where
  "SetBeaconCh ch e = e\<lparr>e_beaconCh := Some ch\<rparr>"

definition HasDomain :: "engine \<Rightarrow> string \<Rightarrow> bool" where
  "HasDomain e host = (e_domains e (stripPort host) \<noteq> None)"

section \<open>Serving\<close>

text \<open>The target and status of the first rule that matches, else the defaults.\<close>

definition choose_target :: "domain_entry \<Rightarrow> string \<Rightarrow> string \<times> int" where
  "choose_target entry path =
     (case List.find (\<lambda>rl. matchPath (rl_Path rl) path) (de_Rules entry) of
        Some rl \<Rightarrow> (rl_TargetURL rl, rl_StatusCode rl)
      | None \<Rightarrow> (de_DefaultURL entry, de_StatusCode entry))"

definition log_entry_of :: "request \<Rightarrow> string \<times> int \<Rightarrow> request_log_entry" where
  "log_entry_of r tc =
     \<lparr>l_Domain = stripPort (rq_Host r), l_Path = rq_Path r, l_Query = rq_RawQuery r,
      l_Status = snd tc, l_TargetURL = fst tc, l_ClientIP = clientIP r,
      l_UserAgent = rq_Header r ''User-Agent'', l_Referer = rq_Header r ''Referer''\<rparr>"

definition ServeHTTP :: "engine \<Rightarrow> request \<Rightarrow> reply \<times> engine" where
  "ServeHTTP e r =
     (let host = stripPort (rq_Host r) in
      case e_domains e host of
        None \<Rightarrow> (NotFound, e)
      | Some entry \<Rightarrow>
          (let tc = choose_target entry (rq_Path r);
               le = log_entry_of r tc;
               e1 = e\<lparr>e_logCh := snd (try_send le (e_logCh e))\<rparr>;
               e2 = (case e_beaconCh e1 of
                       None \<Rightarrow> e1
                     | Some ch \<Rightarrow> e1\<lparr>e_beaconCh := Some (snd (try_send le ch))\<rparr>)
           in (http_Redirect (fst tc) (snd tc), e2)))"

section \<open>Path matching\<close>

lemma matchPath_iff:
  "matchPath p s \<longleftrightarrow>
     (if suffix ''/'' p then prefix p s else s = p \<or> prefix (p @ ''/'') s)"
  by (auto simp: matchPath_def go_simps)

lemma matchPath_segments:
  "matchPath p s \<longleftrightarrow>
     (if suffix ''/'' p then strict_prefix (split_on (CHR ''/'') (butlast p)) (split_on (CHR ''/'') s)
      else prefix (split_on (CHR ''/'') p) (split_on (CHR ''/'') s))"
proof (cases "suffix ''/'' p")
  case True
  then obtain p' where p: "p = p' @ ''/''" by (auto simp: suffix_def)
  have "strict_prefix (split_on (CHR ''/'') p') (split_on (CHR ''/'') s) \<longleftrightarrow>
      prefix (p' @ ''/'') s"
    by (auto simp: strict_prefix_def prefix_split_iff)
  with True p show ?thesis by (simp add: matchPath_iff)
next
  case False
  then show ?thesis by (simp add: matchPath_iff prefix_split_iff)
qed

lemma matchPath_refl: "matchPath p p"
  by (simp add: matchPath_def)

section \<open>Host names\<close>

lemma stripPort_port: "CHR '':'' \<notin> set p \<Longrightarrow> stripPort (h @ '':'' @ p) = h"
  by (simp add: stripPort_def go_simps)

lemma stripPort_plain: "CHR '':'' \<notin> set h \<Longrightarrow> stripPort h = h"
  by (simp add: stripPort_def last_index_byte_None[THEN iffD2])

section \<open>What Reload loads\<close>

definition entry_for :: "sqlenv \<Rightarrow> (rule list \<Rightarrow> rule list) \<Rightarrow> db \<Rightarrow> domain \<Rightarrow> domain_entry" where
  "entry_for env srt s d =
     make_entry srt d (ord_prio env (filter (\<lambda>r. r_DomainID r = d_ID d) (redirect_rules s)))"

lemma load_all_Nil:
  assumes "faults s = []" and "distinct (map d_Name ds)"
  shows "load_all env srt ds m s =
    ((\<lambda>n. case List.find (\<lambda>d. d_Name d = n) ds of
            Some d \<Rightarrow> if d_Enabled d then Some (entry_for env srt s d) else m n
          | None \<Rightarrow> m n), s)"
  using assms(2)
proof (induction ds arbitrary: m)
  case Nil
  then show ?case by simp
next
  case (Cons d ds)
  have none: "List.find (\<lambda>x. d_Name x = d_Name d) ds = None"
    unfolding find_None_iff using Cons.prems by (auto simp: image_iff)
  show ?case
  proof (cases "d_Enabled d")
    case True
    with Cons none assms(1) show ?thesis
      by (auto simp: ListRules_Nil entry_for_def fun_eq_iff split: option.splits)
  next
    case False
    with Cons none show ?thesis by (auto simp: fun_eq_iff split: option.splits)
  qed
qed

lemma Reload_Nil:
  assumes "faults s = []" and "wf_db s" and "length (domains s) \<le> 100000"
  shows "Reload env srt e s =
    ((None, e\<lparr>e_domains := (\<lambda>n. case find_domain n s of
        Some d \<Rightarrow> if d_Enabled d then Some (entry_for env srt s d) else None
      | None \<Rightarrow> None)\<rparr>), s)"
proof -
  have "load_all env srt (by_name env (domains s)) Map.empty s =
      ((\<lambda>n. case find_domain n s of
        Some d \<Rightarrow> if d_Enabled d then Some (entry_for env srt s d) else None
      | None \<Rightarrow> None), s)"
    using load_all_Nil[OF assms(1), of "by_name env (domains s)"] wf_names[OF assms(2)]
    by (simp add: find_by_name[OF assms(2)])
  with assms show ?thesis by (simp add: Reload_def ListDomains_Nil)
qed

text \<open>A failed reload keeps the map that is being served.\<close>

lemma Reload_error: "Reload env srt e s = ((Some er, e'), s') \<Longrightarrow> e' = e"
  by (auto simp: Reload_def split: sum.splits prod.splits)

lemma keeps_load_all: "wf_db s \<Longrightarrow> wf_db (snd (load_all env srt ds m s))"
proof (induction ds arbitrary: m s)
  case Nil
  then show ?case by simp
next
  case (Cons d ds)
  have "wf_db (snd (ListRules env (d_ID d) s))"
    by (rule keepsD[OF keeps_ListRules Cons.prems])
  with Cons show ?case by (auto split: sum.splits prod.splits)
qed

section \<open>The specification of serving\<close>

text \<open>
  What a request may be answered with, given the contents of the store: not found for a
  domain that is absent or disabled; else the target of an enabled rule that matches the
  path and has the highest priority among those that do; else the default.
\<close>

definition best_rule :: "site \<Rightarrow> string \<Rightarrow> rule_view \<Rightarrow> bool" where
  "best_rule x path v \<longleftrightarrow>
     (\<exists>p. s_Rules x p = Some v \<and> v_Enabled v \<and> matchPath p path) \<and>
     (\<forall>p' v'. s_Rules x p' = Some v' \<and> v_Enabled v' \<and> matchPath p' path \<longrightarrow>
        v_Priority v' \<le> v_Priority v)"

definition serve_spec :: "(string \<rightharpoonup> site) \<Rightarrow> string \<Rightarrow> string \<Rightarrow> reply \<Rightarrow> bool" where
  "serve_spec vw host path rep \<longleftrightarrow>
     (case vw host of
        None \<Rightarrow> rep = NotFound
      | Some x \<Rightarrow>
          if \<not> s_Enabled x then rep = NotFound
          else if \<exists>p v. s_Rules x p = Some v \<and> v_Enabled v \<and> matchPath p path
          then \<exists>v. best_rule x path v \<and> rep = http_Redirect (v_TargetURL v) (v_StatusCode v)
          else rep = http_Redirect (s_DefaultURL x) (s_StatusCode x))"

lemma choose_target_cases:
  "choose_target entry path =
     (case List.find (\<lambda>rl. matchPath (rl_Path rl) path) (de_Rules entry) of
        Some rl \<Rightarrow> (rl_TargetURL rl, rl_StatusCode rl)
      | None \<Rightarrow> (de_DefaultURL entry, de_StatusCode entry))"
  by (simp add: choose_target_def)

lemma fst_ServeHTTP:
  "fst (ServeHTTP e r) =
    (case e_domains e (stripPort (rq_Host r)) of None \<Rightarrow> NotFound
     | Some entry \<Rightarrow> http_Redirect (fst (choose_target entry (rq_Path r)))
                       (snd (choose_target entry (rq_Path r))))"
  by (simp add: ServeHTTP_def Let_def split: option.split)

text \<open>The loaded rules of a domain are the enabled rules of its site.\<close>

lemma entry_for_rules:
  assumes "desc_sorts r_Priority (ord_prio env)" and "desc_sorts rl_Priority srt"
  shows "rl \<in> set (de_Rules (entry_for env srt s d)) \<longleftrightarrow>
    (\<exists>r \<in> set (redirect_rules s). r_DomainID r = d_ID d \<and> r_Enabled r \<and> rl = load_rule r)"
  by (auto simp: entry_for_def make_entry_def desc_sorts_set[OF assms(1)] desc_sorts_set[OF assms(2)])

lemma site_rule_iff:
  assumes "wf_db s"
  shows "s_Rules (site_of s d) p = Some v \<longleftrightarrow>
    (\<exists>r \<in> set (redirect_rules s). r_DomainID r = d_ID d \<and> r_Path r = p \<and> v = rule_view_of r)"
proof
  assume "s_Rules (site_of s d) p = Some v"
  then show "\<exists>r \<in> set (redirect_rules s). r_DomainID r = d_ID d \<and> r_Path r = p \<and> v = rule_view_of r"
    using find_rule_Some by (fastforce simp: site_of_def)
next
  assume "\<exists>r \<in> set (redirect_rules s). r_DomainID r = d_ID d \<and> r_Path r = p \<and> v = rule_view_of r"
  then obtain r where r: "r \<in> set (redirect_rules s)" "r_DomainID r = d_ID d" "r_Path r = p"
    "v = rule_view_of r" by blast
  with find_rule_mem[OF assms r(1)] have "find_rule (d_ID d) p s = Some r" by simp
  with r(4) show "s_Rules (site_of s d) p = Some v" by (simp add: site_of_def)
qed

text \<open>The enabled rules of a site that match a path are those of its entry in the table.\<close>

lemma entry_rules_of_site:
  assumes env: "desc_sorts r_Priority (ord_prio env)" and srt: "desc_sorts rl_Priority srt"
    and wf: "wf_db s"
  shows "(\<exists>p. s_Rules (site_of s d) p = Some v \<and> v_Enabled v \<and> matchPath p path) \<longleftrightarrow>
    (\<exists>rl \<in> set (de_Rules (entry_for env srt s d)). matchPath (rl_Path rl) path \<and>
       v = \<lparr>v_TargetURL = rl_TargetURL rl, v_StatusCode = rl_StatusCode rl,
            v_Priority = rl_Priority rl, v_Enabled = True\<rparr>)" (is "?L \<longleftrightarrow> ?R")
proof
  note rules = entry_for_rules[OF env srt] and site = site_rule_iff[OF wf]
  {
    assume "?L"
    then obtain r where "r \<in> set (redirect_rules s)" "r_DomainID r = d_ID d" "r_Enabled r"
      "matchPath (r_Path r) path" "v = rule_view_of r"
      by (auto simp: site rule_view_of_def)
    then show "?R"
      by (intro bexI[of _ "load_rule r"]) (auto simp: rules load_rule_def rule_view_of_def)
  next
    assume "?R"
    then obtain r where "r \<in> set (redirect_rules s)" "r_DomainID r = d_ID d" "r_Enabled r"
      "matchPath (r_Path r) path" "v = rule_view_of r"
      by (auto simp: rules load_rule_def rule_view_of_def)
    then show "?L"
      by (intro exI[of _ "r_Path r"]) (auto simp: site rule_view_of_def)
  }
qed

lemma serve_entry_spec:
  assumes env: "desc_sorts r_Priority (ord_prio env)" and srt: "desc_sorts rl_Priority srt"
    and wf: "wf_db s" and d: "find_domain n s = Some d" and en: "d_Enabled d"
  shows "serve_spec (view s) n path
    (http_Redirect (fst (choose_target (entry_for env srt s d) path))
                   (snd (choose_target (entry_for env srt s d) path)))"
proof -
  let ?e = "entry_for env srt s d" and ?x = "site_of s d"
  have x: "view s n = Some ?x" "s_Enabled ?x" using d en by (simp_all add: view_def site_of_def)
  note link = entry_rules_of_site[OF env srt wf, of d _ path]
  show ?thesis
  proof (cases "List.find (\<lambda>rl. matchPath (rl_Path rl) path) (de_Rules ?e)")
    case None
    then have "\<not> (\<exists>rl \<in> set (de_Rules ?e). matchPath (rl_Path rl) path)"
      by (auto dest: find_None_D)
    then have none: "\<not> (\<exists>p v. s_Rules ?x p = Some v \<and> v_Enabled v \<and> matchPath p path)"
      using link by blast
    have "choose_target ?e path = (s_DefaultURL ?x, s_StatusCode ?x)"
      using None by (simp add: choose_target_def) (simp add: entry_for_def make_entry_def site_of_def)
    then show ?thesis unfolding serve_spec_def x(1) option.case if_not_P[OF none]
      using x(2) by simp
  next
    case (Some rl)
    let ?v = "\<lparr>v_TargetURL = rl_TargetURL rl, v_StatusCode = rl_StatusCode rl,
              v_Priority = rl_Priority rl, v_Enabled = True\<rparr>"
    from find_Some_D[OF Some] have rl: "rl \<in> set (de_Rules ?e)" "matchPath (rl_Path rl) path"
      by auto
    have sorted: "sorted (map (\<lambda>x. Desc (rl_Priority x)) (de_Rules ?e))"
      using desc_sorts_sorted[OF srt] by (simp add: entry_for_def make_entry_def)
    have ex: "\<exists>p. s_Rules ?x p = Some ?v \<and> v_Enabled ?v \<and> matchPath p path"
      using link rl by blast
    have best: "best_rule ?x path ?v"
      unfolding best_rule_def
    proof (intro conjI allI impI)
      show "\<exists>p. s_Rules ?x p = Some ?v \<and> v_Enabled ?v \<and> matchPath p path" by (rule ex)
      fix p' v' assume "s_Rules ?x p' = Some v' \<and> v_Enabled v' \<and> matchPath p' path"
      then obtain rl' where "rl' \<in> set (de_Rules ?e)" "matchPath (rl_Path rl') path"
        "v_Priority v' = rl_Priority rl'" using link by (metis rule_view.select_convs(3))
      then show "v_Priority v' \<le> v_Priority ?v"
        using find_sorted_desc_max[OF sorted Some] by simp
    qed
    have ct: "choose_target ?e path = (v_TargetURL ?v, v_StatusCode ?v)"
      using Some by (simp add: choose_target_def)
    have ex': "\<exists>p v. s_Rules ?x p = Some v \<and> v_Enabled v \<and> matchPath p path"
      using ex by blast
    show ?thesis unfolding serve_spec_def x(1) option.case if_P[OF ex'] ct
      using x(2) best by (auto intro!: exI[of _ ?v])
  qed
qed

end
