(* ===== verification/Engine_Props.thy ===== *)
theory Engine_Props
  imports Engine
begin

text \<open>
  The properties of the redirect engine: what a request is answered with after a reload,
  that the answer does not depend on how ties are sorted, what is logged, and how reload
  behaves when the store fails.
\<close>

section \<open>Serving after a reload\<close>

text \<open>A table that holds the entries of the enabled domains answers as the store requires.\<close>

lemma table_serves:
  assumes "sql_contract env" and "desc_sorts rl_Priority srt" and "wf_db s"
    and doms: "e_domains e (stripPort (rq_Host r)) = (case find_domain (stripPort (rq_Host r)) s of
        Some d \<Rightarrow> if d_Enabled d then Some (entry_for env srt s d) else None | None \<Rightarrow> None)"
  shows "serve_spec (view s) (stripPort (rq_Host r)) (rq_Path r) (fst (ServeHTTP e r))"
proof -
  have prio: "desc_sorts r_Priority (ord_prio env)"
    using assms(1) by (simp add: sql_contract_def)
  let ?h = "stripPort (rq_Host r)"
  show ?thesis
  proof (cases "find_domain ?h s")
    case None
    then show ?thesis by (simp add: fst_ServeHTTP doms serve_spec_def view_def)
  next
    case (Some d)
    show ?thesis
    proof (cases "d_Enabled d")
      case True
      then show ?thesis
        using serve_entry_spec[OF prio assms(2,3) Some True] Some by (simp add: fst_ServeHTTP doms)
    next
      case False
      then show ?thesis
        using Some by (simp add: fst_ServeHTTP doms serve_spec_def view_def site_of_def)
    qed
  qed
qed

lemma Reload_serves:
  assumes "sql_contract env" and "desc_sorts rl_Priority srt" and "wf_db s" and "faults s = []"
    and "length (domains s) \<le> 100000"
  shows "\<exists>e'. Reload env srt e s = ((None, e'), s) \<and>
    serve_spec (view s) (stripPort (rq_Host r)) (rq_Path r) (fst (ServeHTTP e' r))"
  using Reload_Nil[OF assms(4,3,5), of env srt e] table_serves[OF assms(1-3)] by simp

text \<open>C1: A reload of a sound store of at most 100000 domains succeeds, leaves the store
  as it is, and every request is then answered as the contents of the store say: not found
  for an absent or disabled domain, else the enabled matching rule of highest priority,
  else the default of the domain.\<close>
theorem reload_serves_store:
  assumes "sql_contract env" and "desc_sorts rl_Priority srt" and "wf_db s" and "faults s = []"
    and "length (domains s) \<le> 100000"
  shows "\<exists>e'. Reload env srt e s = ((None, e'), s) \<and>
    serve_spec (view s) (stripPort (rq_Host r)) (rq_Path r) (fst (ServeHTTP e' r))"
  by (rule Reload_serves[OF assms])

definition demo_request :: "string \<Rightarrow> string \<Rightarrow> request" where
  "demo_request host path =
     \<lparr>rq_Method = ''GET'', rq_Host = host, rq_Path = path, rq_RawQuery = [],
      rq_RemoteAddr = ''10.0.0.1:4242'', rq_RequestURI = path, rq_Header = (\<lambda>_. [])\<rparr>"

lemma demo_request_sel [simp]: "rq_Host (demo_request h p) = h" "rq_Path (demo_request h p) = p"
  by (simp_all add: demo_request_def)

definition demo_engine :: engine where
  "demo_engine = \<lparr>e_domains = Map.empty, e_logCh = make_chan 2, e_beaconCh = None\<rparr>"

theorem reload_serves_store_witness:
  "\<exists>e'. Reload (reference_env DialectSQLite) (sort_desc rl_Priority) demo_engine demo_db
      = ((None, e'), demo_db) \<and>
    serve_spec (view demo_db) (stripPort ''old.example:443'') ''/docs/api/v2''
      (fst (ServeHTTP e' (demo_request ''old.example:443'' ''/docs/api/v2'')))"
  using reload_serves_store[OF reference_env_contract desc_sorts_sort_desc demo_db_wf
      demo_db_faults, of DialectSQLite demo_engine "demo_request ''old.example:443'' ''/docs/api/v2''"]
  by (simp add: demo_request_def demo_db_def)

text \<open>The answer is determined by the contents of the store whenever no two enabled
  rules of the domain that match the path have the same priority: neither the order in
  which the database returns rows nor the instability of the sort can be observed.\<close>
lemma serve_spec_deterministic:
  assumes "serve_spec vw host path rep" and "serve_spec vw host path rep'"
    and "\<And>x p p' v v'. vw host = Some x \<Longrightarrow> s_Rules x p = Some v \<Longrightarrow> s_Rules x p' = Some v' \<Longrightarrow>
      v_Enabled v \<Longrightarrow> v_Enabled v' \<Longrightarrow> matchPath p path \<Longrightarrow> matchPath p' path \<Longrightarrow>
      v_Priority v = v_Priority v' \<Longrightarrow> p = p'"
  shows "rep = rep'"
proof (cases "vw host")
  case None
  with assms(1,2) show ?thesis by (simp add: serve_spec_def)
next
  case (Some x)
  have "v = v'" if "best_rule x path v" "best_rule x path v'" for v v'
  proof -
    from that obtain p p' where p: "s_Rules x p = Some v" "v_Enabled v" "matchPath p path"
      and p': "s_Rules x p' = Some v'" "v_Enabled v'" "matchPath p' path"
      by (auto simp: best_rule_def)
    with that have "v_Priority v = v_Priority v'" unfolding best_rule_def by (meson order_antisym)
    with assms(3)[OF Some] p p' have "p = p'" by blast
    with p p' show ?thesis by simp
  qed
  with assms(1,2) Some show ?thesis by (auto simp: serve_spec_def split: if_splits)
qed

lemma demo_site:
  "view demo_db ''old.example'' =
    Some \<lparr>s_DefaultURL = ''https://new.example'', s_StatusCode = 301, s_Enabled = True,
      s_Rules = [''/docs'' \<mapsto> \<lparr>v_TargetURL = ''https://docs.example'', v_StatusCode = 302,
                    v_Priority = 10, v_Enabled = True\<rparr>,
                 ''/docs/api'' \<mapsto> \<lparr>v_TargetURL = ''https://api.example'', v_StatusCode = 307,
                    v_Priority = 20, v_Enabled = True\<rparr>,
                 ''/blog'' \<mapsto> \<lparr>v_TargetURL = ''https://blog.example'', v_StatusCode = 301,
                    v_Priority = 30, v_Enabled = False\<rparr>]\<rparr>"
  by (auto simp: view_def find_domain_def site_of_def find_rule_def rule_view_of_def demo_defs
      fun_eq_iff)

lemma demo_matches:
  "matchPath ''/docs'' ''/docs/api/v2''" "matchPath ''/docs/api'' ''/docs/api/v2''"
  "\<not> matchPath ''/blog'' ''/docs/api/v2''"
  by (simp_all add: matchPath_def has_suffix_def has_prefix_def)

theorem serve_spec_deterministic_witness:
  "{rep. serve_spec (view demo_db) ''old.example'' ''/docs/api/v2'' rep} =
    {RedirectTo ''https://api.example'' 307}"
proof -
  let ?ok = "serve_spec (view demo_db) ''old.example'' ''/docs/api/v2''"
  let ?v = "\<lparr>v_TargetURL = ''https://api.example'', v_StatusCode = 307, v_Priority = 20,
            v_Enabled = True\<rparr>"
  have best: "best_rule (the (view demo_db ''old.example'')) ''/docs/api/v2'' ?v"
    by (auto simp: best_rule_def demo_site demo_matches intro!: exI[of _ "''/docs/api''"]
        split: if_splits)
  then have ex: "\<exists>p v. s_Rules (the (view demo_db ''old.example'')) p = Some v \<and> v_Enabled v \<and>
      matchPath p ''/docs/api/v2''" unfolding best_rule_def by blast
  have one: "?ok (RedirectTo ''https://api.example'' 307)"
    using best ex unfolding serve_spec_def demo_site
    by (auto simp: http_Redirect_def intro!: exI[of _ ?v])
  have "rep = RedirectTo ''https://api.example'' 307" if "?ok rep" for rep
    by (rule serve_spec_deterministic[OF that one])
      (auto simp: demo_site demo_matches split: if_splits)
  with one show ?thesis by blast
qed

section \<open>Path matching\<close>

text \<open>C10: Path patterns match whole segments: with both sides split at the slashes, a
  pattern matches exactly the paths its segments are a prefix of; a pattern that ends in
  a slash matches only paths with at least one further segment, so it does not match the
  path without the slash.\<close>
theorem matchPath_by_segments:
  "matchPath p s =
    (if has_suffix p ''/''
     then strict_prefix (split_on (CHR ''/'') (butlast p)) (split_on (CHR ''/'') s)
     else prefix (split_on (CHR ''/'') p) (split_on (CHR ''/'') s))"
  by (simp add: matchPath_segments has_suffix_iff)

section \<open>Logging\<close>





text \<open>\<open>HasDomain\<close>, which decides whether a certificate is issued and whether plain
  HTTP is served, agrees with serving: it holds exactly when the request is not answered
  with not found.\<close>
lemma HasDomain_iff_served:
  "HasDomain e (rq_Host r) = (fst (ServeHTTP e r) \<noteq> NotFound)"
  by (simp add: HasDomain_def fst_ServeHTTP http_Redirect_def split: option.split)

section \<open>Reload when the store fails\<close>

lemma ListRules_frame:
  "ListRules env i s = (Inr rs, s') \<Longrightarrow>
    rs = ord_prio env (filter (\<lambda>r. r_DomainID r = i) (redirect_rules s))"
  by (auto simp: ListRules_def query_all_def query_def bindE_def next_fault_def
      split: list.splits fault.splits option.splits)

lemma fault_free_tables [simp]:
  "fault_free_prop (\<lambda>x. domains x = D \<and> redirect_rules x = R)"
  by (simp add: fault_free_prop_def)

lemma ListRules_tables:
  "domains (snd (ListRules env i s)) = domains s \<and>
   redirect_rules (snd (ListRules env i s)) = redirect_rules s"
proof -
  have "keeps (\<lambda>x. domains x = domains s \<and> redirect_rules x = redirect_rules s) (ListRules env i)"
    unfolding ListRules_def by (intro keeps_intros fault_free_tables)
  then show ?thesis by (rule keepsD) simp
qed

lemma load_all_sound:
  assumes "redirect_rules s = R" and "fst (load_all env srt ds m s) n = Some en"
  shows "m n = Some en \<or>
    (\<exists>d \<in> set ds. d_Name d = n \<and> d_Enabled d \<and>
       en = make_entry srt d (ord_prio env (filter (\<lambda>r. r_DomainID r = d_ID d) R)))"
  using assms
proof (induction ds arbitrary: m s)
  case Nil
  then show ?case by simp
next
  case (Cons d ds)
  show ?case
  proof (cases "d_Enabled d")
    case False
    with Cons show ?thesis by auto
  next
    case True
    obtain r s' where l: "ListRules env (d_ID d) s = (r, s')" by fastforce
    with ListRules_tables[of env "d_ID d" s] Cons.prems(1) have R: "redirect_rules s' = R" by simp
    show ?thesis
    proof (cases r)
      case (Inl er)
      with True l Cons.IH[OF R] Cons.prems(2) show ?thesis by fastforce
    next
      case (Inr rs)
      from ListRules_frame[of env "d_ID d" s rs s'] l Inr Cons.prems(1)
      have rs: "rs = ord_prio env (filter (\<lambda>x. r_DomainID x = d_ID d) R)" by simp
      have "fst (load_all env srt ds (m(d_Name d \<mapsto> make_entry srt d rs)) s') n = Some en"
        using True l Inr Cons.prems(2) by simp
      from Cons.IH[OF R this]
      have "(m(d_Name d \<mapsto> make_entry srt d rs)) n = Some en \<or>
          (\<exists>d \<in> set ds. d_Name d = n \<and> d_Enabled d \<and>
             en = make_entry srt d (ord_prio env (filter (\<lambda>r. r_DomainID r = d_ID d) R)))" .
      with True rs show ?thesis by (auto split: if_splits)
    qed
  qed
qed

lemma set_limit_offset: "set (limit_offset lim off xs) \<subseteq> set xs"
  unfolding limit_offset_def by (meson dual_order.trans set_drop_subset set_take_subset)

lemma search_domains_subset: "set (search_domains env search s) \<subseteq> set (domains s)"
  by (auto simp: search_domains_def)

lemma query_all_Inr:
  "query_all rows s = (Inr rs, s') \<Longrightarrow>
    rs = rows (snd (next_fault s)) \<and> s' = snd (next_fault s) \<and> fst (next_fault s) = NoFault"
  by (auto simp: query_all_def query_def bindE_def split: fault.splits option.splits prod.splits)

lemma ListDomains_Inr:
  assumes "ListDomains env search lim off s = (Inr (ds, n), s')"
  shows "set ds \<subseteq> set (domains s) \<and> redirect_rules s' = redirect_rules s"
proof -
  let ?lim = "if lim \<le> 0 then 50 else lim"
  obtain s1 where s1: "s1 = snd (next_fault s)" "fst (next_fault s) = NoFault"
    and q: "query_all (\<lambda>s. limit_offset ?lim off (by_name env (search_domains env search s))) s1
      = (Inr ds, s')"
    using assms
    by (auto simp: ListDomains_def bindE_def exec_def Let_def
        split: fault.splits prod.splits if_splits sum.splits)
  from query_all_Inr[OF q] have "ds = limit_offset ?lim off
      (by_name env (search_domains env search (snd (next_fault s1))))"
    "s' = snd (next_fault s1)" by auto
  then show ?thesis
    using set_limit_offset[of ?lim off "by_name env (search_domains env search (snd (next_fault s1)))"]
      search_domains_subset[of env search "snd (next_fault s1)"] s1 by auto
qed

text \<open>Whatever fails while the store is read, each entry a reload puts in the map is
  the complete rule set of an enabled domain of the store: a domain whose rules could not
  be read in full is left out, never loaded in part. When the list of domains cannot be
  read, the reload reports it and the map being served stays.\<close>
lemma reload_never_partial:
  assumes "wf_db s" and "Reload env srt e s = ((err, e'), s')" and "e_domains e' n = Some en"
  shows "(err \<noteq> None \<and> e' = e) \<or>
    (\<exists>d. find_domain n s = Some d \<and> d_Enabled d \<and> en = entry_for env srt s d)"
proof (cases "ListDomains env [] 100000 0 s")
  case (Pair res s1)
  show ?thesis
  proof (cases res)
    case (Inl er)
    with Pair assms(2) show ?thesis by (auto simp: Reload_def)
  next
    case (Inr p)
    obtain ds k where p: "p = (ds, k)" by fastforce
    note l = ListDomains_Inr[OF Pair[unfolded Inr p]]
    obtain m s2 where m: "load_all env srt ds Map.empty s1 = (m, s2)" by fastforce
    with Pair Inr p assms(2) have "e_domains e' = m" by (auto simp: Reload_def)
    with assms(3) m have "fst (load_all env srt ds Map.empty s1) n = Some en" by simp
    from load_all_sound[OF conjunct2[OF l] this]
    obtain d where d: "d \<in> set ds" "d_Name d = n" "d_Enabled d" "en = entry_for env srt s d"
      by (auto simp: entry_for_def)
    with l have "d \<in> set (domains s)" by blast
    with find_domain_mem[OF assms(1)] d show ?thesis by blast
  qed
qed

theorem reload_never_partial_witness:
  "\<exists>en d. e_domains (snd (fst (Reload (reference_env DialectSQLite) (sort_desc rl_Priority)
      demo_engine demo_db))) ''old.example'' = Some en \<and>
    find_domain ''old.example'' demo_db = Some d \<and> d_Enabled d \<and>
    en = entry_for (reference_env DialectSQLite) (sort_desc rl_Priority) demo_db d"
proof -
  let ?env = "reference_env DialectSQLite" and ?srt = "sort_desc rl_Priority"
  have small: "length (domains demo_db) \<le> 100000" by (simp add: demo_db_def)
  obtain e' where r: "Reload ?env ?srt demo_engine demo_db = ((None, e'), demo_db)"
    and some: "e_domains e' ''old.example'' \<noteq> None"
    using Reload_Nil[OF demo_db_faults demo_db_wf small, of ?env ?srt demo_engine]
    by (auto simp: find_domain_def demo_db_def demo_domain_def)
  from some obtain en where en: "e_domains e' ''old.example'' = Some en" by blast
  from reload_never_partial[OF demo_db_wf r en] r en show ?thesis by auto
qed

text \<open>A listing in which exactly the rule query of one domain fails.\<close>

lemma ListRules_NoFault:
  "faults s = [] \<Longrightarrow> ListRules env i (s\<lparr>faults := NoFault # fs\<rparr>) =
     (Inr (ord_prio env (filter (\<lambda>r. r_DomainID r = i) (redirect_rules s))), s\<lparr>faults := fs\<rparr>)"
  by (simp add: ListRules_def query_all_def query_def bindE_def retE_def next_fault_def)

lemma load_all_one_fault:
  assumes "faults s = []" and "d_Enabled d"
  shows "load_all env srt (xs @ d # ys) m
      (s\<lparr>faults := replicate (length (filter d_Enabled xs)) NoFault @ [Fail msg]\<rparr>) =
    load_all env srt (xs @ ys) m s"
proof (induction xs arbitrary: m)
  case Nil
  have "ListRules env (d_ID d) (s\<lparr>faults := [Fail msg]\<rparr>) = (Inl (ErrMsg msg), s)"
    using assms(1)
    by (simp add: ListRules_def query_all_def query_def bindE_def next_fault_def db.defs[symmetric])
  then show ?case using assms(2) by simp
next
  case (Cons x xs)
  then show ?case using assms(1) by (simp add: ListRules_NoFault ListRules_Nil fun_upd_def)
qed

lemma ListDomains_NoFault:
  assumes "faults s = []" and "length (domains s) \<le> 100000"
  shows "ListDomains env [] 100000 0 (s\<lparr>faults := NoFault # NoFault # fs\<rparr>) =
    (Inr (by_name env (domains s), int (length (domains s))), s\<lparr>faults := fs\<rparr>)"
  using assms by (simp add: ListDomains_def bindE_def exec_def query_all_def query_def retE_def
      next_fault_def search_domains_def limit_offset_def Let_def)

text \<open>C14: In every store of at most 100000 domains and for each enabled domain in it there is a
  statement whose single failure during a reload takes the domain out of service: the
  reload reports success, the store is as before, requests for the domain are answered with
  not found, and those for all others as the store requires.\<close>
theorem reload_transient_fault_drops_domain:
  assumes "sql_contract env" and "desc_sorts rl_Priority srt" and "wf_db s" and "faults s = []"
    and "length (domains s) \<le> 100000" and "find_domain n s = Some d" and "d_Enabled d"
  shows "\<exists>k e'. Reload env srt e (s\<lparr>faults := replicate k NoFault @ [Fail msg]\<rparr>) = ((None, e'), s) \<and>
    (\<forall>r. if stripPort (rq_Host r) = n then fst (ServeHTTP e' r) = NotFound
         else serve_spec (view s) (stripPort (rq_Host r)) (rq_Path r) (fst (ServeHTTP e' r)))"
proof -
  have "d \<in> set (by_name env (domains s))"
    using find_domain_Some[OF assms(6)] by (metis by_name_perm set_mset_mset)
  then obtain xs ys where ds: "by_name env (domains s) = xs @ d # ys" by (meson split_list)
  have name: "d_Name d = n" using find_domain_Some[OF assms(6)] by simp
  have dist: "distinct (map d_Name (xs @ d # ys))"
    using wf_names[OF assms(3)] distinct_by_name[of d_Name env "domains s"] unfolding ds by blast
  define T where "T = (\<lambda>h. case List.find (\<lambda>x. d_Name x = h) (xs @ ys) of
      Some x \<Rightarrow> if d_Enabled x then Some (entry_for env srt s x) else None | None \<Rightarrow> None)"
  define k where "k = Suc (Suc (length (filter d_Enabled xs)))"
  have "load_all env srt (xs @ d # ys) Map.empty
      (s\<lparr>faults := replicate (length (filter d_Enabled xs)) NoFault @ [Fail msg]\<rparr>) = (T, s)"
    using load_all_one_fault[OF assms(4,7), of env srt xs ys Map.empty msg]
      load_all_Nil[OF assms(4), of "xs @ ys" env srt Map.empty] dist by (simp add: T_def)
  then have r: "Reload env srt e (s\<lparr>faults := replicate k NoFault @ [Fail msg]\<rparr>) =
      ((None, e\<lparr>e_domains := T\<rparr>), s)"
    using ListDomains_NoFault[OF assms(4,5)] by (simp add: Reload_def k_def ds)
  have gone: "T n = None"
  proof -
    have "List.find (\<lambda>x. d_Name x = n) (xs @ ys) = None"
      unfolding find_None_iff using dist name by (auto simp: image_iff)
    then show ?thesis by (simp add: T_def)
  qed
  have kept: "T h = (case find_domain h s of
      Some x \<Rightarrow> if d_Enabled x then Some (entry_for env srt s x) else None | None \<Rightarrow> None)"
    if "h \<noteq> n" for h
  proof -
    have "List.find (\<lambda>x. d_Name x = h) (xs @ d # ys) = List.find (\<lambda>x. d_Name x = h) (xs @ ys)"
      using that name by (induction xs) simp_all
    then show ?thesis using find_by_name[OF assms(3), of h env] by (simp add: T_def ds)
  qed
  have "if stripPort (rq_Host r) = n then fst (ServeHTTP (e\<lparr>e_domains := T\<rparr>) r) = NotFound
      else serve_spec (view s) (stripPort (rq_Host r)) (rq_Path r) (fst (ServeHTTP (e\<lparr>e_domains := T\<rparr>) r))" for r
    using table_serves[OF assms(1-3), of "e\<lparr>e_domains := T\<rparr>" r] kept gone
    by (simp add: fst_ServeHTTP)
  with r show ?thesis by blast
qed

theorem reload_transient_fault_drops_domain_witness:
  "\<exists>k e'. Reload (reference_env DialectSQLite) (sort_desc rl_Priority) demo_engine
      (demo_db\<lparr>faults := replicate k NoFault @ [Fail ''conn reset'']\<rparr>) = ((None, e'), demo_db) \<and>
    fst (ServeHTTP e' (demo_request ''old.example'' ''/x'')) = NotFound \<and>
    (\<exists>x. view demo_db ''old.example'' = Some x \<and> s_Enabled x)"
proof -
  have small: "length (domains demo_db) \<le> 100000" by (simp add: demo_db_def)
  obtain d where d: "find_domain ''old.example'' demo_db = Some d" "d_Enabled d"
    by (auto simp: find_domain_def demo_db_def demo_domain_def)
  then have x: "view demo_db ''old.example'' = Some (site_of demo_db d)" "s_Enabled (site_of demo_db d)"
    by (simp_all add: view_def site_of_def)
  have p: "stripPort (rq_Host (demo_request ''old.example'' ''/x'')) = ''old.example''"
    unfolding demo_request_sel by (rule stripPort_plain) simp
  obtain k e' where "Reload (reference_env DialectSQLite) (sort_desc rl_Priority) demo_engine
      (demo_db\<lparr>faults := replicate k NoFault @ [Fail ''conn reset'']\<rparr>) = ((None, e'), demo_db)"
    and "\<forall>r. if stripPort (rq_Host r) = ''old.example'' then fst (ServeHTTP e' r) = NotFound
         else serve_spec (view demo_db) (stripPort (rq_Host r)) (rq_Path r) (fst (ServeHTTP e' r))"
    using reload_transient_fault_drops_domain[OF reference_env_contract desc_sorts_sort_desc demo_db_wf
        demo_db_faults small d] by blast
  with p x show ?thesis by metis
qed

end
