(* ===== verification/Store_Bulk.thy ===== *)
theory Store_Bulk
  imports Store_View
begin

text \<open>
  Bulk operations of \<open>internal/store/store.go\<close>: \<open>BulkImport\<close>, \<open>BulkImportReplace\<close> and
  \<open>ExportAll\<close>, and their effect on the contents of the store.
\<close>

section \<open>Import entries\<close>

record import_rule =
  ir_Path :: string
  ir_TargetURL :: string
  ir_StatusCode :: int
  ir_Priority :: int
  ir_Enabled :: "bool option"

record import_entry =
  ie_DomainName :: string
  ie_DefaultURL :: string
  ie_StatusCode :: int
  ie_Enabled :: "bool option"
  ie_Rules :: "import_rule list"

definition importEnabled :: "bool option \<Rightarrow> bool" where
  "importEnabled b = (case b of None \<Rightarrow> True | Some v \<Rightarrow> v)"

definition default_status :: "int \<Rightarrow> int" where
  "default_status sc = (if sc = 0 then 301 else sc)"

section \<open>Insert or ignore, insert or update\<close>

definition sql_insert_domain_ignore ::
  "sqlenv \<Rightarrow> string \<Rightarrow> string \<Rightarrow> int \<Rightarrow> db \<Rightarrow> int option res" where
  "sql_insert_domain_ignore env n url sc s =
     (case find_domain n s of
        Some _ \<Rightarrow> (Inr None, burn_dom_seq env s)
      | None \<Rightarrow> (Inr (Some (dom_seq s)), add_domain env n url sc True s))"

definition sql_insert_rule_ignore ::
  "sqlenv \<Rightarrow> int \<Rightarrow> string \<Rightarrow> string \<Rightarrow> int \<Rightarrow> int \<Rightarrow> db \<Rightarrow> unit res" where
  "sql_insert_rule_ignore env i p url sc prio s =
     (if find_rule i p s \<noteq> None then (Inr (), burn_rule_seq env s)
      else if i \<notin> d_ID ` set (domains s) then (Inl (ErrMsg (fk_msg env)), burn_rule_seq env s)
      else (Inr (), add_rule env i p url sc prio True s))"

definition select_domain_id :: "string \<Rightarrow> db \<Rightarrow> int res" where
  "select_domain_id n = query_row (\<lambda>s. map_option d_ID (find_domain n s))"

definition sql_upsert_domain ::
  "sqlenv \<Rightarrow> string \<Rightarrow> string \<Rightarrow> int \<Rightarrow> bool \<Rightarrow> db \<Rightarrow> int res" where
  "sql_upsert_domain env n url sc en s =
     (case find_domain n s of
        Some d \<Rightarrow> (Inr (d_ID d), burn_dom_seq env (snd (sql_update_domain env n url sc en s)))
      | None \<Rightarrow> (Inr (dom_seq s), add_domain env n url sc en s))"

definition sql_upsert_rule ::
  "sqlenv \<Rightarrow> int \<Rightarrow> string \<Rightarrow> string \<Rightarrow> int \<Rightarrow> int \<Rightarrow> bool \<Rightarrow> db \<Rightarrow> unit res" where
  "sql_upsert_rule env i p url sc prio en s =
     (if find_rule i p s \<noteq> None then
        (Inr (), burn_rule_seq env
          (s\<lparr>redirect_rules := map (\<lambda>r. if (r_DomainID r, r_Path r) = (i, p)
               then r\<lparr>r_TargetURL := url, r_StatusCode := sc, r_Priority := prio,
                      r_Enabled := stored_bool env en, r_UpdatedAt := db_now s\<rparr>
               else r) (redirect_rules s)\<rparr>))
      else if i \<notin> d_ID ` set (domains s) then (Inl (ErrMsg (fk_msg env)), burn_rule_seq env s)
      else (Inr (), add_rule env i p url sc prio en s))"

section \<open>BulkImport\<close>

definition bulk_import_rule :: "sqlenv \<Rightarrow> string \<Rightarrow> int \<Rightarrow> import_rule \<Rightarrow> db \<Rightarrow> unit res" where
  "bulk_import_rule env name i r =
     map_err (wrap_err (''insert rule '' @ name @ ir_Path r))
       (exec (sql_insert_rule_ignore env i (ir_Path r) (ir_TargetURL r)
                (default_status (ir_StatusCode r)) (ir_Priority r)))"

definition bulk_import_entry :: "sqlenv \<Rightarrow> import_entry \<Rightarrow> db \<Rightarrow> unit res" where
  "bulk_import_entry env e =
     bindE (map_err (wrap_err (''insert domain '' @ ie_DomainName e))
              (exec (sql_insert_domain_ignore env (ie_DomainName e) (ie_DefaultURL e)
                       (default_status (ie_StatusCode e)))))
       (\<lambda>new. bindE (case new of Some i \<Rightarrow> retE i | None \<Rightarrow> select_domain_id (ie_DomainName e))
         (\<lambda>i. for_each (bulk_import_rule env (ie_DomainName e) i) (ie_Rules e)))"

text \<open>The counter is incremented once per entry, so at the end it is their number.\<close>

definition BulkImport :: "sqlenv \<Rightarrow> import_entry list \<Rightarrow> db \<Rightarrow> int res" where
  "BulkImport env entries =
     transaction env
       (bindE (for_each (bulk_import_entry env) entries) (\<lambda>_. retE (int (length entries))))"

section \<open>BulkImportReplace\<close>

text \<open>The keys of \<open>importedRules\<close>: \<open>fmt.Sprintf("%d:%s", domainID, path)\<close>.\<close>

definition rule_key :: "int \<Rightarrow> string \<Rightarrow> string" where
  "rule_key i p = int_dec i @ '':'' @ p"

definition upsert_domain :: "sqlenv \<Rightarrow> import_entry \<Rightarrow> db \<Rightarrow> int res" where
  "upsert_domain env e =
     bindE (map_err (wrap_err (''upsert domain '' @ ie_DomainName e))
              (exec (sql_upsert_domain env (ie_DomainName e) (ie_DefaultURL e)
                       (default_status (ie_StatusCode e)) (importEnabled (ie_Enabled e)))))
       (\<lambda>i. if env_dialect env = DialectPostgres then retE i
            else select_domain_id (ie_DomainName e))"

fun upsert_rules ::
  "sqlenv \<Rightarrow> string \<Rightarrow> int \<Rightarrow> import_rule list \<Rightarrow> string set \<Rightarrow> db \<Rightarrow> string set res" where
  "upsert_rules env name i [] keys = retE keys"
| "upsert_rules env name i (r # rs) keys =
     (let keys' = insert (rule_key i (ir_Path r)) keys in
      bindE (map_err (wrap_err (''upsert rule '' @ name @ ir_Path r))
               (exec (sql_upsert_rule env i (ir_Path r) (ir_TargetURL r)
                        (default_status (ir_StatusCode r)) (ir_Priority r)
                        (importEnabled (ir_Enabled r)))))
        (\<lambda>_. upsert_rules env name i rs keys'))"

fun upsert_entries ::
  "sqlenv \<Rightarrow> import_entry list \<Rightarrow> string set \<Rightarrow> string set \<Rightarrow> db \<Rightarrow> (string set \<times> string set) res"
where
  "upsert_entries env [] names keys = retE (names, keys)"
| "upsert_entries env (e # es) names keys =
     bindE (upsert_domain env e)
       (\<lambda>i. bindE (upsert_rules env (ie_DomainName e) i (ie_Rules e) keys)
         (\<lambda>keys'. upsert_entries env es (insert (ie_DomainName e) names) keys'))"

text \<open>
  The orphan scan joins each rule with its domain. Neither loop looks at \<open>rows.Err()\<close>, so
  a query cut short is taken for a complete one.
\<close>

definition rule_rows :: "db \<Rightarrow> (int \<times> int \<times> string \<times> string) list" where
  "rule_rows s =
     concat (map (\<lambda>r. map (\<lambda>d. (r_ID r, r_DomainID r, r_Path r, d_Name d))
                        (filter (\<lambda>d. d_ID d = r_DomainID r) (domains s))) (redirect_rules s))"

definition orphan_rule_ids ::
  "string set \<Rightarrow> string set \<Rightarrow> (int \<times> int \<times> string \<times> string) list \<Rightarrow> int list" where
  "orphan_rule_ids names keys rows =
     map (\<lambda>(rid, did, p, dname). rid)
       (filter (\<lambda>(rid, did, p, dname). dname \<in> names \<and> rule_key did p \<notin> keys) rows)"

definition delete_orphan_rules :: "string set \<Rightarrow> string set \<Rightarrow> db \<Rightarrow> unit res" where
  "delete_orphan_rules names keys =
     bindE (map_err (wrap_err ''list rules for orphan cleanup'') (query rule_rows))
       (\<lambda>(rows, _). for_each (\<lambda>rid. map_err (wrap_err (''delete orphan rule '' @ int_dec rid))
                                     (exec (sql_delete_rule rid)))
                     (orphan_rule_ids names keys rows))"

definition delete_orphan_domains :: "string set \<Rightarrow> db \<Rightarrow> unit res" where
  "delete_orphan_domains names =
     bindE (map_err (wrap_err ''list domains for orphan cleanup'')
              (query (\<lambda>s. map d_Name (domains s))))
       (\<lambda>(rows, _). for_each (\<lambda>n. map_err (wrap_err (''delete orphan domain '' @ n))
                                     (exec (sql_delete_domain n)))
                     (filter (\<lambda>n. n \<notin> names) rows))"

definition BulkImportReplace :: "sqlenv \<Rightarrow> import_entry list \<Rightarrow> db \<Rightarrow> unit res" where
  "BulkImportReplace env entries =
     transaction env
       (bindE (upsert_entries env entries {} {}) (\<lambda>(names, keys).
          bindE (delete_orphan_rules names keys) (\<lambda>_. delete_orphan_domains names)))"

section \<open>ExportAll\<close>

definition export_entry :: "domain \<Rightarrow> redirect_rule list \<Rightarrow> import_entry" where
  "export_entry d rules =
     \<lparr>ie_DomainName = d_Name d, ie_DefaultURL = d_DefaultURL d, ie_StatusCode = d_StatusCode d,
      ie_Enabled = Some (d_Enabled d),
      ie_Rules = map (\<lambda>r. \<lparr>ir_Path = r_Path r, ir_TargetURL = r_TargetURL r,
                            ir_StatusCode = r_StatusCode r, ir_Priority = r_Priority r,
                            ir_Enabled = Some (r_Enabled r)\<rparr>) rules\<rparr>"

fun export_domains :: "sqlenv \<Rightarrow> domain list \<Rightarrow> db \<Rightarrow> import_entry list res" where
  "export_domains env [] = retE []"
| "export_domains env (d # ds) =
     bindE (ListRules env (d_ID d)) (\<lambda>rules.
       bindE (export_domains env ds) (\<lambda>es. retE (export_entry d rules # es)))"

definition ExportAll :: "sqlenv \<Rightarrow> db \<Rightarrow> import_entry list res" where
  "ExportAll env = bindE (ListDomains env [] 10000 0) (\<lambda>(ds, _). export_domains env ds)"

section \<open>Integrity\<close>

lemma keeps_insert_ignore [keeps_intros]:
  "keeps wf_db (sql_insert_domain_ignore env n url sc)"
  "keeps wf_db (sql_insert_rule_ignore env i p url sc prio)"
  by (rule keepsI, auto simp: sql_insert_domain_ignore_def sql_insert_rule_ignore_def
      wf_add_domain wf_add_rule split: option.splits)+

lemma keeps_upsert_domain_sql [keeps_intros]: "keeps wf_db (sql_upsert_domain env n url sc en)"
  using keepsD[OF keeps_update_domain]
  by (intro keepsI) (auto simp: sql_upsert_domain_def wf_add_domain split: option.splits)

lemma keeps_upsert_rule_sql [keeps_intros]: "keeps wf_db (sql_upsert_rule env i p url sc prio en)"
proof (rule keepsI)
  fix s assume wf: "wf_db s"
  let ?f = "\<lambda>r. if (r_DomainID r, r_Path r) = (i, p)
               then r\<lparr>r_TargetURL := url, r_StatusCode := sc, r_Priority := prio,
                      r_Enabled := stored_bool env en, r_UpdatedAt := db_now s\<rparr> else r"
  have f: "r_ID (?f r) = r_ID r" "r_DomainID (?f r) = r_DomainID r" "r_Path (?f r) = r_Path r" for r
    by auto
  have "wf_db (s\<lparr>redirect_rules := map ?f (redirect_rules s)\<rparr>)"
    by (rule wf_map_rules[OF wf f(1) f(2)]) (use wf_rule_keys[OF wf] in \<open>simp only: f\<close>)
  with wf show "wf_db (snd (sql_upsert_rule env i p url sc prio en s))"
    by (auto simp: sql_upsert_rule_def wf_add_rule)
qed

lemma keeps_select_domain_id [keeps_intros]: "keeps wf_db (select_domain_id n)"
  unfolding select_domain_id_def by (intro keeps_intros fault_free_wf)

lemma keeps_upsert_rules [keeps_intros]: "keeps wf_db (upsert_rules env name i rs keys)"
  by (induction rs arbitrary: keys) (auto intro!: keeps_intros simp: Let_def)

lemma keeps_upsert_entries [keeps_intros]: "keeps wf_db (upsert_entries env es names keys)"
  by (induction es arbitrary: names keys) (auto intro!: keeps_intros simp: upsert_domain_def)

lemma keeps_delete_orphans [keeps_intros]:
  "keeps wf_db (delete_orphan_rules names keys)" "keeps wf_db (delete_orphan_domains names)"
  unfolding delete_orphan_rules_def delete_orphan_domains_def
  by (auto intro!: keeps_intros)

lemma wf_rollback:
  assumes "wf_db s0" and "dom_seq s0 \<le> dom_seq s1" and "rule_seq s0 \<le> rule_seq s1"
  shows "wf_db (rollback env s0 s1)"
  using assms by (fastforce simp: wf_db_def rollback_def)

end
