(* ===== verification/Store_Bulk_Props.thy ===== *)
theory Store_Bulk_Props
  imports Store_Bulk
begin

text \<open>
  What the bulk operations do to the contents of the store: a replacing import makes them
  exactly the imported entries, a plain import only adds, an export reads them back.
\<close>

section \<open>Entries as contents\<close>

definition view_of_import :: "import_rule \<Rightarrow> rule_view" where
  "view_of_import r =
     \<lparr>v_TargetURL = ir_TargetURL r, v_StatusCode = default_status (ir_StatusCode r),
      v_Priority = ir_Priority r, v_Enabled = importEnabled (ir_Enabled r)\<rparr>"

definition put_rules :: "import_rule list \<Rightarrow> (string \<rightharpoonup> rule_view) \<Rightarrow> (string \<rightharpoonup> rule_view)" where
  "put_rules rs m = fold (\<lambda>r m. m(ir_Path r \<mapsto> view_of_import r)) rs m"

definition old_rules :: "(string \<rightharpoonup> site) \<Rightarrow> string \<Rightarrow> (string \<rightharpoonup> rule_view)" where
  "old_rules vw n = (case vw n of None \<Rightarrow> Map.empty | Some x \<Rightarrow> s_Rules x)"

definition put_entry :: "import_entry \<Rightarrow> (string \<rightharpoonup> site) \<Rightarrow> (string \<rightharpoonup> site)" where
  "put_entry e vw = vw(ie_DomainName e \<mapsto>
     \<lparr>s_DefaultURL = ie_DefaultURL e, s_StatusCode = default_status (ie_StatusCode e),
      s_Enabled = importEnabled (ie_Enabled e),
      s_Rules = put_rules (ie_Rules e) (old_rules vw (ie_DomainName e))\<rparr>)"

text \<open>The contents a list of entries denotes: later entries win, rules accumulate.\<close>

definition contents_of :: "import_entry list \<Rightarrow> (string \<rightharpoonup> site)" where
  "contents_of es = fold put_entry es Map.empty"

lemma put_rules_simps [simp]:
  "put_rules [] m = m"
  "put_rules (r # rs) m = put_rules rs (m(ir_Path r \<mapsto> view_of_import r))"
  by (simp_all add: put_rules_def)

lemma put_rules_split: "put_rules rs m = m ++ put_rules rs Map.empty"
proof (induction rs arbitrary: m)
  case Nil
  then show ?case by simp
next
  case (Cons r rs)
  let ?u = "[ir_Path r \<mapsto> view_of_import r]"
  have "put_rules (r # rs) m = m(ir_Path r \<mapsto> view_of_import r) ++ put_rules rs Map.empty"
    unfolding put_rules_simps by (rule Cons.IH)
  also have "\<dots> = (m ++ ?u) ++ put_rules rs Map.empty"
    by (simp only: map_add_upd map_add_empty)
  also have "\<dots> = m ++ put_rules rs ?u"
    by (simp only: Cons.IH[of ?u] map_add_assoc)
  finally show ?case by simp
qed

lemma dom_put_rules: "dom (put_rules rs m) = ir_Path ` set rs \<union> dom m"
  by (induction rs arbitrary: m) auto

section \<open>The upsert phase\<close>

lemma burn_frame [simp]:
  "domains (burn_dom_seq env s) = domains s" "domains (burn_rule_seq env s) = domains s"
  "redirect_rules (burn_dom_seq env s) = redirect_rules s"
  "redirect_rules (burn_rule_seq env s) = redirect_rules s"
  "faults (burn_dom_seq env s) = faults s" "faults (burn_rule_seq env s) = faults s"
  by (simp_all add: burn_dom_seq_def burn_rule_seq_def)

lemma good_burn [simp]:
  "good s \<Longrightarrow> good (burn_dom_seq env s)" "good s \<Longrightarrow> good (burn_rule_seq env s)"
  by (simp_all add: good_def)

lemma sql_upsert_domain_effect:
  assumes "good s"
  shows "\<exists>i s'. sql_upsert_domain env n url sc en s = (Inr i, s') \<and> good s' \<and>
    view s' = (view s)(n \<mapsto> \<lparr>s_DefaultURL = url, s_StatusCode = sc, s_Enabled = en,
      s_Rules = old_rules (view s) n\<rparr>) \<and>
    id_of s' = (id_of s)(n \<mapsto> i) \<and> id_of s \<subseteq>\<^sub>m id_of s'"
proof (cases "find_domain n s")
  case None
  let ?s = "add_domain env n url sc en s"
  note wf = goodD(1)[OF assms]
  have "id_of ?s m = ((id_of s)(n \<mapsto> dom_seq s)) m" for m
    using None by (auto simp: id_of_def find_domain_def add_domain_def find_append split: option.split)
  then have ids: "id_of ?s = (id_of s)(n \<mapsto> dom_seq s)" by (rule ext)
  have "good ?s" using wf_add_domain[OF wf None] goodD(2)[OF assms]
    by (simp add: good_def) (simp add: add_domain_def)
  moreover have "id_of s \<subseteq>\<^sub>m (id_of s)(n \<mapsto> dom_seq s)"
    using None by (auto simp: map_le_def id_of_def)
  ultimately show ?thesis using None ids
    by (simp add: sql_upsert_domain_def view_add_domain[OF wf None] old_rules_def view_def)
next
  case (Some d)
  let ?s = "snd (sql_update_domain env n url sc en s)"
  have f: "faults ?s = []" using goodD(2)[OF assms] by (simp add: sql_update_domain_def)
  have "good ?s" by (rule goodI[OF keepsD[OF keeps_update_domain goodD(1)[OF assms]] f])
  moreover have "view ?s = (view s)(n \<mapsto> \<lparr>s_DefaultURL = url, s_StatusCode = sc, s_Enabled = en,
      s_Rules = old_rules (view s) n\<rparr>)"
    unfolding view_update_domain using Some by (simp add: view_def old_rules_def site_of_def)
  moreover have "id_of ?s = (id_of s)(n \<mapsto> d_ID d)"
  proof (rule ext)
    fix m
    have "find_domain m ?s = map_option (\<lambda>d. if d_Name d = n
        then d\<lparr>d_DefaultURL := url, d_StatusCode := sc, d_Enabled := stored_bool env en,
               d_UpdatedAt := db_now s\<rparr> else d) (find_domain m s)"
      unfolding find_domain_def sql_update_domain_def by (simp add: find_map_cond)
    then show "id_of ?s m = ((id_of s)(n \<mapsto> d_ID d)) m"
      using Some by (cases "find_domain m s") (auto simp: id_of_def)
  qed
  moreover have "id_of s \<subseteq>\<^sub>m (id_of s)(n \<mapsto> d_ID d)"
    using Some by (auto simp: map_le_def id_of_def)
  ultimately show ?thesis
    using Some by (simp add: sql_upsert_domain_def id_of_frame[of "burn_dom_seq env ?s" ?s])
qed

lemma sql_upsert_rule_effect:
  assumes "good s" and "id_of s n = Some i"
  shows "\<exists>s'. sql_upsert_rule env i p url sc prio en s = (Inr (), s') \<and> good s' \<and>
    id_of s' = id_of s \<and>
    view s' = (view s)(n \<mapsto> (the (view s n))\<lparr>s_Rules := (s_Rules (the (view s n)))(p \<mapsto>
      \<lparr>v_TargetURL = url, v_StatusCode = sc, v_Priority = prio, v_Enabled = en\<rparr>)\<rparr>)"
proof -
  note wf = goodD(1)[OF assms(1)]
  from assms(2) obtain d where d: "find_domain n s = Some d" "d_ID d = i"
    by (auto simp: id_of_Some)
  have the: "the (view s n) = site_of s d" using d by (simp add: view_def)
  have mem: "i \<in> d_ID ` set (domains s)" using find_domain_Some[OF d(1)] d(2) by auto
  let ?s = "snd (sql_upsert_rule env i p url sc prio en s)"
  have ok: "fst (sql_upsert_rule env i p url sc prio en s) = Inr ()"
    using mem by (simp add: sql_upsert_rule_def)
  have doms: "domains ?s = domains s"
    by (simp add: sql_upsert_rule_def add_rule_def)
  have "faults ?s = []" using goodD(2)[OF assms(1)] by (simp add: sql_upsert_rule_def add_rule_def)
  then have good: "good ?s" by (rule goodI[OF keepsD[OF keeps_upsert_rule_sql wf]])
  have rules: "map_option rule_view_of (find_rule i' p' ?s) =
      (if i' = d_ID d then ((s_Rules (site_of s d))(p \<mapsto>
         \<lparr>v_TargetURL = url, v_StatusCode = sc, v_Priority = prio, v_Enabled = en\<rparr>)) p'
       else map_option rule_view_of (find_rule i' p' s))" for i' p'
  proof (cases "find_rule i p s")
    case None
    then have "?s = add_rule env i p url sc prio en s" using mem by (simp add: sql_upsert_rule_def)
    with find_rule_add_rule[OF None] d(2) show ?thesis by (simp add: site_of_def)
  next
    case (Some r)
    have "find_rule i' p' ?s = map_option (\<lambda>r. if (r_DomainID r, r_Path r) = (i, p)
          then r\<lparr>r_TargetURL := url, r_StatusCode := sc, r_Priority := prio,
                 r_Enabled := stored_bool env en, r_UpdatedAt := db_now s\<rparr> else r)
        (find_rule i' p' s)"
      using Some unfolding find_rule_def sql_upsert_rule_def by (simp add: find_map_cond)
    then show ?thesis
      using Some d(2) find_rule_Some[of i' p' s]
      by (cases "find_rule i' p' s") (auto simp: site_of_def rule_view_of_def)
  qed
  show ?thesis
    using ok good id_of_frame[OF doms] view_rules_at[OF wf d(1) doms rules] the
    by (metis prod.collapse)
qed

lemma select_domain_id_Nil:
  "faults s = [] \<Longrightarrow> id_of s n = Some i \<Longrightarrow> select_domain_id n s = (Inr i, s)"
  by (auto simp: select_domain_id_def id_of_def)

lemma upsert_domain_effect:
  assumes "good s"
  shows "\<exists>i s'. upsert_domain env e s = (Inr i, s') \<and> good s' \<and>
    view s' = (view s)(ie_DomainName e \<mapsto> \<lparr>s_DefaultURL = ie_DefaultURL e,
      s_StatusCode = default_status (ie_StatusCode e), s_Enabled = importEnabled (ie_Enabled e),
      s_Rules = old_rules (view s) (ie_DomainName e)\<rparr>) \<and>
    id_of s' = (id_of s)(ie_DomainName e \<mapsto> i) \<and> id_of s \<subseteq>\<^sub>m id_of s'"
proof -
  obtain i s' where u: "sql_upsert_domain env (ie_DomainName e) (ie_DefaultURL e)
      (default_status (ie_StatusCode e)) (importEnabled (ie_Enabled e)) s = (Inr i, s')"
    and eff: "good s'" "view s' = (view s)(ie_DomainName e \<mapsto> \<lparr>s_DefaultURL = ie_DefaultURL e,
      s_StatusCode = default_status (ie_StatusCode e), s_Enabled = importEnabled (ie_Enabled e),
      s_Rules = old_rules (view s) (ie_DomainName e)\<rparr>)"
      "id_of s' = (id_of s)(ie_DomainName e \<mapsto> i)" "id_of s \<subseteq>\<^sub>m id_of s'"
    using sql_upsert_domain_effect[OF assms] by meson
  have "select_domain_id (ie_DomainName e) s' = (Inr i, s')"
    by (rule select_domain_id_Nil[OF goodD(2)[OF eff(1)]]) (simp add: eff(3))
  with u goodD(2)[OF assms] have "upsert_domain env e s = (Inr i, s')"
    by (simp add: upsert_domain_def bindE_def map_err_def)
  with eff show ?thesis by blast
qed

lemma upsert_rules_effect:
  assumes "good s" and "id_of s n = Some i"
  shows "\<exists>s'. upsert_rules env n i rs keys s =
      (Inr (keys \<union> rule_key i ` ir_Path ` set rs), s') \<and> good s' \<and> id_of s' = id_of s \<and>
    view s' = (view s)(n \<mapsto> (the (view s n))\<lparr>s_Rules := put_rules rs (s_Rules (the (view s n)))\<rparr>)"
  using assms
proof (induction rs arbitrary: s keys)
  case Nil
  then have "view s n \<noteq> None" by (simp add: view_id_of)
  with Nil show ?case by auto
next
  case (Cons r rs)
  obtain s1 where u: "sql_upsert_rule env i (ir_Path r) (ir_TargetURL r)
      (default_status (ir_StatusCode r)) (ir_Priority r) (importEnabled (ir_Enabled r)) s = (Inr (), s1)"
    and eff: "good s1" "id_of s1 = id_of s"
      "view s1 = (view s)(n \<mapsto> (the (view s n))\<lparr>s_Rules := (s_Rules (the (view s n)))
        (ir_Path r \<mapsto> view_of_import r)\<rparr>)"
    using sql_upsert_rule_effect[OF Cons.prems] unfolding view_of_import_def by meson
  from Cons.prems(2) eff(2) have "id_of s1 n = Some i" by simp
  from Cons.IH[OF eff(1) this, of "insert (rule_key i (ir_Path r)) keys"]
  obtain s2 where s2: "upsert_rules env n i rs (insert (rule_key i (ir_Path r)) keys) s1 =
      (Inr (insert (rule_key i (ir_Path r)) keys \<union> rule_key i ` ir_Path ` set rs), s2)"
    and eff2: "good s2" "id_of s2 = id_of s1"
      "view s2 = (view s1)(n \<mapsto> (the (view s1 n))\<lparr>s_Rules := put_rules rs (s_Rules (the (view s1 n)))\<rparr>)"
    by blast
  have "upsert_rules env n i (r # rs) keys s =
      (Inr (insert (rule_key i (ir_Path r)) keys \<union> rule_key i ` ir_Path ` set rs), s2)"
    using u s2 goodD(2)[OF Cons.prems(1)] by (simp add: bindE_def map_err_def Let_def)
  moreover have "view s2 = (view s)(n \<mapsto> (the (view s n))\<lparr>s_Rules :=
      put_rules (r # rs) (s_Rules (the (view s n)))\<rparr>)"
    unfolding eff2(3) eff(3) by simp
  ultimately show ?case using eff2 eff(2) by auto
qed

definition entry_keys :: "db \<Rightarrow> import_entry list \<Rightarrow> string set" where
  "entry_keys s es =
     (\<Union>e \<in> set es. rule_key (the (id_of s (ie_DomainName e))) ` ir_Path ` set (ie_Rules e))"

lemma upsert_entries_effect:
  assumes "good s"
  shows "\<exists>s'. upsert_entries env es names keys s =
      (Inr (names \<union> ie_DomainName ` set es, keys \<union> entry_keys s' es), s') \<and> good s' \<and>
    view s' = fold put_entry es (view s) \<and> id_of s \<subseteq>\<^sub>m id_of s' \<and>
    ie_DomainName ` set es \<subseteq> dom (id_of s')"
  using assms
proof (induction es arbitrary: s names keys)
  case Nil
  then show ?case by (simp add: entry_keys_def)
next
  case (Cons e es)
  let ?n = "ie_DomainName e"
  obtain i s1 where d: "upsert_domain env e s = (Inr i, s1)" and g1: "good s1"
    and v1: "view s1 = (view s)(?n \<mapsto> \<lparr>s_DefaultURL = ie_DefaultURL e,
      s_StatusCode = default_status (ie_StatusCode e), s_Enabled = importEnabled (ie_Enabled e),
      s_Rules = old_rules (view s) ?n\<rparr>)"
    and i1: "id_of s1 = (id_of s)(?n \<mapsto> i)" "id_of s \<subseteq>\<^sub>m id_of s1"
    using upsert_domain_effect[OF Cons.prems] by meson
  have "id_of s1 ?n = Some i" by (simp add: i1(1))
  from upsert_rules_effect[OF g1 this, of env "ie_Rules e" keys]
  obtain s2 where r: "upsert_rules env ?n i (ie_Rules e) keys s1 =
      (Inr (keys \<union> rule_key i ` ir_Path ` set (ie_Rules e)), s2)" and g2: "good s2"
    and i2: "id_of s2 = id_of s1"
    and v2: "view s2 = (view s1)(?n \<mapsto> (the (view s1 ?n))\<lparr>s_Rules :=
        put_rules (ie_Rules e) (s_Rules (the (view s1 ?n)))\<rparr>)" by blast
  from Cons.IH[OF g2, of "insert ?n names" "keys \<union> rule_key i ` ir_Path ` set (ie_Rules e)"]
  obtain s3 where t: "upsert_entries env es (insert ?n names)
      (keys \<union> rule_key i ` ir_Path ` set (ie_Rules e)) s2 =
      (Inr (insert ?n names \<union> ie_DomainName ` set es,
        keys \<union> rule_key i ` ir_Path ` set (ie_Rules e) \<union> entry_keys s3 es), s3)"
    and g3: "good s3" and v3: "view s3 = fold put_entry es (view s2)"
    and i3: "id_of s2 \<subseteq>\<^sub>m id_of s3" "ie_DomainName ` set es \<subseteq> dom (id_of s3)" by blast
  have id3: "id_of s3 ?n = Some i"
    using i3(1) i2 i1(1) by (metis map_le_def domI fun_upd_same)
  have "upsert_entries env (e # es) names keys s =
      (Inr (names \<union> ie_DomainName ` set (e # es), keys \<union> entry_keys s3 (e # es)), s3)"
    using d r t by (simp add: bindE_def entry_keys_def id3 Un_ac)
  moreover have "view s3 = fold put_entry (e # es) (view s)"
    unfolding v3 v2 v1 by (simp add: put_entry_def)
  moreover have "id_of s \<subseteq>\<^sub>m id_of s3" using i1(2) i2 i3(1) by (metis map_le_trans)
  ultimately show ?case using g3 id3 i3(2) by auto
qed

section \<open>The contents a list of entries adds\<close>

lemma old_rules_put_entry:
  "old_rules (put_entry e vw) n =
    (if n = ie_DomainName e then put_rules (ie_Rules e) (old_rules vw n) else old_rules vw n)"
  by (simp add: old_rules_def put_entry_def)

lemma contents_snoc: "contents_of (es @ [e]) = put_entry e (contents_of es)"
  by (simp add: contents_of_def)

lemma contents_None: "contents_of es n = None \<longleftrightarrow> n \<notin> ie_DomainName ` set es"
  by (induction es rule: rev_induct) (auto simp: contents_snoc put_entry_def contents_of_def)

lemma put_entry_apply:
  "put_entry e vw n =
    (if n = ie_DomainName e
     then Some \<lparr>s_DefaultURL = ie_DefaultURL e, s_StatusCode = default_status (ie_StatusCode e),
       s_Enabled = importEnabled (ie_Enabled e),
       s_Rules = put_rules (ie_Rules e) (old_rules vw n)\<rparr>
     else vw n)"
  by (simp add: put_entry_def)

lemma put_rules_add: "put_rules rs (a ++ b) = a ++ put_rules rs b"
  by (simp only: put_rules_split[of rs "a ++ b"] put_rules_split[of rs b] map_add_assoc)

lemma old_rules_fold:
  "old_rules (fold put_entry es vw) n = old_rules vw n ++ old_rules (contents_of es) n"
proof (induction es rule: rev_induct)
  case Nil
  then show ?case by (simp add: contents_of_def old_rules_def)
next
  case (snoc e es)
  show ?case
  proof (cases "n = ie_DomainName e")
    case True
    have "old_rules (fold put_entry (es @ [e]) vw) n =
        put_rules (ie_Rules e) (old_rules (fold put_entry es vw) n)"
      using True by (simp add: old_rules_put_entry)
    also have "\<dots> = old_rules vw n ++ put_rules (ie_Rules e) (old_rules (contents_of es) n)"
      unfolding snoc by (rule put_rules_add)
    finally show ?thesis using True by (simp add: contents_snoc old_rules_put_entry)
  next
    case False
    with snoc show ?thesis by (simp add: contents_snoc old_rules_put_entry)
  qed
qed

lemma fold_put_entry:
  "fold put_entry es vw n =
    (case contents_of es n of None \<Rightarrow> vw n
     | Some x \<Rightarrow> Some (x\<lparr>s_Rules := old_rules vw n ++ s_Rules x\<rparr>))"
proof (induction es rule: rev_induct)
  case Nil
  then show ?case by (simp add: contents_of_def)
next
  case (snoc e es)
  have step: "fold put_entry (es @ [e]) vw = put_entry e (fold put_entry es vw)" by simp
  show ?case
  proof (cases "n = ie_DomainName e")
    case False
    with snoc show ?thesis unfolding step contents_snoc put_entry_apply[of e] by simp
  next
    case True
    then show ?thesis
      unfolding step contents_snoc put_entry_apply[of e] by (simp add: old_rules_fold put_rules_add)
  qed
qed

lemma dom_old_rules_contents:
  "dom (old_rules (contents_of es) n) =
    (\<Union>e \<in> {e \<in> set es. ie_DomainName e = n}. ir_Path ` set (ie_Rules e))"
proof (induction es rule: rev_induct)
  case Nil
  then show ?case by (simp add: contents_of_def old_rules_def)
next
  case (snoc e es)
  have "{x \<in> set (es @ [e]). ie_DomainName x = n} =
      (if ie_DomainName e = n then insert e {x \<in> set es. ie_DomainName x = n}
       else {x \<in> set es. ie_DomainName x = n})" by auto
  with snoc show ?case by (simp add: contents_snoc old_rules_put_entry dom_put_rules)
qed

text \<open>The string keys of \<open>importedRules\<close> identify the pair of domain id and path.\<close>

lemma prefix_sep_unique:
  "c \<notin> set u \<Longrightarrow> c \<notin> set v \<Longrightarrow> u @ c # x = v @ c # y \<Longrightarrow> u = v \<and> x = y"
proof (induction u arbitrary: v)
  case Nil
  then show ?case by (cases v) auto
next
  case (Cons a u)
  then show ?case by (cases v) auto
qed

lemma rule_key_inject [simp]: "rule_key i p = rule_key j p' \<longleftrightarrow> i = j \<and> p = p'"
  using prefix_sep_unique[OF int_dec_no_colon int_dec_no_colon, of i p j p']
  by (auto simp: rule_key_def)

lemma entry_keys_iff:
  assumes "wf_db s" and "ie_DomainName ` set es \<subseteq> dom (id_of s)" and "id_of s n = Some i"
  shows "rule_key i p \<in> entry_keys s es \<longleftrightarrow> p \<in> dom (old_rules (contents_of es) n)"
proof -
  have nm: "ie_DomainName e = n" if "e \<in> set es" "the (id_of s (ie_DomainName e)) = i" for e
  proof -
    from assms(2) that(1) obtain j where "id_of s (ie_DomainName e) = Some j" by blast
    with that(2) show ?thesis using id_of_inj[OF assms(1) _ assms(3)] by simp
  qed
  have same: "the (id_of s (ie_DomainName e)) = i \<longleftrightarrow> ie_DomainName e = n" if "e \<in> set es" for e
    using nm[OF that] assms(3) by auto
  have "rule_key i p \<in> entry_keys s es \<longleftrightarrow>
      (\<exists>e \<in> set es. the (id_of s (ie_DomainName e)) = i \<and> p \<in> ir_Path ` set (ie_Rules e))"
    by (auto simp: entry_keys_def)
  also have "\<dots> \<longleftrightarrow> (\<exists>e \<in> set es. ie_DomainName e = n \<and> p \<in> ir_Path ` set (ie_Rules e))"
    using same by blast
  finally show ?thesis unfolding dom_old_rules_contents by blast
qed

section \<open>The orphan clean-up\<close>

lemma delete_rules_loop:
  assumes "faults s = []"
  shows "for_each (\<lambda>rid. map_err (g rid) (exec (sql_delete_rule rid))) ids s =
    (Inr (), s\<lparr>redirect_rules := filter (\<lambda>r. r_ID r \<notin> set ids) (redirect_rules s)\<rparr>)"
  using assms
proof (induction ids arbitrary: s)
  case Nil
  then show ?case by simp
next
  case (Cons i ids)
  have "filter (\<lambda>r. r_ID r \<noteq> i \<and> r_ID r \<notin> set ids) rs = filter (\<lambda>r. r_ID r \<notin> set (i # ids)) rs" for rs
    by (rule filter_cong) auto
  with Cons show ?case by (simp add: bindE_def map_err_def sql_delete_rule_def conj_commute)
qed

definition orphan :: "db \<Rightarrow> string set \<Rightarrow> string set \<Rightarrow> redirect_rule \<Rightarrow> bool" where
  "orphan s names keys r \<longleftrightarrow>
     (\<exists>d \<in> set (domains s). d_ID d = r_DomainID r \<and> d_Name d \<in> names) \<and>
     rule_key (r_DomainID r) (r_Path r) \<notin> keys"

lemma orphan_ids_iff:
  assumes "wf_db s" and "r \<in> set (redirect_rules s)"
  shows "r_ID r \<in> set (orphan_rule_ids names keys (rule_rows s)) \<longleftrightarrow> orphan s names keys r"
proof -
  have same: "x = r" if "x \<in> set (redirect_rules s)" "r_ID x = r_ID r" for x
    using wf_rule_ids[OF assms(1)] that assms(2) by (metis inj_onD distinct_map)
  have rows: "(a, b, c, n) \<in> set (rule_rows s) \<longleftrightarrow>
      (\<exists>x \<in> set (redirect_rules s). \<exists>d \<in> set (domains s). d_ID d = r_DomainID x \<and>
         a = r_ID x \<and> b = r_DomainID x \<and> c = r_Path x \<and> n = d_Name d)" for a b c n
    by (auto simp: rule_rows_def)
  have ids: "i \<in> set (orphan_rule_ids names keys rows) \<longleftrightarrow>
      (\<exists>b c n. (i, b, c, n) \<in> set rows \<and> n \<in> names \<and> rule_key b c \<notin> keys)" for i rows
    by (auto simp: orphan_rule_ids_def image_iff)
  have "r_ID r \<in> set (orphan_rule_ids names keys (rule_rows s)) \<longleftrightarrow>
      (\<exists>x \<in> set (redirect_rules s). r_ID x = r_ID r \<and> orphan s names keys x)"
    unfolding ids rows orphan_def by (auto; metis)
  then show ?thesis using same assms(2) by blast
qed

lemma delete_orphan_rules_effect:
  assumes "good s"
  shows "\<exists>s'. delete_orphan_rules names keys s = (Inr (), s') \<and> good s' \<and>
    domains s' = domains s \<and>
    redirect_rules s' = filter (\<lambda>r. \<not> orphan s names keys r) (redirect_rules s)"
proof -
  let ?ids = "orphan_rule_ids names keys (rule_rows s)"
  let ?s = "s\<lparr>redirect_rules := filter (\<lambda>r. r_ID r \<notin> set ?ids) (redirect_rules s)\<rparr>"
  have "delete_orphan_rules names keys s = (Inr (), ?s)"
    using goodD(2)[OF assms]
    by (simp add: delete_orphan_rules_def bindE_def map_err_def[of _ "query _"] delete_rules_loop)
  moreover have "good ?s"
    using wf_filter_rules[OF goodD(1)[OF assms]] goodD(2)[OF assms] by (simp add: good_def)
  moreover have "redirect_rules ?s = filter (\<lambda>r. \<not> orphan s names keys r) (redirect_rules s)"
    using orphan_ids_iff[OF goodD(1)[OF assms]] by (auto intro: filter_cong)
  ultimately show ?thesis by auto
qed

lemma view_orphan_rules:
  assumes wf: "wf_db s" and doms: "domains s' = domains s"
    and rules: "redirect_rules s' = filter (\<lambda>r. \<not> orphan s names keys r) (redirect_rules s)"
  shows "view s' n =
    (if n \<in> names
     then map_option (\<lambda>x. x\<lparr>s_Rules := (\<lambda>p. if rule_key (the (id_of s n)) p \<in> keys
                                    then s_Rules x p else None)\<rparr>) (view s n)
     else view s n)"
proof (cases "find_domain n s")
  case None
  then show ?thesis by (simp add: view_def find_frame(1)[OF doms])
next
  case (Some d)
  have "find_rule i p s' = find_rule i p (s\<lparr>redirect_rules := redirect_rules s'\<rparr>)" for i p
    by (simp add: find_rule_def)
  then have fr: "find_rule i p s' = (case find_rule i p s of None \<Rightarrow> None
      | Some r \<Rightarrow> if \<not> orphan s names keys r then Some r else None)" for i p
    by (simp add: rules find_rule_filter[OF wf])
  have "orphan s names keys r \<longleftrightarrow> n \<in> names \<and> rule_key (d_ID d) p \<notin> keys"
    if "find_rule (d_ID d) p s = Some r" for p r
    using find_rule_Some[OF that] find_domain_Some[OF Some] distinct_id_eq[OF wf]
    by (auto simp: orphan_def)
  then have "map_option rule_view_of (find_rule (d_ID d) p s') =
      (if n \<in> names \<and> rule_key (d_ID d) p \<notin> keys then None
       else map_option rule_view_of (find_rule (d_ID d) p s))" for p
    by (auto simp: fr split: option.split)
  then show ?thesis
    using Some by (auto simp: view_def find_frame(1)[OF doms] site_of_def id_of_def fun_eq_iff)
qed

lemma delete_domains_loop:
  assumes "good s"
  shows "\<exists>s'. for_each (\<lambda>n. map_err (g n) (exec (sql_delete_domain n))) ns s = (Inr (), s') \<and>
    good s' \<and> view s' = (\<lambda>n. if n \<in> set ns then None else view s n)"
  using assms
proof (induction ns arbitrary: s)
  case Nil
  then show ?case by simp
next
  case (Cons n ns)
  let ?s = "snd (sql_delete_domain n s)"
  have "good ?s"
    using keepsD[OF keeps_delete_domain goodD(1)[OF Cons.prems]] goodD(2)[OF Cons.prems]
    by (intro goodI) (simp_all add: sql_delete_domain_def)
  from Cons.IH[OF this] obtain s' where
    "for_each (\<lambda>n. map_err (g n) (exec (sql_delete_domain n))) ns ?s = (Inr (), s')" "good s'"
    "view s' = (\<lambda>n. if n \<in> set ns then None else view ?s n)" by blast
  moreover have step: "map_err (g n) (exec (sql_delete_domain n)) s = (Inr (), ?s)"
    using goodD(2)[OF Cons.prems] by (simp add: map_err_def sql_delete_domain_def)
  ultimately have "for_each (\<lambda>n. map_err (g n) (exec (sql_delete_domain n))) (n # ns) s = (Inr (), s')"
    "good s'" "view s' = (\<lambda>m. if m \<in> set (n # ns) then None else view s m)"
    using view_delete_domain[OF goodD(1)[OF Cons.prems], of n]
    by (simp_all add: bindE_Inr[of "map_err (g n) (exec (sql_delete_domain n))", OF step] fun_eq_iff)
  then show ?case by blast
qed

lemma delete_orphan_domains_effect:
  assumes "good s"
  shows "\<exists>s'. delete_orphan_domains names s = (Inr (), s') \<and> good s' \<and>
    view s' = (\<lambda>n. if n \<in> names then view s n else None)"
proof -
  let ?ns = "filter (\<lambda>n. n \<notin> names) (map d_Name (domains s))"
  obtain s' where l: "for_each (\<lambda>n. map_err (wrap_err (''delete orphan domain '' @ n))
        (exec (sql_delete_domain n))) ?ns s = (Inr (), s')" "good s'"
    "view s' = (\<lambda>n. if n \<in> set ?ns then None else view s n)"
    using delete_domains_loop[OF assms, of "\<lambda>n. wrap_err (''delete orphan domain '' @ n)" ?ns] by blast
  have "view s n = None" if "n \<notin> d_Name ` set (domains s)" for n
    using that dom_view[of s] by blast
  with l(3) have "view s' = (\<lambda>n. if n \<in> names then view s n else None)"
    by (auto simp: fun_eq_iff)
  with l goodD(2)[OF assms] show ?thesis
    by (simp add: delete_orphan_domains_def bindE_def map_err_def[of _ "query _"])
qed

section \<open>The replacing import\<close>

lemma replace_cleanup_view:
  assumes wf: "wf_db s1" and v: "view s1 = fold put_entry es vw"
    and ids: "ie_DomainName ` set es \<subseteq> dom (id_of s1)"
    and doms: "domains s2 = domains s1"
    and rules: "redirect_rules s2 =
      filter (\<lambda>r. \<not> orphan s1 (ie_DomainName ` set es) (entry_keys s1 es) r) (redirect_rules s1)"
  shows "(\<lambda>n. if n \<in> ie_DomainName ` set es then view s2 n else None) = contents_of es"
proof (rule ext)
  fix n
  show "(if n \<in> ie_DomainName ` set es then view s2 n else None) = contents_of es n"
  proof (cases "n \<in> ie_DomainName ` set es")
    case False
    then show ?thesis using contents_None[of es n] by auto
  next
    case True
    with contents_None[of es n] obtain x where x: "contents_of es n = Some x" by auto
    from True ids obtain i where i: "id_of s1 n = Some i" by blast
    have keys: "rule_key i p \<in> entry_keys s1 es \<longleftrightarrow> p \<in> dom (s_Rules x)" for p
      using entry_keys_iff[OF wf ids i] x by (simp add: old_rules_def)
    have "view s1 n = Some (x\<lparr>s_Rules := old_rules vw n ++ s_Rules x\<rparr>)"
      unfolding v fold_put_entry x by simp
    moreover have "(\<lambda>p. if p \<in> dom (s_Rules x) then (old_rules vw n ++ s_Rules x) p else None)
        = s_Rules x"
      by (auto simp: fun_eq_iff map_add_def split: option.split)
    ultimately show ?thesis
      using True x by (simp add: view_orphan_rules[OF wf doms rules] i keys cong: if_cong)
  qed
qed

lemma BulkImportReplace_good:
  assumes "good s"
  shows "\<exists>s'. BulkImportReplace env es s = (Inr (), s') \<and> good s' \<and> view s' = contents_of es"
proof -
  let ?names = "ie_DomainName ` set es"
  obtain s1 where u: "upsert_entries env es {} {} s = (Inr (?names, entry_keys s1 es), s1)"
    and g1: "good s1" and v1: "view s1 = fold put_entry es (view s)"
    and i1: "?names \<subseteq> dom (id_of s1)"
    using upsert_entries_effect[OF assms, of env es "{}" "{}"] by auto
  obtain s2 where d: "delete_orphan_rules ?names (entry_keys s1 es) s1 = (Inr (), s2)"
    and g2: "good s2" and doms: "domains s2 = domains s1"
    and rules: "redirect_rules s2 =
      filter (\<lambda>r. \<not> orphan s1 ?names (entry_keys s1 es) r) (redirect_rules s1)"
    using delete_orphan_rules_effect[OF g1] by meson
  obtain s3 where e: "delete_orphan_domains ?names s2 = (Inr (), s3)" and g3: "good s3"
    and v3: "view s3 = (\<lambda>n. if n \<in> ?names then view s2 n else None)"
    using delete_orphan_domains_effect[OF g2] by meson
  have "BulkImportReplace env es s = (Inr (), s3)"
    unfolding BulkImportReplace_def
    by (rule transaction_Nil[OF goodD(2)[OF assms] _ goodD(2)[OF g3]]) (simp add: bindE_def u d e)
  with g3 v3 replace_cleanup_view[OF goodD(1)[OF g1] v1 i1 doms rules] show ?thesis by auto
qed

section \<open>The plain import\<close>

definition add_rules_new :: "import_rule list \<Rightarrow> (string \<rightharpoonup> rule_view) \<Rightarrow> (string \<rightharpoonup> rule_view)" where
  "add_rules_new rs m =
     fold (\<lambda>r m. if m (ir_Path r) = None
                then m(ir_Path r \<mapsto> (view_of_import r)\<lparr>v_Enabled := True\<rparr>) else m) rs m"

definition add_entry :: "import_entry \<Rightarrow> (string \<rightharpoonup> site) \<Rightarrow> (string \<rightharpoonup> site)" where
  "add_entry e vw = vw(ie_DomainName e \<mapsto>
     (case vw (ie_DomainName e) of
        Some x \<Rightarrow> x\<lparr>s_Rules := add_rules_new (ie_Rules e) (s_Rules x)\<rparr>
      | None \<Rightarrow> \<lparr>s_DefaultURL = ie_DefaultURL e, s_StatusCode = default_status (ie_StatusCode e),
                 s_Enabled = True, s_Rules = add_rules_new (ie_Rules e) Map.empty\<rparr>))"

lemma sql_insert_rule_ignore_effect:
  assumes "good s" and "id_of s n = Some i"
  shows "\<exists>s'. sql_insert_rule_ignore env i p url sc prio s = (Inr (), s') \<and> good s' \<and>
    id_of s' = id_of s \<and>
    view s' = (view s)(n \<mapsto> (the (view s n))\<lparr>s_Rules :=
      (if s_Rules (the (view s n)) p = None
       then (s_Rules (the (view s n)))(p \<mapsto>
         \<lparr>v_TargetURL = url, v_StatusCode = sc, v_Priority = prio, v_Enabled = True\<rparr>)
       else s_Rules (the (view s n)))\<rparr>)"
proof -
  note wf = goodD(1)[OF assms(1)]
  from assms(2) obtain d where d: "find_domain n s = Some d" "d_ID d = i"
    by (auto simp: id_of_Some)
  have the: "the (view s n) = site_of s d" "view s n = Some (site_of s d)"
    using d by (simp_all add: view_def)
  have mem: "i \<in> d_ID ` set (domains s)" using find_domain_Some[OF d(1)] d(2) by auto
  have rules: "s_Rules (site_of s d) p = None \<longleftrightarrow> find_rule i p s = None"
    using d(2) by (simp add: site_of_def)
  show ?thesis
  proof (cases "find_rule i p s")
    case None
    let ?s = "add_rule env i p url sc prio True s"
    have "good ?s" using wf_add_rule[OF wf None mem] goodD(2)[OF assms(1)]
      by (intro goodI) (simp_all add: add_rule_def)
    moreover have "id_of ?s = id_of s" by (rule id_of_frame) (simp add: add_rule_def)
    ultimately show ?thesis
      using None mem view_add_rule[OF wf d(1), of p env url sc prio True] d(2)
      by (simp add: sql_insert_rule_ignore_def the rules)
  next
    case (Some r)
    with assms(1) the rules show ?thesis
      by (auto simp: sql_insert_rule_ignore_def intro!: id_of_frame)
  qed
qed

lemma import_rules_effect:
  assumes "good s" and "id_of s n = Some i"
  shows "\<exists>s'. for_each (bulk_import_rule env n i) rs s = (Inr (), s') \<and> good s' \<and>
    id_of s' = id_of s \<and>
    view s' = (view s)(n \<mapsto> (the (view s n))\<lparr>s_Rules := add_rules_new rs (s_Rules (the (view s n)))\<rparr>)"
  using assms
proof (induction rs arbitrary: s)
  case Nil
  then have "view s n \<noteq> None" by (simp add: view_id_of)
  with Nil show ?case by (auto simp: add_rules_new_def)
next
  case (Cons r rs)
  obtain s1 where u: "sql_insert_rule_ignore env i (ir_Path r) (ir_TargetURL r)
      (default_status (ir_StatusCode r)) (ir_Priority r) s = (Inr (), s1)"
    and eff: "good s1" "id_of s1 = id_of s"
      "view s1 = (view s)(n \<mapsto> (the (view s n))\<lparr>s_Rules :=
        (if s_Rules (the (view s n)) (ir_Path r) = None
         then (s_Rules (the (view s n)))(ir_Path r \<mapsto> (view_of_import r)\<lparr>v_Enabled := True\<rparr>)
         else s_Rules (the (view s n)))\<rparr>)"
    using sql_insert_rule_ignore_effect[OF Cons.prems, of env "ir_Path r" "ir_TargetURL r"
        "default_status (ir_StatusCode r)" "ir_Priority r"]
    by (auto simp: view_of_import_def)
  from Cons.prems(2) eff(2) have "id_of s1 n = Some i" by simp
  from Cons.IH[OF eff(1) this]
  obtain s2 where s2: "for_each (bulk_import_rule env n i) rs s1 = (Inr (), s2)"
    and eff2: "good s2" "id_of s2 = id_of s1"
      "view s2 = (view s1)(n \<mapsto> (the (view s1 n))\<lparr>s_Rules := add_rules_new rs (s_Rules (the (view s1 n)))\<rparr>)"
    by blast
  have "for_each (bulk_import_rule env n i) (r # rs) s = (Inr (), s2)"
    using u s2 goodD(2)[OF Cons.prems(1)] by (simp add: bindE_def map_err_def bulk_import_rule_def)
  moreover have "view s2 = (view s)(n \<mapsto> (the (view s n))\<lparr>s_Rules :=
      add_rules_new (r # rs) (s_Rules (the (view s n)))\<rparr>)"
    unfolding eff2(3) eff(3) by (simp add: add_rules_new_def)
  ultimately show ?case using eff2 eff(2) by auto
qed

lemma bulk_import_entry_effect:
  assumes "good s"
  shows "\<exists>s'. bulk_import_entry env e s = (Inr (), s') \<and> good s' \<and> view s' = add_entry e (view s)"
proof -
  let ?n = "ie_DomainName e"
  note f = goodD(2)[OF assms] and wf = goodD(1)[OF assms]
  show ?thesis
  proof (cases "find_domain ?n s")
    case None
    let ?s = "add_domain env ?n (ie_DefaultURL e) (default_status (ie_StatusCode e)) True s"
    have g: "good ?s" using wf_add_domain[OF wf None] f by (intro goodI) (simp_all add: add_domain_def)
    have i: "id_of ?s ?n = Some (dom_seq s)"
      using None by (auto simp: id_of_def find_domain_def add_domain_def find_append)
    from import_rules_effect[OF g i, of env "ie_Rules e"] None f show ?thesis
      by (auto simp: bulk_import_entry_def bindE_def map_err_def sql_insert_domain_ignore_def
          view_add_domain[OF wf None] add_entry_def view_def)
  next
    case (Some d)
    let ?s = "burn_dom_seq env s"
    have i: "id_of ?s ?n = Some (d_ID d)"
      using Some id_of_frame[of ?s s] by (simp add: id_of_def)
    have sel: "select_domain_id ?n ?s = (Inr (d_ID d), ?s)"
      by (rule select_domain_id_Nil[OF _ i]) (simp add: f)
    from import_rules_effect[OF good_burn(1)[OF assms] i, of env "ie_Rules e"] Some f sel
    show ?thesis
      by (auto simp: bulk_import_entry_def bindE_def map_err_def sql_insert_domain_ignore_def
          add_entry_def view_def)
  qed
qed

lemma import_entries_effect:
  assumes "good s"
  shows "\<exists>s'. for_each (bulk_import_entry env) es s = (Inr (), s') \<and> good s' \<and>
    view s' = fold add_entry es (view s)"
  using assms
proof (induction es arbitrary: s)
  case Nil
  then show ?case by simp
next
  case (Cons e es)
  obtain s1 where s1: "bulk_import_entry env e s = (Inr (), s1)" "good s1"
    "view s1 = add_entry e (view s)" using bulk_import_entry_effect[OF Cons.prems] by blast
  from Cons.IH[OF s1(2)] s1 show ?case by (auto simp: bindE_def)
qed

lemma BulkImport_good:
  assumes "good s"
  shows "\<exists>s'. BulkImport env es s = (Inr (int (length es)), s') \<and> good s' \<and>
    view s' = fold add_entry es (view s)"
proof -
  obtain s' where s': "for_each (bulk_import_entry env) es s = (Inr (), s')" "good s'"
    "view s' = fold add_entry es (view s)" using import_entries_effect[OF assms] by blast
  have "BulkImport env es s = (Inr (int (length es)), s')"
    unfolding BulkImport_def
    by (rule transaction_Nil[OF goodD(2)[OF assms] _ goodD(2)[OF s'(2)]]) (simp add: bindE_def s'(1))
  with s' show ?thesis by blast
qed

section \<open>The export\<close>

definition export_list :: "sqlenv \<Rightarrow> db \<Rightarrow> import_entry list" where
  "export_list env s =
     map (\<lambda>d. export_entry d (ord_prio env (filter (\<lambda>r. r_DomainID r = d_ID d) (redirect_rules s))))
       (take 10000 (by_name env (domains s)))"

lemma export_domains_Nil:
  "faults s = [] \<Longrightarrow> export_domains env ds s =
    (Inr (map (\<lambda>d. export_entry d (ord_prio env (filter (\<lambda>r. r_DomainID r = d_ID d)
       (redirect_rules s)))) ds), s)"
  by (induction ds) (simp_all add: bindE_def ListRules_Nil)

lemma ExportAll_Nil: "faults s = [] \<Longrightarrow> ExportAll env s = (Inr (export_list env s), s)"
  by (simp add: ExportAll_def bindE_def ListDomains_Nil export_domains_Nil limit_offset_def
      export_list_def)

end
