(* ===== verification/Store_Atomic.thy ===== *)
theory Store_Atomic
  imports Store_Bulk_Props
begin

text \<open>
  Faults in the store's operations: the id sequences only grow, so that rolled back
  transactions keep the integrity of the tables, and no statement looks at the fault plan,
  so that every success under a plan without cut queries is the fault-free run.
\<close>

section \<open>Sequences\<close>

definition seq_ge :: "int \<Rightarrow> int \<Rightarrow> db \<Rightarrow> bool" where
  "seq_ge a b s \<longleftrightarrow> a \<le> dom_seq s \<and> b \<le> rule_seq s"

lemma fault_free_seq [simp]: "fault_free_prop (seq_ge a b)"
  by (simp add: fault_free_prop_def seq_ge_def)

lemma seq_ge_statements [keeps_intros]:
  "keeps (seq_ge a b) (sql_insert_domain_ignore env n url sc)"
  "keeps (seq_ge a b) (sql_insert_rule_ignore env i p url sc prio)"
  "keeps (seq_ge a b) (sql_upsert_domain env n url sc en)"
  "keeps (seq_ge a b) (sql_upsert_rule env i p url sc prio en)"
  "keeps (seq_ge a b) (sql_delete_rule i)"
  "keeps (seq_ge a b) (sql_delete_domain n)"
  by (rule keepsI, auto simp: seq_ge_def sql_insert_domain_ignore_def sql_insert_rule_ignore_def
      sql_upsert_domain_def sql_upsert_rule_def sql_delete_rule_def sql_delete_domain_def
      sql_update_domain_def add_domain_def add_rule_def burn_dom_seq_def burn_rule_seq_def
      split: option.splits)+

lemma seq_ge_select [keeps_intros]: "keeps (seq_ge a b) (select_domain_id n)"
  unfolding select_domain_id_def by (intro keeps_intros fault_free_seq)

lemma seq_ge_upsert_rules [keeps_intros]: "keeps (seq_ge a b) (upsert_rules env name i rs keys)"
  by (induction rs arbitrary: keys) (auto intro!: keeps_intros simp: Let_def)

lemma seq_ge_upsert_entries [keeps_intros]: "keeps (seq_ge a b) (upsert_entries env es names keys)"
  by (induction es arbitrary: names keys) (auto intro!: keeps_intros simp: upsert_domain_def)

lemma seq_ge_orphans [keeps_intros]:
  "keeps (seq_ge a b) (delete_orphan_rules names keys)"
  "keeps (seq_ge a b) (delete_orphan_domains names)"
  unfolding delete_orphan_rules_def delete_orphan_domains_def
  by (auto intro!: keeps_intros)

lemma keeps_transaction:
  assumes wf: "keeps wf_db body" and ge: "\<And>a b. keeps (seq_ge a b) body"
  shows "keeps wf_db (transaction env body)"
proof (rule keepsI)
  fix s assume s: "wf_db s"
  have ret: "keeps P (exec (retE ()))" if "fault_free_prop P" for P
    using that by (intro keeps_intros)
  obtain r0 s0 where b0: "exec (retE ()) s = (r0, s0)" by fastforce
  with keepsD[OF ret[OF fault_free_wf] s] have w0: "wf_db s0" by simp
  have g0: "seq_ge (dom_seq s0) (rule_seq s0) s0" by (simp add: seq_ge_def)
  obtain r1 s1 where b1: "body s0 = (r1, s1)" by fastforce
  with keepsD[OF wf w0] keepsD[OF ge g0]
  have w1: "wf_db s1" and g1: "seq_ge (dom_seq s0) (rule_seq s0) s1" by simp_all
  obtain r2 s2 where b2: "exec (retE ()) s1 = (r2, s2)" by fastforce
  with keepsD[OF ret[OF fault_free_wf] w1] keepsD[OF ret[OF fault_free_seq] g1]
  have w2: "wf_db s2" and g2: "seq_ge (dom_seq s0) (rule_seq s0) s2" by simp_all
  have "wf_db (rollback env s0 s1)" "wf_db (rollback env s0 s2)"
    using wf_rollback[OF w0] g1 g2 by (simp_all add: seq_ge_def)
  then show "wf_db (snd (transaction env body s))"
    using b0 b1 b2 w0 w1 w2
    by (cases r0; cases r1; cases r2) (simp_all add: transaction_def bindE_def)
qed

lemma keeps_BulkImportReplace: "keeps wf_db (BulkImportReplace env es)"
  unfolding BulkImportReplace_def
  by (rule keeps_transaction) (auto intro!: keeps_intros)

lemma keeps_BulkImport: "keeps wf_db (BulkImport env es)"
  unfolding BulkImport_def bulk_import_entry_def bulk_import_rule_def
  by (rule keeps_transaction) (auto intro!: keeps_intros)

section \<open>Statements do not see the plan\<close>

lemma blindI:
  assumes "\<And>s fs. st (s\<lparr>faults := fs\<rparr>) = (fst (st s), (snd (st s))\<lparr>faults := fs\<rparr>)"
    and "\<And>s. faults (snd (st s)) = faults s"
  shows "blind st"
  using assms by (simp add: blind_def)

lemma find_faults [simp]:
  "find_domain n (s\<lparr>faults := fs\<rparr>) = find_domain n s"
  "find_rule i p (s\<lparr>faults := fs\<rparr>) = find_rule i p s"
  by (simp_all add: find_domain_def find_rule_def)

lemma blind_update_rule [simp]: "blind (sql_update_rule env i p url sc prio en)"
proof (rule blindI)
  fix s fs
  show "sql_update_rule env i p url sc prio en (s\<lparr>faults := fs\<rparr>) =
      (fst (sql_update_rule env i p url sc prio en s),
       (snd (sql_update_rule env i p url sc prio en s))\<lparr>faults := fs\<rparr>)"
    by (cases "List.find (\<lambda>r. r_ID r = i) (redirect_rules s)")
      (auto simp: sql_update_rule_def)
  show "faults (snd (sql_update_rule env i p url sc prio en s)) = faults s"
    by (cases "List.find (\<lambda>r. r_ID r = i) (redirect_rules s)")
      (simp_all add: sql_update_rule_def)
qed

lemma blind_statements [simp]:
  "blind (sql_insert_domain env n url sc en)"
  "blind (sql_insert_rule env i p url sc prio en)"
  "blind (sql_update_domain env n url sc en)"
  "blind (sql_delete_rule i)" "blind (sql_delete_domain n)"
  "blind (sql_insert_domain_ignore env n url sc)"
  "blind (sql_insert_rule_ignore env i p url sc prio)"
  "blind (sql_upsert_domain env n url sc en)"
  "blind (sql_upsert_rule env i p url sc prio en)"
  by (rule blindI; simp add: sql_insert_domain_def sql_insert_rule_def sql_update_domain_def
      sql_delete_rule_def sql_delete_domain_def
      sql_insert_domain_ignore_def sql_insert_rule_ignore_def
      sql_upsert_domain_def sql_upsert_rule_def add_domain_def add_rule_def
      burn_dom_seq_def burn_rule_seq_def split: option.split)+

lemma transparent_select [transparent_intros]: "transparent (select_domain_id n)"
  unfolding select_domain_id_def by (intro transparent_intros) (simp add: blind_rows_def)

lemma transparent_upsert_rules [transparent_intros]:
  "transparent (upsert_rules env name i rs keys)"
  by (induction rs arbitrary: keys) (auto intro!: transparent_intros simp: Let_def)

lemma transparent_upsert_entries [transparent_intros]:
  "transparent (upsert_entries env es names keys)"
  by (induction es arbitrary: names keys) (auto intro!: transparent_intros simp: upsert_domain_def)

lemma transparent_orphans [transparent_intros]:
  "transparent (delete_orphan_rules names keys)" "transparent (delete_orphan_domains names)"
  unfolding delete_orphan_rules_def delete_orphan_domains_def
  by (auto intro!: transparent_intros simp: blind_rows_def rule_rows_def)

lemma transparent_BulkImportReplace: "transparent (BulkImportReplace env es)"
  unfolding BulkImportReplace_def by (auto intro!: transparent_intros)

lemma transparent_BulkImport: "transparent (BulkImport env es)"
  unfolding BulkImport_def bulk_import_entry_def bulk_import_rule_def
  by (auto intro!: transparent_intros split: option.split)

lemma view_clean [simp]: "view (clean s) = view s"
  by (rule view_frame) simp_all

lemma good_clean [simp]: "good (clean s) = wf_db s"
  by (simp add: good_def wf_db_def)

lemma wf_clean [simp]: "wf_db (clean s) = wf_db s"
  by (simp add: wf_db_def)

lemma view_same_tables: "same_tables s s' \<Longrightarrow> view s' = view s"
  by (rule view_frame) (simp_all add: same_tables_def)

end
