(* ===== verification/Store_Export.thy ===== *)
theory Store_Export
  imports Store_Atomic
begin

text \<open>
  What an export denotes: the first 10000 domains by name with their rules. Imported by
  replacement it gives those sites back, with a missing status read as 301; imported by
  \<open>BulkImport\<close> into an empty store it gives them back with every flag enabled.
\<close>

section \<open>Entries with distinct names\<close>

definition site_of_entry :: "import_entry \<Rightarrow> site" where
  "site_of_entry e =
     \<lparr>s_DefaultURL = ie_DefaultURL e, s_StatusCode = default_status (ie_StatusCode e),
      s_Enabled = importEnabled (ie_Enabled e), s_Rules = put_rules (ie_Rules e) Map.empty\<rparr>"

lemma contents_distinct:
  assumes "distinct (map ie_DomainName es)"
  shows "contents_of es n = map_option site_of_entry (List.find (\<lambda>e. ie_DomainName e = n) es)"
  using assms
proof (induction es rule: rev_induct)
  case Nil
  then show ?case by (simp add: contents_of_def)
next
  case (snoc e es)
  then have new: "ie_DomainName e \<notin> ie_DomainName ` set es" by auto
  then have "contents_of es (ie_DomainName e) = None" by (simp add: contents_None)
  then have old: "old_rules (contents_of es) (ie_DomainName e) = Map.empty"
    by (simp add: old_rules_def)
  have none: "List.find (\<lambda>x. ie_DomainName x = ie_DomainName e) es = None"
    using new by (simp add: find_key_None)
  from snoc old none show ?case
    by (auto simp: contents_snoc put_entry_apply[of e] find_append site_of_entry_def
        split: option.split)
qed

lemma put_rules_distinct:
  assumes "distinct (map ir_Path rs)"
  shows "put_rules rs Map.empty p = map_option view_of_import (List.find (\<lambda>r. ir_Path r = p) rs)"
  using assms
proof (induction rs)
  case Nil
  then show ?case by simp
next
  case (Cons r rs)
  have notin: "ir_Path r \<notin> dom (put_rules rs Map.empty)" using Cons.prems by (simp add: dom_put_rules)
  have "put_rules (r # rs) Map.empty p =
      ([ir_Path r \<mapsto> view_of_import r] ++ put_rules rs Map.empty) p"
    unfolding put_rules_simps by (subst put_rules_split) simp
  also have "\<dots> = map_option view_of_import (List.find (\<lambda>r. ir_Path r = p) (r # rs))"
    using Cons notin by (auto simp: map_add_def domIff split: option.split)
  finally show ?case .
qed

definition enabled_rule :: "import_rule \<Rightarrow> rule_view" where
  "enabled_rule r = (view_of_import r)\<lparr>v_Enabled := True\<rparr>"

lemma add_rules_new_append:
  "add_rules_new (rs @ [r]) m =
    (if add_rules_new rs m (ir_Path r) = None
     then (add_rules_new rs m)(ir_Path r \<mapsto> enabled_rule r) else add_rules_new rs m)"
  by (simp add: add_rules_new_def enabled_rule_def)

lemma add_rules_new_find:
  "add_rules_new rs m p =
    (case m p of Some v \<Rightarrow> Some v
     | None \<Rightarrow> map_option enabled_rule (List.find (\<lambda>r. ir_Path r = p) rs))"
proof (induction rs rule: rev_induct)
  case Nil
  then show ?case by (simp add: add_rules_new_def split: option.split)
next
  case (snoc r rs)
  show ?case
  proof (cases "ir_Path r = p")
    case True
    then show ?thesis
      by (cases "m p"; cases "List.find (\<lambda>r. ir_Path r = p) rs")
        (simp_all add: add_rules_new_append snoc find_append)
  next
    case False
    then show ?thesis
      by (cases "m p"; cases "List.find (\<lambda>r. ir_Path r = p) rs")
        (simp_all add: add_rules_new_append snoc find_append)
  qed
qed

definition enabled_site_of_entry :: "import_entry \<Rightarrow> site" where
  "enabled_site_of_entry e =
     \<lparr>s_DefaultURL = ie_DefaultURL e, s_StatusCode = default_status (ie_StatusCode e),
      s_Enabled = True, s_Rules = add_rules_new (ie_Rules e) Map.empty\<rparr>"

lemma fold_add_distinct:
  assumes "distinct (map ie_DomainName es)"
  shows "fold add_entry es Map.empty n =
    map_option enabled_site_of_entry (List.find (\<lambda>e. ie_DomainName e = n) es)"
  using assms
proof (induction es arbitrary: n rule: rev_induct)
  case Nil
  then show ?case by simp
next
  case (snoc e es)
  then have new: "List.find (\<lambda>x. ie_DomainName x = ie_DomainName e) es = None"
    by (auto simp: find_key_None)
  let ?vw = "fold add_entry es Map.empty"
  from snoc have IH: "?vw m = map_option enabled_site_of_entry
      (List.find (\<lambda>e. ie_DomainName e = m) es)" for m by simp
  have "fold add_entry (es @ [e]) Map.empty n = add_entry e ?vw n" by simp
  also have "\<dots> = map_option enabled_site_of_entry
      (List.find (\<lambda>x. ie_DomainName x = n) (es @ [e]))"
    using new unfolding add_entry_def[of e] find_append
    by (auto simp only: IH fun_upd_apply enabled_site_of_entry_def option.simps find.simps
        split: option.split if_splits)
  finally show ?case .
qed

section \<open>The exported entries\<close>

definition exported :: "sqlenv \<Rightarrow> db \<Rightarrow> string \<Rightarrow> bool" where
  "exported env s n \<longleftrightarrow> n \<in> d_Name ` set (take 10000 (by_name env (domains s)))"

definition rules_of :: "sqlenv \<Rightarrow> db \<Rightarrow> domain \<Rightarrow> redirect_rule list" where
  "rules_of env s d = ord_prio env (filter (\<lambda>r. r_DomainID r = d_ID d) (redirect_rules s))"

definition default_rule :: "rule_view \<Rightarrow> rule_view" where
  "default_rule v = v\<lparr>v_StatusCode := default_status (v_StatusCode v)\<rparr>"

definition default_site :: "site \<Rightarrow> site" where
  "default_site x = x\<lparr>s_StatusCode := default_status (s_StatusCode x),
                      s_Rules := map_option default_rule \<circ> s_Rules x\<rparr>"

definition enable_site :: "site \<Rightarrow> site" where
  "enable_site x = x\<lparr>s_Enabled := True,
                     s_Rules := map_option (\<lambda>v. v\<lparr>v_Enabled := True\<rparr>) \<circ> s_Rules x\<rparr>"

lemma exported_all:
  "length (domains s) \<le> 10000 \<Longrightarrow> exported env s n \<longleftrightarrow> view s n \<noteq> None"
  by (auto simp: exported_def view_None find_domain_None)

lemma find_take_name:
  assumes "wf_db s"
  shows "List.find (\<lambda>d. d_Name d = n) (take 10000 (by_name env (domains s))) =
    (if exported env s n then find_domain n s else None)"
proof -
  let ?xs = "by_name env (domains s)"
  have split: "List.find (\<lambda>d. d_Name d = n) ?xs =
      (case List.find (\<lambda>d. d_Name d = n) (take 10000 ?xs) of Some d \<Rightarrow> Some d
       | None \<Rightarrow> List.find (\<lambda>d. d_Name d = n) (drop 10000 ?xs))"
    by (metis append_take_drop_id find_append)
  show ?thesis
  proof (cases "List.find (\<lambda>d. d_Name d = n) (take 10000 ?xs)")
    case None
    then have "\<not> exported env s n" by (auto simp: exported_def find_None_iff)
    with None show ?thesis by simp
  next
    case (Some d)
    with find_Some_D[OF Some] have "exported env s n" by (auto simp: exported_def)
    with Some split find_by_name[OF assms, of n env] show ?thesis by simp
  qed
qed

lemma names_export [simp]: "ie_DomainName (export_entry d rs) = d_Name d"
  by (simp add: export_entry_def)

lemma distinct_export:
  assumes "wf_db s"
  shows "distinct (map ie_DomainName (export_list env s))"
proof -
  have "map ie_DomainName (export_list env s) = take 10000 (map d_Name (by_name env (domains s)))"
    by (simp add: export_list_def comp_def take_map)
  with wf_names[OF assms] show ?thesis by simp
qed

lemma find_export:
  assumes "wf_db s"
  shows "List.find (\<lambda>e. ie_DomainName e = n) (export_list env s) =
    (if exported env s n
     then map_option (\<lambda>d. export_entry d (rules_of env s d)) (find_domain n s) else None)"
  unfolding export_list_def rules_of_def[symmetric]
  by (subst find_map_to[where P = "\<lambda>e. ie_DomainName e = n" and
        f = "\<lambda>d. export_entry d (rules_of env s d)" and Q = "\<lambda>d. d_Name d = n"])
    (simp_all add: find_take_name[OF assms])

text \<open>The rules of one domain, found by path.\<close>

lemma rules_of_perm:
  "sql_contract env \<Longrightarrow> mset (rules_of env s d) =
    mset (filter (\<lambda>r. r_DomainID r = d_ID d) (redirect_rules s))"
  unfolding rules_of_def by (rule desc_sorts_mset[where key = r_Priority]) (simp add: sql_contract_def)

lemma distinct_paths_of:
  assumes "wf_db s"
  shows "distinct (map r_Path (filter (\<lambda>r. r_DomainID r = i) (redirect_rules s)))"
proof -
  have "inj_on r_Path {r \<in> set (redirect_rules s). r_DomainID r = i}"
    using wf_rule_keys[OF assms] by (auto simp: distinct_map inj_on_def)
  moreover have "distinct (redirect_rules s)"
    using wf_rule_keys[OF assms] by (simp add: distinct_map)
  ultimately show ?thesis by (simp add: distinct_map)
qed

lemma find_rules_of:
  assumes "sql_contract env" and "wf_db s"
  shows "List.find (\<lambda>r. r_Path r = p) (rules_of env s d) = find_rule (d_ID d) p s"
proof -
  let ?f = "filter (\<lambda>r. r_DomainID r = d_ID d) (redirect_rules s)"
  have "distinct (map r_Path (rules_of env s d))"
    using distinct_paths_of[OF assms(2), of "d_ID d"] rules_of_perm[OF assms(1), of s d]
    by (metis mset_eq_imp_distinct_iff mset_map)
  from find_perm_unique[OF rules_of_perm[OF assms(1)] this]
  have "List.find (\<lambda>r. r_Path r = p) (rules_of env s d) = List.find (\<lambda>r. r_Path r = p) ?f" .
  also have "\<dots> = find_rule (d_ID d) p s"
    by (simp add: find_rule_def find_filter)
  finally show ?thesis .
qed

lemma distinct_rules_of:
  assumes "sql_contract env" and "wf_db s"
  shows "distinct (map r_Path (rules_of env s d))"
  using distinct_paths_of[OF assms(2), of "d_ID d"] rules_of_perm[OF assms(1), of s d]
  by (metis mset_eq_imp_distinct_iff mset_map)

lemma export_rules:
  fixes s :: db and d :: domain
  assumes "sql_contract env" and "wf_db s"
  defines "rs \<equiv> ie_Rules (export_entry d (rules_of env s d))"
  shows "map_option view_of_import (List.find (\<lambda>r. ir_Path r = p) rs) =
      map_option default_rule (s_Rules (site_of s d) p)"
    and "distinct (map ir_Path rs)"
proof -
  show "map_option view_of_import (List.find (\<lambda>r. ir_Path r = p) rs) =
      map_option default_rule (s_Rules (site_of s d) p)"
    unfolding rs_def export_entry_def
    by (simp add: find_map_to[where Q = "\<lambda>r. r_Path r = p"] find_rules_of[OF assms(1,2)] site_of_def option.map_comp comp_def
        view_of_import_def default_rule_def rule_view_of_def importEnabled_def)
  show "distinct (map ir_Path rs)"
    unfolding rs_def export_entry_def using distinct_rules_of[OF assms(1,2)] by (simp add: comp_def)
qed

lemma site_of_export:
  assumes "sql_contract env" and "wf_db s"
  shows "site_of_entry (export_entry d (rules_of env s d)) = default_site (site_of s d)"
proof -
  have "s_Rules (site_of_entry (export_entry d (rules_of env s d))) =
      map_option default_rule \<circ> s_Rules (site_of s d)"
    using export_rules[OF assms, where d = d]
    by (simp add: site_of_entry_def put_rules_distinct fun_eq_iff)
  then show ?thesis
    by (simp add: site_of_entry_def default_site_def export_entry_def site_of_def importEnabled_def)
qed

lemma enabled_site_of_export:
  assumes "sql_contract env" and "wf_db s"
  shows "enabled_site_of_entry (export_entry d (rules_of env s d)) =
    enable_site (default_site (site_of s d))"
proof -
  have *: "map_option enabled_rule x = map_option (\<lambda>v. v\<lparr>v_Enabled := True\<rparr>) (map_option view_of_import x)"
    for x by (simp add: option.map_comp comp_def enabled_rule_def[abs_def])
  have "s_Rules (enabled_site_of_entry (export_entry d (rules_of env s d))) =
      map_option (\<lambda>v. v\<lparr>v_Enabled := True\<rparr>) \<circ> (map_option default_rule \<circ> s_Rules (site_of s d))"
    unfolding enabled_site_of_entry_def
    by (rule ext) (simp add: add_rules_new_find * export_rules(1)[OF assms])
  then show ?thesis
    by (simp add: enabled_site_of_entry_def enable_site_def default_site_def export_entry_def
        site_of_def)
qed

lemma contents_of_export:
  assumes "sql_contract env" and "wf_db s"
  shows "contents_of (export_list env s) n =
    (if exported env s n then map_option default_site (view s n) else None)"
  by (simp add: contents_distinct[OF distinct_export[OF assms(2)]] find_export[OF assms(2)]
      option.map_comp comp_def site_of_export[OF assms] view_def)

lemma import_of_export:
  assumes "sql_contract env" and "wf_db s"
  shows "fold add_entry (export_list env s) Map.empty n =
    (if exported env s n then map_option (enable_site \<circ> default_site) (view s n) else None)"
  by (simp add: fold_add_distinct[OF distinct_export[OF assms(2)]] find_export[OF assms(2)]
      option.map_comp comp_def enabled_site_of_export[OF assms] view_def)

text \<open>Statuses other than 0 survive.\<close>

definition statuses_set :: "db \<Rightarrow> bool" where
  "statuses_set s \<longleftrightarrow> (\<forall>d \<in> set (domains s). d_StatusCode d \<noteq> 0) \<and>
     (\<forall>r \<in> set (redirect_rules s). r_StatusCode r \<noteq> 0)"

lemma default_site_id:
  assumes "statuses_set s" and "view s n = Some x"
  shows "default_site x = x"
proof -
  from view_Some[OF assms(2)] obtain d where d: "find_domain n s = Some d" "x = site_of s d" by blast
  have "map_option default_rule (s_Rules x p) = s_Rules x p" for p
  proof (cases "find_rule (d_ID d) p s")
    case None
    then show ?thesis by (simp add: d site_of_def)
  next
    case (Some r)
    with find_rule_Some[OF Some] assms(1) have "r_StatusCode r \<noteq> 0" by (simp add: statuses_set_def)
    with Some show ?thesis by (simp add: d site_of_def default_rule_def rule_view_of_def default_status_def)
  qed
  moreover have "s_StatusCode x \<noteq> 0"
    using find_domain_Some[OF d(1)] assms(1) by (simp add: d site_of_def statuses_set_def)
  ultimately show ?thesis by (simp add: default_site_def default_status_def comp_def)
qed

section \<open>The export under faults\<close>

lemma transparent_ListRules [transparent_intros]: "transparent (ListRules env i)"
  unfolding ListRules_def by (intro transparent_intros) (simp add: blind_rows_def)

lemma search_domains_faults [simp]:
  "search_domains env search (s\<lparr>faults := fs\<rparr>) = search_domains env search s"
  by (simp add: search_domains_def)

lemma transparent_ListDomains [transparent_intros]: "transparent (ListDomains env search lim off)"
  unfolding ListDomains_def Let_def
  by (intro transparent_intros) (auto simp: blind_def blind_rows_def)

lemma transparent_export_domains [transparent_intros]: "transparent (export_domains env ds)"
  by (induction ds) (simp_all only: export_domains.simps transparent_intros)

lemma transparent_ExportAll: "transparent (ExportAll env)"
  unfolding ExportAll_def by (auto intro!: transparent_intros)

lemma ExportAll_success:
  assumes "nocut s" and "ExportAll env s = (Inr es, s')"
  shows "es = export_list env s"
proof -
  from transparentD(2)[OF transparent_ExportAll assms]
  have "ExportAll env (clean s) = (Inr es, clean s')" .
  moreover have "ExportAll env (clean s) = (Inr (export_list env (clean s)), clean s)"
    by (rule ExportAll_Nil) simp
  ultimately have "export_list env (clean s) = es" by (metis Inr_inject fst_conv)
  then show ?thesis by (simp add: export_list_def)
qed

lemma BulkImportReplace_success:
  assumes "nocut s" and "wf_db s" and "BulkImportReplace env es s = (Inr u, s')"
  shows "view s' = contents_of es"
proof -
  from transparentD(2)[OF transparent_BulkImportReplace assms(1,3)]
  have "BulkImportReplace env es (clean s) = (Inr u, clean s')" .
  with BulkImportReplace_good[of "clean s" env es] assms(2) show ?thesis by auto
qed

lemma BulkImport_success:
  assumes "nocut s" and "wf_db s" and "BulkImport env es s = (Inr k, s')"
  shows "k = int (length es) \<and> view s' = fold add_entry es (view s)"
proof -
  from transparentD(2)[OF transparent_BulkImport assms(1,3)]
  have "BulkImport env es (clean s) = (Inr k, clean s')" .
  with BulkImport_good[of "clean s" env es] assms(2) show ?thesis by auto
qed

end
