(* ===== verification/Store_Props.thy ===== *)
theory Store_Props
  imports Store_Export
begin

text \<open>
  The properties of the store: integrity of the tables under every operation and fault, the
  effect of the bulk operations on the contents, and what an export and import round trip
  keeps.
\<close>

section \<open>Integrity\<close>

text \<open>C3: Every operation that writes domains or rules keeps the integrity of the tables
  (unique names, ids and paths, rules that refer to existing domains, ids below their
  sequences), whatever statement of it fails or is cut short.\<close>
theorem store_operations_keep_integrity:
  "keeps wf_db (CreateDomain env d) \<and> keeps wf_db (UpdateDomain env n d) \<and>
   keeps wf_db (DeleteDomain env n) \<and> keeps wf_db (CreateRule env r) \<and>
   keeps wf_db (UpdateRule env i r) \<and> keeps wf_db (DeleteRule env i) \<and>
   keeps wf_db (BulkImport env es) \<and> keeps wf_db (BulkImportReplace env es)"
  by (simp add: keeps_CRUD keeps_BulkImport keeps_BulkImportReplace)

section \<open>Operations on one domain or rule\<close>

text \<open>A statement fails before it runs, or runs on the same tables.\<close>

lemma view_next [simp]: "view (snd (next_fault s)) = view s"
  by (rule view_frame) simp_all

lemma wf_next [simp]: "wf_db (snd (next_fault s)) = wf_db s"
  by (rule next_fault_keeps) simp

lemma id_of_next [simp]: "id_of (snd (next_fault s)) = id_of s"
  by (rule id_of_frame) simp

lemma find_next [simp]:
  "find_domain n (snd (next_fault s)) = find_domain n s"
  "find_rule i p (snd (next_fault s)) = find_rule i p s"
  "rule_with_id i (snd (next_fault s)) = rule_with_id i s"
  by (simp_all add: find_domain_def find_rule_def rule_with_id_def)

definition new_site :: "domain \<Rightarrow> site" where
  "new_site d = \<lparr>s_DefaultURL = d_DefaultURL d, s_StatusCode = d_StatusCode d,
                 s_Enabled = d_Enabled d, s_Rules = Map.empty\<rparr>"

lemma add_domain_row:
  assumes "find_domain n s = None"
  shows "find_domain n (add_domain env n url sc en s) =
    Some \<lparr>d_ID = dom_seq s, d_Name = n, d_DefaultURL = url, d_StatusCode = sc, d_Enabled = en,
          d_CreatedAt = db_now s, d_UpdatedAt = db_now s\<rparr>"
  using assms by (simp add: find_domain_def add_domain_def find_append)

lemma add_domain_id:
  assumes "wf_db s"
  shows "List.find (\<lambda>x. d_ID x = dom_seq s) (domains (add_domain env n url sc en s)) =
    Some \<lparr>d_ID = dom_seq s, d_Name = n, d_DefaultURL = url, d_StatusCode = sc, d_Enabled = en,
          d_CreatedAt = db_now s, d_UpdatedAt = db_now s\<rparr>"
proof -
  have "List.find (\<lambda>x. d_ID x = dom_seq s) (domains s) = None"
    using wf_dom_seq[OF assms] by (fastforce simp: find_None_iff)
  then show ?thesis by (simp add: add_domain_def find_append)
qed

text \<open>On SQLite a create reads the row it has just inserted.\<close>

lemma read_back:
  assumes "wf_db s" and "find_domain n s = None"
    and "query_row (\<lambda>x. List.find (\<lambda>y. d_ID y = dom_seq s) (domains x)) (add_domain env n url sc en s) = (r, s')"
  shows "view s' = view (add_domain env n url sc en s) \<and>
    find_domain n s' = find_domain n (add_domain env n url sc en s) \<and>
    (\<forall>x. r = Inr x \<longrightarrow> find_domain n (add_domain env n url sc en s) = Some x)"
proof -
  let ?add = "add_domain env n url sc en s"
  have "List.find (\<lambda>y. d_ID y = dom_seq s) (domains ?add) = find_domain n ?add"
    using add_domain_id[of s env n] add_domain_row[of n s] assms(1,2) by simp
  with assms(3) show ?thesis unfolding query_row_def
    by (elim exec_cases) (auto split: option.splits)
qed

text \<open>\<open>CreateDomain\<close> inserts a new site without rules and returns the stored row, or
  reports an error. An error leaves the contents as they were, with one exception: on SQLite
  the row is read back by a second statement, and when that fails the domain stays in the
  store although the call failed.\<close>
lemma CreateDomain_effect:
  assumes "wf_db s" and "CreateDomain env d s = (r, s')"
  shows "case r of
      Inr d' \<Rightarrow> view s (d_Name d) = None \<and> view s' = (view s)(d_Name d \<mapsto> new_site d) \<and>
        find_domain (d_Name d) s' = Some d'
    | Inl e \<Rightarrow> view s' = view s \<or>
        (env_dialect env = DialectSQLite \<and> view s (d_Name d) = None \<and>
         view s' = (view s)(d_Name d \<mapsto> new_site d))"
proof -
  let ?n = "d_Name d" and ?s1 = "snd (next_fault s)"
  let ?ins = "sql_insert_domain env ?n (d_DefaultURL d) (d_StatusCode d) (d_Enabled d)"
  obtain r1 s1 where e1: "exec ?ins s = (r1, s1)" by fastforce
  have inl: "view s' = view s" if "r1 = Inl er" "view s1 = view s" for er
    using assms(2) that e1 by (simp add: CreateDomain_def bindE_def)
  show ?thesis
  proof (cases "find_domain ?n s")
    case (Some x)
    from e1 have "(\<exists>er. r1 = Inl er) \<and> view s1 = view s"
      by (rule exec_cases) (auto simp: sql_insert_domain_def Some)
    with inl assms(2) e1 show ?thesis by (auto simp: CreateDomain_def bindE_def)
  next
    case None
    let ?add = "add_domain env ?n (d_DefaultURL d) (d_StatusCode d) (d_Enabled d) ?s1"
    have fresh: "view s ?n = None" by (simp add: view_def None)
    have va: "view ?add = (view s)(?n \<mapsto> new_site d)"
      using view_add_domain[of ?s1 ?n] assms(1) None by (simp add: new_site_def)
    let ?row = "\<lparr>d_ID = dom_seq s, d_Name = ?n, d_DefaultURL = d_DefaultURL d,
        d_StatusCode = d_StatusCode d, d_Enabled = d_Enabled d,
        d_CreatedAt = db_now s, d_UpdatedAt = db_now s\<rparr>"
    have row: "find_domain ?n ?add = Some ?row"
      using add_domain_row[of ?n ?s1] None by simp
    from e1 show ?thesis
    proof (rule exec_cases)
      fix m assume "r1 = Inl (ErrMsg m)" "s1 = ?s1"
      with inl assms(2) e1 show ?thesis by (auto simp: CreateDomain_def bindE_def)
    next
      assume "?ins ?s1 = (r1, s1)"
      then have r1: "r1 = Inr (dom_seq s)" "s1 = ?add" by (auto simp: sql_insert_domain_def None)
      have eq: "?row = d\<lparr>d_ID := dom_seq s, d_CreatedAt := db_now s, d_UpdatedAt := db_now s\<rparr>"
        by simp
      show ?thesis
      proof (cases "env_dialect env")
        case DialectPostgres
        with assms(2) e1 r1 have "r = Inr ?row" "s' = ?add"
          by (auto simp: CreateDomain_def bindE_def add_domain_def)
        with fresh va row show ?thesis by simp
      next
        case DialectSQLite
        obtain r2 s2 where e2: "query_row (\<lambda>x. List.find (\<lambda>y. d_ID y = dom_seq ?s1) (domains x)) ?add
            = (r2, s2)" by fastforce
        from read_back[OF _ _ e2] assms(1) None row
        have "view s2 = view ?add \<and> find_domain ?n s2 = find_domain ?n ?add \<and>
            (\<forall>x. r2 = Inr x \<longrightarrow> x = ?row)" by simp
        then show ?thesis
          using DialectSQLite assms(2) e1 e2 r1 fresh va row
          by (cases r2) (auto simp: CreateDomain_def bindE_def)
      qed
    qed
  qed
qed

theorem CreateDomain_effect_witness:
  "\<exists>d' s'. CreateDomain (reference_env DialectSQLite)
      (demo_domain 0 ''new.example'' ''https://t.example'' 302 True) demo_db = (Inr d', s') \<and>
    d_ID d' = 3 \<and> find_domain ''new.example'' s' = Some d' \<and>
    view s' ''new.example'' = Some \<lparr>s_DefaultURL = ''https://t.example'', s_StatusCode = 302,
      s_Enabled = True, s_Rules = Map.empty\<rparr>"
proof -
  let ?env = "reference_env DialectSQLite"
  let ?d = "demo_domain 0 ''new.example'' ''https://t.example'' 302 True"
  obtain d' s' where c: "CreateDomain ?env ?d demo_db = (Inr d', s')" and i: "d_ID d' = 3"
    by (simp add: CreateDomain_def bindE_def sql_insert_domain_def find_domain_def add_domain_def
        demo_defs)
  from CreateDomain_effect[OF demo_db_wf c]
  have "find_domain ''new.example'' s' = Some d'" "view s' ''new.example'' = Some (new_site ?d)"
    by (simp_all add: demo_domain_def)
  with c i show ?thesis by (auto simp: new_site_def demo_domain_def)
qed

text \<open>C23: Updating and deleting a domain: a success changes exactly the named site (a
  missing name is no error), an error changes nothing. The rules go with a deleted domain and
  stay with an updated one.\<close>
theorem domain_updates:
  assumes "wf_db s"
  shows "(case UpdateDomain env n d s of
       (Inr _, s') \<Rightarrow> view s' = (case view s n of None \<Rightarrow> view s
         | Some x \<Rightarrow> (view s)(n \<mapsto> x\<lparr>s_DefaultURL := d_DefaultURL d,
             s_StatusCode := d_StatusCode d, s_Enabled := d_Enabled d\<rparr>))
     | (Inl _, s') \<Rightarrow> view s' = view s) \<and>
    (case DeleteDomain env n s of
       (Inr _, s') \<Rightarrow> view s' = (view s)(n := None)
     | (Inl _, s') \<Rightarrow> view s' = view s)"
proof (intro conjI)
  let ?s1 = "snd (next_fault s)"
  obtain r s' where u: "UpdateDomain env n d s = (r, s')" by fastforce
  have "fst (sql_update_domain env n (d_DefaultURL d) (d_StatusCode d) (d_Enabled d) x) = Inr ()" for x
    by (simp add: sql_update_domain_def)
  from exec_total[OF this u[unfolded UpdateDomain_def]]
    view_update_domain[of env n "d_DefaultURL d" "d_StatusCode d" "d_Enabled d" ?s1]
  show "case UpdateDomain env n d s of
       (Inr _, s') \<Rightarrow> view s' = (case view s n of None \<Rightarrow> view s
         | Some x \<Rightarrow> (view s)(n \<mapsto> x\<lparr>s_DefaultURL := d_DefaultURL d,
             s_StatusCode := d_StatusCode d, s_Enabled := d_Enabled d\<rparr>))
     | (Inl _, s') \<Rightarrow> view s' = view s"
    unfolding u by (auto simp only: view_next prod.case sum.case)
  obtain r' s'' where e: "DeleteDomain env n s = (r', s'')" by fastforce
  have "fst (sql_delete_domain n x) = Inr ()" for x by (simp add: sql_delete_domain_def)
  from exec_total[OF this e[unfolded DeleteDomain_def]] view_delete_domain[of ?s1 n] assms
  show "case DeleteDomain env n s of
       (Inr _, s') \<Rightarrow> view s' = (view s)(n := None) | (Inl _, s') \<Rightarrow> view s' = view s"
    unfolding e by auto
qed

theorem domain_updates_witness:
  "\<exists>s' s''. UpdateDomain (reference_env DialectSQLite) ''off.example''
      (demo_domain 0 [] ''https://on.example'' 308 True) demo_db = (Inr (), s') \<and>
    map_option s_Enabled (view s' ''off.example'') = Some True \<and>
    DeleteDomain (reference_env DialectSQLite) ''old.example'' demo_db = (Inr (), s'') \<and>
    view s'' = (view demo_db)(''old.example'' := None)"
proof -
  let ?env = "reference_env DialectSQLite"
  let ?d = "demo_domain 0 [] ''https://on.example'' 308 True"
  obtain s' where u: "UpdateDomain ?env ''off.example'' ?d demo_db = (Inr (), s')"
    by (simp add: UpdateDomain_def sql_update_domain_def)
  obtain s'' where e: "DeleteDomain ?env ''old.example'' demo_db = (Inr (), s'')"
    by (simp add: DeleteDomain_def sql_delete_domain_def)
  obtain x where x: "view demo_db ''off.example'' = Some x"
    by (auto simp: view_def find_domain_def demo_defs)
  from domain_updates[OF demo_db_wf, where env = ?env and n = "''off.example''" and d = ?d]
  have "view s' ''off.example'' = Some (x\<lparr>s_DefaultURL := ''https://on.example'',
      s_StatusCode := 308, s_Enabled := True\<rparr>)"
    using u x by (auto simp: demo_domain_def)
  moreover from domain_updates[OF demo_db_wf, where env = ?env and n = "''old.example''" and d = ?d]
  have "view s'' = (view demo_db)(''old.example'' := None)" using e by auto
  ultimately show ?thesis using u e by auto
qed

lemma sql_update_rule_Inr:
  assumes "sql_update_rule env i p url sc prio en s = (Inr u, s')" and "rule_with_id i s = Some old"
  shows "\<not> (\<exists>r \<in> set (redirect_rules s). r_ID r \<noteq> i \<and> r_DomainID r = r_DomainID old \<and> r_Path r = p)"
  using assms unfolding rule_with_id_def sql_update_rule_def by (auto split: if_splits)

lemma view_of_id:
  assumes "id_of s n = Some i"
  obtains d where "find_domain n s = Some d" and "d_ID d = i" and "view s n = Some (site_of s d)"
  using assms by (auto simp: id_of_def view_def)

lemma CreateRule_view:
  assumes "wf_db s" and "CreateRule env r s = (Inr r', s')"
  shows "r' = r\<lparr>r_ID := rule_seq s\<rparr> \<and> (\<exists>n x. id_of s n = Some (r_DomainID r) \<and> view s n = Some x \<and>
    s_Rules x (r_Path r) = None \<and>
    view s' = (view s)(n \<mapsto> x\<lparr>s_Rules := (s_Rules x)(r_Path r \<mapsto> rule_view_of r)\<rparr>))"
proof -
  let ?s1 = "snd (next_fault s)"
  from assms(2) obtain i where i: "exec (sql_insert_rule env (r_DomainID r) (r_Path r)
      (r_TargetURL r) (r_StatusCode r) (r_Priority r) (r_Enabled r)) s = (Inr i, s')"
    and r': "r' = r\<lparr>r_ID := i\<rparr>"
    by (auto simp: CreateRule_def bindE_def split: sum.splits prod.splits)
  from i obtain none: "find_rule (r_DomainID r) (r_Path r) s = None"
    and mem: "r_DomainID r \<in> d_ID ` set (domains s)" and seq: "i = rule_seq s"
    and s': "s' = add_rule env (r_DomainID r) (r_Path r) (r_TargetURL r) (r_StatusCode r)
      (r_Priority r) (r_Enabled r) ?s1"
    by (rule exec_cases) (auto simp: sql_insert_rule_def split: if_splits)
  from mem obtain d where "d \<in> set (domains s)" "d_ID d = r_DomainID r" by auto
  with find_domain_mem[OF assms(1)] have d: "find_domain (d_Name d) s = Some d" "d_ID d = r_DomainID r"
    by auto
  have "view s' = (view s)(d_Name d \<mapsto> (site_of s d)\<lparr>s_Rules :=
      (s_Rules (site_of s d))(r_Path r \<mapsto> rule_view_of r)\<rparr>)"
    using view_add_rule[of ?s1 "d_Name d" d "r_Path r" env "r_TargetURL r" "r_StatusCode r"
        "r_Priority r" "r_Enabled r"] assms(1) d none
    by (simp add: s' rule_view_of_def site_of_def)
  moreover have "s_Rules (site_of s d) (r_Path r) = None" using none d(2) by (simp add: site_of_def)
  ultimately show ?thesis using d seq r' by (auto simp: id_of_def view_def)
qed

lemma UpdateRule_view:
  assumes "wf_db s" and "UpdateRule env i r s = (Inr u, s')"
  shows "case rule_with_id i s of None \<Rightarrow> view s' = view s
    | Some old \<Rightarrow> \<exists>n x. id_of s n = Some (r_DomainID old) \<and> view s n = Some x \<and>
        view s' = (view s)(n \<mapsto> x\<lparr>s_Rules :=
          (s_Rules x)(r_Path old := None, r_Path r \<mapsto> rule_view_of r)\<rparr>)"
proof -
  let ?s1 = "snd (next_fault s)"
  from assms(2) have u: "sql_update_rule env i (r_Path r) (r_TargetURL r) (r_StatusCode r)
      (r_Priority r) (r_Enabled r) ?s1 = (Inr (), s')"
    unfolding UpdateRule_def by (rule exec_cases) auto
  show ?thesis
  proof (cases "rule_with_id i s")
    case None
    with u have "s' = ?s1" by (simp add: sql_update_rule_def rule_with_id_def)
    with None show ?thesis by simp
  next
    case (Some old)
    then have old: "rule_with_id i ?s1 = Some old" by simp
    obtain n where n: "id_of s n = Some (r_DomainID old)"
      using owner_exists[OF assms(1)] rule_with_id_Some[OF Some] by blast
    from view_update_rule[of ?s1 i old n "r_Path r" env, OF _ old _ sql_update_rule_Inr[OF u old] u]
      assms(1) n
    have "view s' = (view s)(n \<mapsto> (the (view s n))\<lparr>s_Rules :=
        (s_Rules (the (view s n)))(r_Path old := None, r_Path r \<mapsto> rule_view_of r)\<rparr>)"
      by (simp add: rule_view_of_def)
    moreover have "view s n = Some (the (view s n))" using n by (rule view_of_id) simp
    ultimately show ?thesis using n Some by auto
  qed
qed

lemma DeleteRule_view:
  assumes "wf_db s" and "DeleteRule env i s = (Inr u, s')"
  shows "case rule_with_id i s of None \<Rightarrow> view s' = view s
    | Some old \<Rightarrow> \<exists>n x. id_of s n = Some (r_DomainID old) \<and> view s n = Some x \<and>
        view s' = (view s)(n \<mapsto> x\<lparr>s_Rules := (s_Rules x)(r_Path old := None)\<rparr>)"
proof -
  let ?s1 = "snd (next_fault s)"
  from assms(2) have s': "s' = snd (sql_delete_rule i ?s1)"
    unfolding DeleteRule_def by (rule exec_cases) auto
  show ?thesis
  proof (cases "rule_with_id i s")
    case None
    have "filter (\<lambda>r. r_ID r \<noteq> i) (redirect_rules s) = redirect_rules s"
      using None by (auto simp: rule_with_id_def find_None_iff intro!: filter_True)
    then have "view s' = view ?s1" unfolding s' by (intro view_frame) (simp_all add: sql_delete_rule_def)
    with None show ?thesis by simp
  next
    case (Some old)
    note o = rule_with_id_Some[OF Some]
    obtain n where n: "id_of s n = Some (r_DomainID old)" using owner_exists[OF assms(1)] o by blast
    from view_delete_rule[of ?s1 old n] assms(1) o n
    have "view s' = (view s)(n \<mapsto> (the (view s n))\<lparr>s_Rules :=
        (s_Rules (the (view s n)))(r_Path old := None)\<rparr>)" by (simp add: s')
    moreover have "view s n = Some (the (view s n))" using n by (rule view_of_id) simp
    ultimately show ?thesis using n Some by auto
  qed
qed

lemma rule_errors:
  "CreateRule env r s = (Inl e, s') \<Longrightarrow> view s' = view s"
  "UpdateRule env i r s = (Inl e, s') \<Longrightarrow> view s' = view s"
  "DeleteRule env i s = (Inl e, s') \<Longrightarrow> view s' = view s"
proof -
  assume "CreateRule env r s = (Inl e, s')"
  then have "exec (sql_insert_rule env (r_DomainID r) (r_Path r) (r_TargetURL r) (r_StatusCode r)
      (r_Priority r) (r_Enabled r)) s = (Inl e, s')"
    by (auto simp: CreateRule_def bindE_def split: sum.splits prod.splits)
  then show "view s' = view s"
    by (rule exec_cases) (auto simp: sql_insert_rule_def split: if_splits)
next
  assume "UpdateRule env i r s = (Inl e, s')"
  then show "view s' = view s"
    unfolding UpdateRule_def
    by (rule exec_cases) (auto simp: sql_update_rule_def split: option.splits if_splits)
next
  assume "DeleteRule env i s = (Inl e, s')"
  then show "view s' = view s"
    unfolding DeleteRule_def by (rule exec_cases) (auto simp: sql_delete_rule_def)
qed

text \<open>C24: Rule operations: creating a rule adds it under its path to the domain with the
  given id and returns the next id; updating and deleting act on the rule with the given id in
  whatever domain it is (a missing id is no error); an update may move the rule to a free
  path. An error, such as a path that is taken, changes nothing.\<close>
theorem rule_updates:
  assumes "wf_db s"
  shows "(case CreateRule env r s of
       (Inr r', s') \<Rightarrow> r' = r\<lparr>r_ID := rule_seq s\<rparr> \<and>
         (\<exists>n x. id_of s n = Some (r_DomainID r) \<and> view s n = Some x \<and> s_Rules x (r_Path r) = None \<and>
           view s' = (view s)(n \<mapsto> x\<lparr>s_Rules := (s_Rules x)(r_Path r \<mapsto> rule_view_of r)\<rparr>))
     | (Inl _, s') \<Rightarrow> view s' = view s) \<and>
    (case UpdateRule env i r s of
       (Inr _, s') \<Rightarrow> (case rule_with_id i s of None \<Rightarrow> view s' = view s
         | Some old \<Rightarrow> \<exists>n x. id_of s n = Some (r_DomainID old) \<and> view s n = Some x \<and>
             view s' = (view s)(n \<mapsto> x\<lparr>s_Rules :=
               (s_Rules x)(r_Path old := None, r_Path r \<mapsto> rule_view_of r)\<rparr>))
     | (Inl _, s') \<Rightarrow> view s' = view s) \<and>
    (case DeleteRule env i s of
       (Inr _, s') \<Rightarrow> (case rule_with_id i s of None \<Rightarrow> view s' = view s
         | Some old \<Rightarrow> \<exists>n x. id_of s n = Some (r_DomainID old) \<and> view s n = Some x \<and>
             view s' = (view s)(n \<mapsto> x\<lparr>s_Rules := (s_Rules x)(r_Path old := None)\<rparr>))
     | (Inl _, s') \<Rightarrow> view s' = view s)"
proof -
  obtain a s1 b s2 c s3 where
    e: "CreateRule env r s = (a, s1)" "UpdateRule env i r s = (b, s2)" "DeleteRule env i s = (c, s3)"
    by fastforce
  show ?thesis
  proof (intro conjI, goal_cases)
    case 1
    then show ?case
      using e(1) CreateRule_view[OF assms, of env r _ s1] rule_errors(1)[of env r s _ s1]
      by (cases a) simp_all
  next
    case 2
    then show ?case
      using e(2) UpdateRule_view[OF assms, of env i r _ s2] rule_errors(2)[of env i r s _ s2]
      by (cases b) simp_all
  next
    case 3
    then show ?case
      using e(3) DeleteRule_view[OF assms, of env i _ s3] rule_errors(3)[of env i s _ s3]
      by (cases c) simp_all
  qed
qed

theorem rule_updates_witness:
  "\<exists>s'. UpdateRule (reference_env DialectSQLite) 1 (demo_rule 0 0 ''/manual'' ''https://m.example'' 308 1 True)
      demo_db = (Inr (), s') \<and>
    (\<exists>x. view s' ''old.example'' = Some x \<and> s_Rules x ''/docs'' = None \<and>
      s_Rules x ''/manual'' = Some \<lparr>v_TargetURL = ''https://m.example'', v_StatusCode = 308,
        v_Priority = 1, v_Enabled = True\<rparr>)"
proof -
  let ?env = "reference_env DialectSQLite"
  let ?r = "demo_rule 0 0 ''/manual'' ''https://m.example'' 308 1 True"
  let ?old = "demo_rule 1 1 ''/docs'' ''https://docs.example'' 302 10 True"
  obtain s' where u: "UpdateRule ?env 1 ?r demo_db = (Inr (), s')"
    by (simp add: UpdateRule_def sql_update_rule_def demo_defs)
  have old: "rule_with_id 1 demo_db = Some ?old" by (simp add: rule_with_id_def demo_defs)
  from rule_updates[OF demo_db_wf, where env = ?env and i = 1 and r = ?r] u old
  obtain n x where n: "id_of demo_db n = Some (r_DomainID ?old)"
    and v: "view s' = (view demo_db)(n \<mapsto> x\<lparr>s_Rules :=
      (s_Rules x)(r_Path ?old := None, r_Path ?r \<mapsto> rule_view_of ?r)\<rparr>)" by auto
  have "id_of demo_db ''old.example'' = Some (r_DomainID ?old)"
    by (simp add: id_of_def find_domain_def demo_defs)
  from id_of_inj[OF demo_db_wf n this] have "n = ''old.example''" .
  with u v show ?thesis by (simp add: demo_rule_def rule_view_of_def)
qed

section \<open>Bulk import by replacement\<close>

text \<open>C4: A replacing import is all or nothing. Whatever statement, scan or commit fails with an
  error that the code looks at, it reports an error and every table is as before. When it reports
  success and none of its two scans for orphans was cut short, the store holds exactly the
  imported entries, orphans deleted, later entries winning. The condition is needed: the code
  does not look at the error that ends a scan early (\<open>replace_cut_scan_keeps_orphans\<close>).\<close>
theorem replace_all_or_nothing:
  assumes "wf_db s" and "BulkImportReplace env es s = (r, s')"
  shows "wf_db s' \<and>
    (case r of Inl _ \<Rightarrow> same_tables s s' | Inr _ \<Rightarrow> nocut s \<longrightarrow> view s' = contents_of es)"
proof -
  have "wf_db s'" using keepsD[OF keeps_BulkImportReplace assms(1), of env es] assms(2) by simp
  then show ?thesis
    using BulkImportReplace_success[OF _ assms(1)] assms(2) transaction_error
    unfolding BulkImportReplace_def by (auto split: sum.split)
qed

definition demo_entries :: "import_entry list" where
  "demo_entries =
     [\<lparr>ie_DomainName = ''old.example'', ie_DefaultURL = ''https://moved.example'', ie_StatusCode = 0,
       ie_Enabled = None,
       ie_Rules = [\<lparr>ir_Path = ''/docs'', ir_TargetURL = ''https://d.example'', ir_StatusCode = 308,
                     ir_Priority = 5, ir_Enabled = Some False\<rparr>]\<rparr>]"

theorem replace_all_or_nothing_witness:
  "(\<exists>s'. BulkImportReplace (reference_env DialectSQLite) demo_entries demo_db = (Inr (), s') \<and>
     view s' = [''old.example'' \<mapsto>
       \<lparr>s_DefaultURL = ''https://moved.example'', s_StatusCode = 301, s_Enabled = True,
        s_Rules = [''/docs'' \<mapsto> \<lparr>v_TargetURL = ''https://d.example'', v_StatusCode = 308,
                                v_Priority = 5, v_Enabled = False\<rparr>]\<rparr>]) \<and>
   (\<exists>s'. BulkImportReplace (reference_env DialectSQLite) demo_entries
       (demo_db\<lparr>faults := [NoFault, NoFault, NoFault, Fail ''disk full'']\<rparr>)
     = (Inl (ErrMsg ''upsert rule old.example/docs: disk full''), s') \<and> view s' = view demo_db)"
proof (intro conjI)
  let ?env = "reference_env DialectSQLite"
  have nc: "nocut demo_db" by (simp add: nocut_def)
  obtain s' where s': "BulkImportReplace ?env demo_entries demo_db = (Inr (), s')"
    using BulkImportReplace_good[of demo_db ?env demo_entries] by (auto simp: good_def)
  from replace_all_or_nothing[OF demo_db_wf s'] nc s'
  show "\<exists>s'. BulkImportReplace ?env demo_entries demo_db = (Inr (), s') \<and>
     view s' = [''old.example'' \<mapsto>
       \<lparr>s_DefaultURL = ''https://moved.example'', s_StatusCode = 301, s_Enabled = True,
        s_Rules = [''/docs'' \<mapsto> \<lparr>v_TargetURL = ''https://d.example'', v_StatusCode = 308,
                                v_Priority = 5, v_Enabled = False\<rparr>]\<rparr>]"
    by (simp add: contents_of_def put_entry_def demo_entries_def default_status_def
        importEnabled_def old_rules_def view_of_import_def)
next
  let ?env = "reference_env DialectSQLite"
  let ?s = "demo_db\<lparr>faults := [NoFault, NoFault, NoFault, Fail ''disk full'']\<rparr>"
  have wf: "wf_db ?s" using fault_free_propD[OF fault_free_wf] by simp
  obtain s' where s': "BulkImportReplace ?env demo_entries ?s
      = (Inl (ErrMsg ''upsert rule old.example/docs: disk full''), s')"
    by (simp add: BulkImportReplace_def transaction_def bindE_def exec_def next_fault_def
        demo_entries_def upsert_domain_def map_err_def sql_upsert_domain_def find_domain_def
        demo_defs select_domain_id_def query_row_def Let_def wrap_err_def sql_update_domain_def
        burn_dom_seq_def)
  from replace_all_or_nothing[OF wf s'] have "same_tables ?s s'" by simp
  from view_same_tables[OF this] have "view s' = view demo_db" by simp
  with s' show "\<exists>s'. BulkImportReplace ?env demo_entries ?s
      = (Inl (ErrMsg ''upsert rule old.example/docs: disk full''), s') \<and> view s' = view demo_db"
    by blast
qed

text \<open>The orphan scans do not look at \<open>rows.Err()\<close>: when the domain scan is cut
  short, the import commits and reports success with domains left in the store that the
  import does not name.\<close>
lemma replace_cut_scan_keeps_orphans:
  "case BulkImportReplace env [] (demo_db\<lparr>faults := [NoFault, NoFault, Cut 0 ''conn reset'']\<rparr>) of
     (r, s') \<Rightarrow> r = Inr () \<and> view s' = view demo_db \<and> view s' ''old.example'' \<noteq> contents_of [] ''old.example''"
proof -
  have v: "view demo_db ''old.example'' \<noteq> None"
    by (simp add: view_def find_domain_def demo_defs)
  show ?thesis
    using v by (simp add: BulkImportReplace_def transaction_def bindE_def exec_def next_fault_def
        delete_orphan_rules_def delete_orphan_domains_def map_err_def query_def orphan_rule_ids_def
        contents_of_def)
qed

section \<open>Bulk import by addition\<close>

definition grows :: "(string \<rightharpoonup> site) \<Rightarrow> (string \<rightharpoonup> site) \<Rightarrow> bool" where
  "grows vw vw' \<longleftrightarrow>
     (\<forall>n x. vw n = Some x \<longrightarrow> (\<exists>m. vw' n = Some (x\<lparr>s_Rules := m\<rparr>) \<and> s_Rules x \<subseteq>\<^sub>m m))"

lemma grows_refl: "grows vw vw"
  unfolding grows_def
proof (intro allI impI)
  fix n x assume "vw n = Some x"
  then have "vw n = Some (x\<lparr>s_Rules := s_Rules x\<rparr>) \<and> s_Rules x \<subseteq>\<^sub>m s_Rules x" by simp
  then show "\<exists>m. vw n = Some (x\<lparr>s_Rules := m\<rparr>) \<and> s_Rules x \<subseteq>\<^sub>m m" by blast
qed

lemma growsD:
  "grows vw vw' \<Longrightarrow> vw n = Some x \<Longrightarrow> \<exists>m. vw' n = Some (x\<lparr>s_Rules := m\<rparr>) \<and> s_Rules x \<subseteq>\<^sub>m m"
  by (simp add: grows_def)

lemma grows_trans:
  assumes "grows a b" and "grows b c"
  shows "grows a c"
  unfolding grows_def
proof (intro allI impI)
  fix n x assume "a n = Some x"
  from growsD[OF assms(1) this] obtain m where m: "b n = Some (x\<lparr>s_Rules := m\<rparr>)" "s_Rules x \<subseteq>\<^sub>m m"
    by blast
  from growsD[OF assms(2) m(1)] obtain m' where
    m': "c n = Some (x\<lparr>s_Rules := m, s_Rules := m'\<rparr>)" "m \<subseteq>\<^sub>m m'" by auto
  from m'(1) have "c n = Some (x\<lparr>s_Rules := m'\<rparr>)" by simp
  with map_le_trans[OF m(2) m'(2)] show "\<exists>m. c n = Some (x\<lparr>s_Rules := m\<rparr>) \<and> s_Rules x \<subseteq>\<^sub>m m"
    by blast
qed

lemma add_rules_new_le: "m \<subseteq>\<^sub>m add_rules_new rs m"
  by (auto simp: map_le_def add_rules_new_find)

lemma grows_add_entry: "grows vw (add_entry e vw)"
proof -
  have "vw n = Some x \<Longrightarrow> \<exists>m. add_entry e vw n = Some (x\<lparr>s_Rules := m\<rparr>) \<and> s_Rules x \<subseteq>\<^sub>m m" for n x
    using grows_refl[of vw] add_rules_new_le[of "s_Rules x" "ie_Rules e"]
    by (cases "n = ie_DomainName e") (auto simp: add_entry_def grows_def)
  then show ?thesis by (simp add: grows_def)
qed

lemma grows_fold: "grows vw (fold add_entry es vw)"
proof (induction es arbitrary: vw)
  case Nil
  then show ?case by (simp add: grows_refl)
next
  case (Cons e es)
  from grows_trans[OF grows_add_entry Cons.IH] show ?case by simp
qed

lemma dom_fold_add: "dom (fold add_entry es vw) = dom vw \<union> ie_DomainName ` set es"
  by (induction es arbitrary: vw) (auto simp: add_entry_def)

text \<open>C25: A plain import only adds. When it succeeds, its result is the number of entries,
  every domain that existed keeps its target, status and flag and all its rules, and the
  named domains exist; when it fails nothing changed.\<close>
theorem import_only_adds:
  assumes "wf_db s" and "nocut s" and "BulkImport env es s = (r, s')"
  shows "case r of
      Inr k \<Rightarrow> k = int (length es) \<and>
        dom (view s') = dom (view s) \<union> ie_DomainName ` set es \<and>
        (\<forall>n x. view s n = Some x \<longrightarrow> (\<exists>m. view s' n = Some (x\<lparr>s_Rules := m\<rparr>) \<and> s_Rules x \<subseteq>\<^sub>m m))
    | Inl _ \<Rightarrow> same_tables s s'"
proof (cases r)
  case (Inl e)
  with assms(3) transaction_error show ?thesis unfolding BulkImport_def by fastforce
next
  case (Inr k)
  with BulkImport_success[OF assms(2,1)] assms(3)
  have "k = int (length es)" "view s' = fold add_entry es (view s)" by auto
  with Inr grows_fold[of "view s" es] show ?thesis by (simp add: dom_fold_add grows_def)
qed

theorem import_only_adds_witness:
  "\<exists>s'. BulkImport (reference_env DialectPostgres) demo_entries demo_db = (Inr 1, s') \<and>
    dom (view s') = {''old.example'', ''off.example''} \<and>
    map_option s_DefaultURL (view s' ''old.example'') = Some ''https://new.example''"
proof -
  let ?env = "reference_env DialectPostgres"
  have nc: "nocut demo_db" by (simp add: nocut_def)
  obtain s' where s': "BulkImport ?env demo_entries demo_db = (Inr 1, s')"
    using BulkImport_good[of demo_db ?env demo_entries] by (auto simp: good_def demo_entries_def)
  obtain x where x: "view demo_db ''old.example'' = Some x" "s_DefaultURL x = ''https://new.example''"
    by (auto simp: view_def find_domain_def demo_defs site_of_def)
  from import_only_adds[OF demo_db_wf nc s']
  have d: "dom (view s') = dom (view demo_db) \<union> ie_DomainName ` set demo_entries"
    and g: "\<forall>n x. view demo_db n = Some x \<longrightarrow>
      (\<exists>m. view s' n = Some (x\<lparr>s_Rules := m\<rparr>) \<and> s_Rules x \<subseteq>\<^sub>m m)" by auto
  from g x have "map_option s_DefaultURL (view s' ''old.example'') = Some ''https://new.example''"
    by fastforce
  moreover have "dom (view s') = {''old.example'', ''off.example''}"
    using d dom_view[of demo_db] by (auto simp: demo_defs demo_entries_def)
  ultimately show ?thesis using s' by blast
qed

text \<open>An entry that an import would not change, and stays so while the contents grow.\<close>

definition settled :: "import_entry \<Rightarrow> (string \<rightharpoonup> site) \<Rightarrow> bool" where
  "settled e vw \<longleftrightarrow> (\<exists>x. vw (ie_DomainName e) = Some x \<and>
     (\<forall>r \<in> set (ie_Rules e). s_Rules x (ir_Path r) \<noteq> None))"

lemma settled_id:
  assumes "settled e vw"
  shows "add_entry e vw = vw"
proof -
  from assms obtain x where x: "vw (ie_DomainName e) = Some x"
    "\<forall>r \<in> set (ie_Rules e). s_Rules x (ir_Path r) \<noteq> None" by (auto simp: settled_def)
  have "add_rules_new (ie_Rules e) (s_Rules x) = s_Rules x"
    using x(2) by (auto simp: fun_eq_iff add_rules_new_find find_None_iff split: option.split
        dest: find_Some_D)
  with x(1) show ?thesis by (simp add: add_entry_def fun_upd_idem)
qed

lemma settled_grows:
  assumes "settled e vw" and "grows vw vw'"
  shows "settled e vw'"
proof -
  from assms(1) obtain x where x: "vw (ie_DomainName e) = Some x"
    "\<forall>r \<in> set (ie_Rules e). s_Rules x (ir_Path r) \<noteq> None" by (auto simp: settled_def)
  from growsD[OF assms(2) x(1)] obtain m where m: "vw' (ie_DomainName e) = Some (x\<lparr>s_Rules := m\<rparr>)"
    "s_Rules x \<subseteq>\<^sub>m m" by blast
  have "m (ir_Path r) \<noteq> None" if "r \<in> set (ie_Rules e)" for r
    using x(2) that m(2) by (metis domIff map_le_implies_dom_le subsetD)
  with m(1) show ?thesis by (simp add: settled_def)
qed

lemma add_entry_settled: "settled e (add_entry e vw)"
proof -
  have "add_rules_new (ie_Rules e) m (ir_Path r) \<noteq> None" if "r \<in> set (ie_Rules e)" for m r
    using that find_is_SomeI[of r "ie_Rules e" "\<lambda>x. ir_Path x = ir_Path r"]
    by (auto simp: add_rules_new_find split: option.split)
  then show ?thesis by (simp add: settled_def add_entry_def split: option.split)
qed

lemma fold_settled: "e \<in> set es \<Longrightarrow> settled e (fold add_entry es vw)"
proof (induction es arbitrary: vw)
  case Nil
  then show ?case by simp
next
  case (Cons e' es)
  then show ?case
    using settled_grows[OF add_entry_settled grows_fold] by auto
qed

lemma fold_settled_id: "(\<And>e. e \<in> set es \<Longrightarrow> settled e vw) \<Longrightarrow> fold add_entry es vw = vw"
  by (induction es) (simp_all add: settled_id)

text \<open>A plain import is idempotent: repeating one that succeeded succeeds with the same
  count whenever it is not disturbed, and changes nothing that can be seen.\<close>
theorem import_idempotent:
  assumes "wf_db s" and "nocut s" and "BulkImport env es s = (Inr k, s')"
    and "BulkImport env es s' = (Inr k', s'')"
  shows "k' = k \<and> view s'' = view s'"
proof -
  have wf: "wf_db s'" and nc: "nocut s'"
    using keepsD[OF keeps_BulkImport assms(1), of env es] assms(3)
      transparentD(1)[OF transparent_BulkImport assms(2), of env es] by simp_all
  note first = BulkImport_success[OF assms(2,1,3)] and again = BulkImport_success[OF nc wf assms(4)]
  have "fold add_entry es (view s') = view s'"
    using first by (intro fold_settled_id) (simp add: fold_settled)
  with first again show ?thesis by simp
qed

theorem import_idempotent_witness:
  "\<exists>s' s''. BulkImport (reference_env DialectSQLite) demo_entries demo_db = (Inr 1, s') \<and>
    BulkImport (reference_env DialectSQLite) demo_entries s' = (Inr 1, s'') \<and> view s'' = view s'"
proof -
  let ?env = "reference_env DialectSQLite"
  have nc: "nocut demo_db" by (simp add: nocut_def)
  obtain s' where s': "BulkImport ?env demo_entries demo_db = (Inr 1, s')" "good s'"
    using BulkImport_good[of demo_db ?env demo_entries] by (auto simp: good_def demo_entries_def)
  obtain s'' where s'': "BulkImport ?env demo_entries s' = (Inr 1, s'')"
    using BulkImport_good[OF s'(2), of ?env demo_entries] by (auto simp: demo_entries_def)
  from import_idempotent[OF demo_db_wf nc s'(1) s''] s' s'' show ?thesis by blast
qed

section \<open>Export and import\<close>

text \<open>C7: An export of at most 10000 domains, none of whose statuses is 0, imported by
  replacement into any other store, of either dialect and under any plan without cut
  queries, gives that store the contents of the first.\<close>
theorem export_replace_round_trip:
  assumes "sql_contract env" and "wf_db s" and "nocut s" and "ExportAll env s = (Inr es, s1)"
    and "length (domains s) \<le> 10000" and "statuses_set s"
    and "wf_db t" and "nocut t" and "BulkImportReplace env' es t = (Inr u, t')"
  shows "view t' = view s"
proof (rule ext)
  fix n
  have "view t' n = contents_of (export_list env s) n"
    using BulkImportReplace_success[OF assms(8,7,9)] ExportAll_success[OF assms(3,4)] by simp
  also have "\<dots> = view s n"
    using exported_all[OF assms(5)] default_site_id[OF assms(6)]
    by (cases "view s n") (simp_all add: contents_of_export[OF assms(1,2)])
  finally show "view t' n = view s n" .
qed

theorem export_replace_round_trip_witness:
  "\<exists>es t'. ExportAll (reference_env DialectPostgres) demo_db = (Inr es, demo_db) \<and>
    BulkImportReplace (reference_env DialectSQLite) es (demo_db\<lparr>domains := [], redirect_rules := []\<rparr>)
      = (Inr (), t') \<and> view t' = view demo_db"
proof -
  let ?env = "reference_env DialectPostgres" and ?env' = "reference_env DialectSQLite"
  let ?t = "demo_db\<lparr>domains := [], redirect_rules := []\<rparr>"
  have wf: "wf_db ?t" by (simp add: wf_db_def)
  have nc: "nocut demo_db" "nocut ?t" by (simp_all add: nocut_def)
  have small: "length (domains demo_db) \<le> 10000" by (simp add: demo_db_def)
  have st: "statuses_set demo_db" by (simp add: statuses_set_def demo_defs)
  have e: "ExportAll ?env demo_db = (Inr (export_list ?env demo_db), demo_db)"
    by (rule ExportAll_Nil) simp
  obtain t' where t': "BulkImportReplace ?env' (export_list ?env demo_db) ?t = (Inr (), t')"
    using BulkImportReplace_good[of ?t ?env' "export_list ?env demo_db"] wf by (auto simp: good_def)
  from export_replace_round_trip[OF reference_env_contract demo_db_wf nc(1) e small st wf nc(2) t']
  have "view t' = view demo_db" .
  with e t' show ?thesis by blast
qed

text \<open>C26: In general the importing store ends up with the first 10000 domains of the
  exporting one in name order, and with a status of 0 replaced by 301: the other domains are
  deleted from it as orphans although the exporting store still serves them.\<close>
theorem replace_of_export_contents:
  assumes "sql_contract env" and "wf_db s" and "nocut s" and "ExportAll env s = (Inr es, s1)"
    and "wf_db t" and "nocut t" and "BulkImportReplace env' es t = (Inr u, t')"
  shows "view t' n = (if n \<in> d_Name ` set (take 10000 (by_name env (domains s)))
    then map_option default_site (view s n) else None)"
  using BulkImportReplace_success[OF assms(6,5,7)] ExportAll_success[OF assms(3,4)]
  by (simp add: contents_of_export[OF assms(1,2)] exported_def)

theorem replace_of_export_contents_witness:
  "\<exists>t'. BulkImportReplace (reference_env DialectPostgres)
         (export_list (reference_env DialectSQLite) demo_db) (demo_db\<lparr>redirect_rules := []\<rparr>) = (Inr (), t') \<and>
       view t' ''old.example'' = map_option default_site (view demo_db ''old.example'')"
proof -
  let ?env = "reference_env DialectSQLite" and ?env' = "reference_env DialectPostgres"
  let ?t = "demo_db\<lparr>redirect_rules := []\<rparr>"
  have nc: "nocut demo_db" "nocut ?t" by (simp_all add: nocut_def demo_db_def)
  have wf: "wf_db ?t" by (simp add: wf_db_def demo_defs)
  have e: "ExportAll ?env demo_db = (Inr (export_list ?env demo_db), demo_db)"
    by (rule ExportAll_Nil) simp
  obtain t' where t': "BulkImportReplace ?env' (export_list ?env demo_db) ?t = (Inr (), t')"
    using BulkImportReplace_good[of ?t ?env' "export_list ?env demo_db"] wf by (auto simp: good_def)
  have "exported ?env demo_db ''old.example''"
    by (simp add: exported_all demo_db_def view_None find_domain_None demo_domain_def)
  then have "''old.example'' \<in> d_Name ` set (take 10000 (by_name ?env (domains demo_db)))"
    by (simp only: exported_def)
  with replace_of_export_contents[OF reference_env_contract demo_db_wf nc(1) e wf nc(2) t', of "''old.example''"]
  have "view t' ''old.example'' = map_option default_site (view demo_db ''old.example'')" by simp
  with t' show ?thesis by blast
qed

text \<open>A plain import ignores the \<open>enabled\<close> fields that the export writes: an export
  imported into an empty store brings every domain and rule back enabled.\<close>
theorem import_of_export_enables_all:
  assumes "sql_contract env" and "wf_db s" and "nocut s" and "ExportAll env s = (Inr es, s1)"
    and "wf_db t" and "nocut t" and "domains t = []" and "BulkImport env' es t = (Inr k, t')"
    and "length (domains s) \<le> 10000" and "view s n = Some x"
  shows "view t' n = Some (enable_site (default_site x))"
proof -
  have "view t = Map.empty" by (rule ext) (simp add: view_def find_domain_def assms(7))
  with BulkImport_success[OF assms(6,5,8)] ExportAll_success[OF assms(3,4)]
  have "view t' n = fold add_entry (export_list env s) Map.empty n" by simp
  with assms(10) exported_all[OF assms(9)] show ?thesis
    by (simp add: import_of_export[OF assms(1,2)])
qed

theorem import_of_export_enables_all_witness:
  "\<exists>k t' x. view demo_db ''off.example'' = Some x \<and> \<not> s_Enabled x \<and>
     BulkImport (reference_env DialectPostgres) (export_list (reference_env DialectSQLite) demo_db)
       (demo_db\<lparr>domains := [], redirect_rules := []\<rparr>) = (Inr k, t') \<and>
     view t' ''off.example'' = Some (enable_site (default_site x))"
proof -
  let ?env = "reference_env DialectSQLite" and ?env' = "reference_env DialectPostgres"
  let ?t = "demo_db\<lparr>domains := [], redirect_rules := []\<rparr>"
  have nc: "nocut demo_db" "nocut ?t" by (simp_all add: nocut_def demo_db_def)
  have wf: "wf_db ?t" by (simp add: wf_db_def demo_defs)
  have e: "ExportAll ?env demo_db = (Inr (export_list ?env demo_db), demo_db)"
    by (rule ExportAll_Nil) simp
  obtain k t' where t': "BulkImport ?env' (export_list ?env demo_db) ?t = (Inr k, t')"
    using BulkImport_good[of ?t ?env' "export_list ?env demo_db"] wf by (auto simp: good_def)
  obtain x where x: "view demo_db ''off.example'' = Some x" "\<not> s_Enabled x"
    by (simp add: view_def find_domain_def demo_defs site_of_def)
  have small: "length (domains demo_db) \<le> 10000" by (simp add: demo_db_def)
  from import_of_export_enables_all[OF reference_env_contract demo_db_wf nc(1) e wf nc(2) _ t' small x(1)]
  have "view t' ''off.example'' = Some (enable_site (default_site x))" by simp
  with t' x show ?thesis by blast
qed

end
