(* ===== verification/Store_Query.thy ===== *)
theory Store_Query
  imports Store_View
begin

text \<open>
  Query construction and listing: placeholder numbering, substring search, pages.
\<close>

section \<open>Placeholders\<close>

lemma q_loop_split:
  "q_loop n sql = hd (split_on (CHR ''?'') sql) @
     concat (map (\<lambda>i. CHR ''$'' # nat_dec (n + i) @ split_on (CHR ''?'') sql ! i)
               [1..<length (split_on (CHR ''?'') sql)])"
proof (induction sql arbitrary: n)
  case Nil
  then show ?case by simp
next
  case (Cons c cs)
  obtain p ps where ps: "split_on (CHR ''?'') cs = p # ps" by (cases "split_on (CHR ''?'') cs") simp_all
  show ?case
  proof (cases "c = CHR ''?''")
    case True
    have "[1..<Suc (length (p # ps))] = 1 # map Suc [1..<length (p # ps)]"
      by (simp add: upt_conv_Cons map_Suc_upt del: upt_Suc)
    then show ?thesis using Cons[of "Suc n"] True ps by (simp del: upt_Suc add: comp_def)
  next
    case False
    have "concat (map (\<lambda>i. CHR ''$'' # nat_dec (n + i) @ ((c # p) # ps) ! i) [Suc 0..<Suc (length ps)]) =
        concat (map (\<lambda>i. CHR ''$'' # nat_dec (n + i) @ (p # ps) ! i) [Suc 0..<Suc (length ps)])"
      by (rule arg_cong[where f = concat], rule map_cong[OF refl]) (simp add: nth_Cons' del: upt_Suc)
    with False Cons[of n] ps show ?thesis by (simp del: upt_Suc)
  qed
qed

text \<open>Placeholders are numbered from left to right: for PostgreSQL the i-th question
  mark becomes \<open>$i\<close> and all other text stays; for SQLite the query is unchanged.\<close>
lemma q_numbers_placeholders:
  "q d sql =
    (if d = DialectSQLite then sql
     else hd (split_on (CHR ''?'') sql) @
       concat (map (\<lambda>i. CHR ''$'' # nat_dec i @ split_on (CHR ''?'') sql ! i)
                 [1..<length (split_on (CHR ''?'') sql)]))"
  by (simp add: q_def q_loop_split)

section \<open>Search\<close>

declare like.simps [simp del]

lemma like_Nil [simp]: "like d [] t \<longleftrightarrow> t = []"
  by (simp add: like.simps)

lemma like_percent: "like d (CHR ''%'' # p) t \<longleftrightarrow> (\<exists>u v. t = u @ v \<and> like d p v)"
proof (induction t)
  case Nil
  then show ?case by (simp add: like.simps)
next
  case (Cons c cs)
  have "(\<exists>u v. c # cs = u @ v \<and> like d p v) \<longleftrightarrow> like d p (c # cs) \<or> (\<exists>u v. cs = u @ v \<and> like d p v)"
    by (metis append_Cons append_Nil list.exhaust list.inject)
  with Cons show ?case by (simp add: like.simps)
qed

definition plain_char :: "dialect \<Rightarrow> char \<Rightarrow> bool" where
  "plain_char d c \<longleftrightarrow> c \<noteq> CHR ''%'' \<and> c \<noteq> CHR ''_'' \<and> (d = DialectPostgres \<longrightarrow> c \<noteq> CHR 0x5C)"

lemma like_plain:
  "list_all (plain_char d) s \<Longrightarrow>
   like d (s @ p) t \<longleftrightarrow> (\<exists>u v. t = u @ v \<and> list_all2 (like_char d) s u \<and> like d p v)"
proof (induction s arbitrary: t)
  case Nil
  then show ?case by simp
next
  case (Cons x xs)
  then have x: "x \<noteq> CHR ''%''" "x \<noteq> CHR ''_''" "\<not> (x = CHR 0x5C \<and> d = DialectPostgres)"
    by (auto simp: plain_char_def)
  show ?case
  proof (cases t)
    case Nil
    with x show ?thesis by (auto simp: like.simps)
  next
    case (Cons c cs)
    with x Cons.prems Cons.IH[of cs]
    have "like d ((x # xs) @ p) t \<longleftrightarrow> like_char d x c \<and>
        (\<exists>u v. cs = u @ v \<and> list_all2 (like_char d) xs u \<and> like d p v)"
      by (auto simp: like.simps)
    also have "\<dots> \<longleftrightarrow> (\<exists>u v. t = u @ v \<and> list_all2 (like_char d) (x # xs) u \<and> like d p v)"
      unfolding Cons by (auto simp: list_all2_Cons1) (metis append_Cons)+
    finally show ?thesis .
  qed
qed

text \<open>The text of a search that the engine compares: SQLite ignores ASCII case.\<close>

definition fold_case :: "dialect \<Rightarrow> string \<Rightarrow> string" where
  "fold_case d s = (if d = DialectSQLite then map ascii_lower s else s)"

lemma list_all2_like: "list_all2 (like_char d) s u \<longleftrightarrow> fold_case d s = fold_case d u"
proof (cases d)
  case DialectSQLite
  then show ?thesis
    by (simp add: like_char_def[abs_def] fold_case_def list_all2_conv_all_nth list_eq_iff_nth_eq)
      (metis nth_map)
next
  case DialectPostgres
  then show ?thesis by (simp add: like_char_def[abs_def] fold_case_def list.rel_eq)
qed

lemma like_substring:
  assumes "list_all (plain_char d) s"
  shows "like d (''%'' @ s @ ''%'') t \<longleftrightarrow> contains (fold_case d t) (fold_case d s)"
proof -
  have "like d (''%'' @ s @ ''%'') t \<longleftrightarrow>
      (\<exists>u v w. t = u @ v @ w \<and> list_all2 (like_char d) s v)"
    using like_plain[OF assms, of "''%''"] by (simp add: like_percent) blast
  also have "\<dots> \<longleftrightarrow> (\<exists>u v. fold_case d t = u @ fold_case d s @ v)"
  proof
    assume "\<exists>u v w. t = u @ v @ w \<and> list_all2 (like_char d) s v"
    then obtain u v w where "t = u @ v @ w" "fold_case d s = fold_case d v" by (auto simp: list_all2_like)
    then have "fold_case d t = fold_case d u @ fold_case d s @ fold_case d w" by (simp add: fold_case_def)
    then show "\<exists>u v. fold_case d t = u @ fold_case d s @ v" by blast
  next
    assume "\<exists>u v. fold_case d t = u @ fold_case d s @ v"
    then obtain u v where t: "fold_case d t = u @ fold_case d s @ v" by blast
    define w where "w = take (length s) (drop (length u) t)"
    have fc: "fold_case d (take i x) = take i (fold_case d x)"
      "fold_case d (drop i x) = drop i (fold_case d x)" "length (fold_case d x) = length x" for i x
      by (simp_all add: fold_case_def take_map drop_map)
    have "fold_case d w = fold_case d s" using fc(3)[of s] by (simp add: w_def fc t)
    moreover have "t = take (length u) t @ w @ drop (length s) (drop (length u) t)"
      unfolding w_def append_take_drop_id ..
    ultimately show "\<exists>u v w. t = u @ v @ w \<and> list_all2 (like_char d) s v"
      unfolding list_all2_like by metis
  qed
  finally show ?thesis by (simp add: contains_iff)
qed

text \<open>A search text without the wildcards \<open>%\<close> and \<open>_\<close> (and, on PostgreSQL, without
  a backslash) selects exactly the domains whose name contains it, up to the case of ASCII
  letters on SQLite.\<close>
lemma search_is_substring:
  assumes "list_all (plain_char (env_dialect env)) search"
  shows "search_domains env search s =
    filter (\<lambda>d. contains (fold_case (env_dialect env) (d_Name d)) (fold_case (env_dialect env) search))
      (domains s)"
proof (cases "search = []")
  case True
  have "contains t []" for t by (cases t) (simp_all add: has_prefix_def)
  with True show ?thesis by (simp add: fold_case_def)
next
  case False
  then show ?thesis using like_substring[OF assms] by (simp add: search_domains_def)
qed

theorem search_is_substring_witness:
  "map d_Name (search_domains (reference_env DialectSQLite) ''OLD.'' demo_db) = [''old.example'']"
proof -
  have "list_all (plain_char (env_dialect (reference_env DialectSQLite))) ''OLD.''"
    by (simp add: plain_char_def)
  moreover have "map ascii_lower ''OLD.'' = ''old.''"
    "map ascii_lower ''old.example'' = ''old.example''"
    "map ascii_lower ''off.example'' = ''off.example''" by code_simp+
  ultimately show ?thesis
    using search_is_substring[of "reference_env DialectSQLite" "''OLD.''" demo_db]
    by (simp only: fold_case_def reference_env_sel demo_defs)
      (simp add: has_prefix_def)
qed

section \<open>Pages\<close>

lemma pages_take: "concat (map (\<lambda>k. take l (drop (k * l) xs)) [0..<n]) = take (n * l) xs"
proof (induction n)
  case 0
  then show ?case by simp
next
  case (Suc n)
  have "take (Suc n * l) xs = take (n * l + l) xs" by (simp add: add.commute)
  with Suc show ?case by (simp add: take_add)
qed

text \<open>Reading the list page by page, with any positive page size, gives every matching
  domain exactly once, in name order, and each page reports their total number.\<close>
lemma pages_partition_the_list:
  assumes "sql_contract env" and "faults s = []" and "0 < l"
    and "length (search_domains env search s) \<le> n * l"
  defines "page \<equiv> \<lambda>k. fst (ListDomains env search (int l) (int (k * l)) s)"
  shows "(\<exists>ps. map page [0..<n] = map (\<lambda>p. Inr (p, int (length (search_domains env search s)))) ps \<and>
    mset (concat ps) = mset (search_domains env search s) \<and>
    sorted_wrt (collate env) (map d_Name (concat ps)))"
proof -
  let ?xs = "by_name env (search_domains env search s)"
  have page: "page k = Inr (take l (drop (k * l) ?xs), int (length (search_domains env search s)))" for k
    unfolding page_def using assms(2,3)
    by (simp add: ListDomains_Nil limit_offset_def nat_mult_distrib)
  have all: "concat (map (\<lambda>k. take l (drop (k * l) ?xs)) [0..<n]) = ?xs"
    using assms(4) by (simp add: pages_take)
  have "sorted_wrt (\<lambda>a b. collate env (d_Name a) (d_Name b)) ?xs"
    unfolding by_name_def
    by (rule sorted_sort_rel) (use assms(1) in \<open>auto simp: sql_contract_def transp_def\<close>)
  then have "sorted_wrt (collate env) (map d_Name ?xs)" by (simp add: sorted_wrt_map)
  then show ?thesis
    by (intro exI[of _ "map (\<lambda>k. take l (drop (k * l) ?xs)) [0..<n]"])
      (simp add: page all by_name_perm comp_def)
qed

theorem pages_partition_the_list_witness:
  "\<exists>ps. map (\<lambda>k. fst (ListDomains (reference_env DialectSQLite) [] 1 (int k) demo_db)) [0..<2] =
      map (\<lambda>p. Inr (p, 2)) ps \<and> mset (concat ps) = mset (domains demo_db) \<and>
    sorted_wrt (\<le>) (map d_Name (concat ps))"
proof -
  have len: "length (domains demo_db) = 2" by (simp add: demo_db_def)
  have "length (search_domains (reference_env DialectSQLite) [] demo_db) \<le> 2 * 1"
    using len by simp
  from pages_partition_the_list[OF reference_env_contract demo_db_faults _ this] len
  show ?thesis by simp
qed

end
