(* ===== verification/Json_Text.thy ===== *)
theory Json_Text
  imports Prelude
begin

text \<open>
  The text of Go's \<open>encoding/json\<close>: what \<open>Marshal\<close> and \<open>Encoder\<close> write, with HTML
  escaping, and what \<open>Unmarshal\<close> and \<open>Decoder\<close> read. Strings are bytes; invalid UTF-8
  becomes U+FFFD in both directions. A number keeps its literal text.
\<close>

datatype json =
    JNull
  | JBool bool
  | JNum string
  | JStr string
  | JArr "json list"
  | JObj "(string \<times> json) list"

section \<open>UTF-8\<close>

abbreviation byte :: "char \<Rightarrow> nat" where
  "byte c \<equiv> of_char c"

definition is_cont :: "char \<Rightarrow> bool" where
  "is_cont c \<longleftrightarrow> 128 \<le> byte c \<and> byte c \<le> 191"

text \<open>\<open>utf8.DecodeRune\<close>: the width of the first rune, 0 when it is not valid.\<close>

fun utf8_width :: "string \<Rightarrow> nat" where
  "utf8_width [] = 0"
| "utf8_width (c # cs) =
     (let b = byte c in
      if b < 128 then 1
      else if 194 \<le> b \<and> b \<le> 223 then
        (case cs of c1 # _ \<Rightarrow> if is_cont c1 then 2 else 0 | _ \<Rightarrow> 0)
      else if 224 \<le> b \<and> b \<le> 239 then
        (case cs of c1 # c2 # _ \<Rightarrow>
           if is_cont c1 \<and> is_cont c2 \<and> (b = 224 \<longrightarrow> 160 \<le> byte c1) \<and> (b = 237 \<longrightarrow> byte c1 \<le> 159)
           then 3 else 0 | _ \<Rightarrow> 0)
      else if 240 \<le> b \<and> b \<le> 244 then
        (case cs of c1 # c2 # c3 # _ \<Rightarrow>
           if is_cont c1 \<and> is_cont c2 \<and> is_cont c3 \<and>
              (b = 240 \<longrightarrow> 144 \<le> byte c1) \<and> (b = 244 \<longrightarrow> byte c1 \<le> 143)
           then 4 else 0 | _ \<Rightarrow> 0)
      else 0)"

lemma utf8_width_le: "utf8_width s \<le> length s"
  by (cases s) (auto simp: Let_def split: list.splits)

text \<open>A string as the runes and invalid bytes \<open>range\<close> visits.\<close>

function runes :: "string \<Rightarrow> string list" where
  "runes [] = []"
| "runes (c # cs) =
     (let w = (if utf8_width (c # cs) = 0 then 1 else utf8_width (c # cs))
      in take w (c # cs) # runes (drop w (c # cs)))"
  by pat_completeness auto
termination
  by (relation "measure length") auto

text \<open>The code point of a rune as \<open>range\<close> delivers it; an invalid byte counts as U+FFFD.\<close>

definition rune_value :: "string \<Rightarrow> nat" where
  "rune_value r =
     (if utf8_width r = 0 then 65533
      else (case map (of_char :: char \<Rightarrow> nat) r of
              [a] \<Rightarrow> a
            | [a, b] \<Rightarrow> (a - 192) * 64 + (b - 128)
            | [a, b, c] \<Rightarrow> (a - 224) * 4096 + (b - 128) * 64 + (c - 128)
            | [a, b, c, d] \<Rightarrow> (a - 240) * 262144 + (b - 128) * 4096 + (c - 128) * 64 + (d - 128)
            | _ \<Rightarrow> 65533))"

definition replacement :: string where
  "replacement = [CHR 0xEF, CHR 0xBF, CHR 0xBD]"

definition clean_rune :: "string \<Rightarrow> string" where
  "clean_rune r = (if utf8_width r = 0 then replacement else r)"

definition to_valid_utf8 :: "string \<Rightarrow> string" where
  "to_valid_utf8 s = concat (map clean_rune (runes s))"

definition valid_utf8 :: "string \<Rightarrow> bool" where
  "valid_utf8 s \<longleftrightarrow> (\<forall>r \<in> set (runes s). utf8_width r \<noteq> 0)"

lemma concat_runes: "concat (runes s) = s"
  by (induction s rule: runes.induct) (simp_all add: Let_def)

lemma to_valid_id: "valid_utf8 s \<Longrightarrow> to_valid_utf8 s = s"
proof -
  assume "valid_utf8 s"
  then have "map clean_rune (runes s) = runes s"
    by (intro map_idI) (auto simp: clean_rune_def valid_utf8_def)
  then show ?thesis by (simp add: to_valid_utf8_def concat_runes)
qed

lemma utf8_width_prefix:
  assumes "utf8_width s \<noteq> 0" and "w = utf8_width s"
  shows "utf8_width (take w s) = w"
proof (cases s)
  case Nil
  with assms show ?thesis by simp
next
  case (Cons c cs)
  with assms show ?thesis
    by (auto simp: Let_def numeral_eq_Suc split: list.splits if_splits)
qed

lemma utf8_width_append:
  assumes "utf8_width r = length r" and "r \<noteq> []"
  shows "utf8_width (r @ t) = length r"
proof -
  obtain c cs where r: "r = c # cs" using assms(2) by (cases r) auto
  show ?thesis using assms(1) unfolding r
    by (auto simp: Let_def split: list.splits if_splits)
qed

text \<open>A rune is one byte, or a valid sequence of two to four bytes.\<close>

definition is_rune :: "string \<Rightarrow> bool" where
  "is_rune r \<longleftrightarrow> r \<noteq> [] \<and> (length r = 1 \<or> utf8_width r = length r)"

lemma runes_are_runes: "r \<in> set (runes s) \<Longrightarrow> is_rune r"
proof (induction s rule: runes.induct)
  case 1
  then show ?case by simp
next
  case (2 c cs)
  define w where "w = (if utf8_width (c # cs) = 0 then 1 else utf8_width (c # cs))"
  have w: "0 < w" "w \<le> length (c # cs)" using utf8_width_le[of "c # cs"] by (auto simp: w_def)
  have runes: "runes (c # cs) = take w (c # cs) # runes (drop w (c # cs))"
    by (simp add: w_def Let_def)
  have "is_rune (take w (c # cs))"
  proof (cases "utf8_width (c # cs) = 0")
    case True
    then show ?thesis by (simp add: is_rune_def w_def)
  next
    case False
    then have "utf8_width (take w (c # cs)) = w"
      by (intro utf8_width_prefix) (simp_all add: w_def)
    with w show ?thesis by (simp add: is_rune_def min_def)
  qed
  with "2.IH"[OF w_def] "2.prems" runes show ?case by auto
qed

section \<open>Strings\<close>

definition hex_digit :: "nat \<Rightarrow> char" where
  "hex_digit n = (if n < 10 then char_of (48 + n) else char_of (87 + n))"

definition hex_val :: "char \<Rightarrow> nat option" where
  "hex_val c =
     (let b = byte c in
      if 48 \<le> b \<and> b \<le> 57 then Some (b - 48)
      else if 97 \<le> b \<and> b \<le> 102 then Some (b - 87)
      else if 65 \<le> b \<and> b \<le> 70 then Some (b - 55)
      else None)"

definition escape_u :: "nat \<Rightarrow> string" where
  "escape_u n =
     [CHR 0x5C, CHR ''u'', hex_digit (n div 4096), hex_digit (n div 256 mod 16),
      hex_digit (n div 16 mod 16), hex_digit (n mod 16)]"

text \<open>\<open>appendString\<close> with \<open>escapeHTML\<close>, on one rune or invalid byte.\<close>

definition quote_rune :: "string \<Rightarrow> string" where
  "quote_rune r =
     (case r of
        [c] \<Rightarrow>
          (let b = byte c in
           if b \<ge> 128 then escape_u 65533
           else if b = 34 \<or> b = 92 then [CHR 0x5C, c]
           else if b = 8 then [CHR 0x5C, CHR ''b'']
           else if b = 12 then [CHR 0x5C, CHR ''f'']
           else if b = 10 then [CHR 0x5C, CHR ''n'']
           else if b = 13 then [CHR 0x5C, CHR ''r'']
           else if b = 9 then [CHR 0x5C, CHR ''t'']
           else if b < 32 \<or> b = 60 \<or> b = 62 \<or> b = 38 then escape_u b
           else [c])
      | _ \<Rightarrow> (if r = [CHR 0xE2, CHR 0x80, CHR 0xA8] then escape_u 8232
              else if r = [CHR 0xE2, CHR 0x80, CHR 0xA9] then escape_u 8233
              else r))"

definition quote :: "string \<Rightarrow> string" where
  "quote s = CHR 0x22 # concat (map quote_rune (runes s)) @ [CHR 0x22]"

definition encode_rune :: "nat \<Rightarrow> string" where
  "encode_rune n =
     (if n < 128 then [char_of n]
      else if n < 2048 then [char_of (192 + n div 64), char_of (128 + n mod 64)]
      else if n < 65536 then
        [char_of (224 + n div 4096), char_of (128 + n div 64 mod 64), char_of (128 + n mod 64)]
      else [char_of (240 + n div 262144), char_of (128 + n div 4096 mod 64),
            char_of (128 + n div 64 mod 64), char_of (128 + n mod 64)])"

text \<open>\<open>getu4\<close>: the value of \<open>\uXXXX\<close> at the front.\<close>

fun getu4 :: "string \<Rightarrow> (nat \<times> string) option" where
  "getu4 (a # b # c # d # e # f # rest) =
     (if a = CHR 0x5C \<and> b = CHR ''u'' then
        (case (hex_val c, hex_val d, hex_val e, hex_val f) of
           (Some p, Some q, Some r, Some s) \<Rightarrow> Some (4096 * p + 256 * q + 16 * r + s, rest)
         | _ \<Rightarrow> None)
      else None)"
| "getu4 _ = None"

lemma getu4_length: "getu4 s = Some (n, rest) \<Longrightarrow> length s = length rest + 6"
  by (induction s rule: getu4.induct) (auto split: if_splits option.splits)

text \<open>A backslash and what follows; a lone surrogate half becomes U+FFFD.\<close>

definition unescape :: "string \<Rightarrow> (string \<times> string) option" where
  "unescape s =
     (case s of
        b # c # rest \<Rightarrow>
          (if c = CHR 0x22 \<or> c = CHR 0x5C \<or> c = CHR ''/'' then Some ([c], rest)
           else if c = CHR ''b'' then Some ([CHR 0x08], rest)
           else if c = CHR ''f'' then Some ([CHR 0x0C], rest)
           else if c = CHR ''n'' then Some ([CHR 0x0A], rest)
           else if c = CHR ''r'' then Some ([CHR 0x0D], rest)
           else if c = CHR ''t'' then Some ([CHR 0x09], rest)
           else
             (case getu4 s of
                None \<Rightarrow> None
              | Some (n, rest1) \<Rightarrow>
                  if 55296 \<le> n \<and> n < 57344 then
                    (case getu4 rest1 of
                       Some (m, rest2) \<Rightarrow>
                         if n < 56320 \<and> 56320 \<le> m \<and> m < 57344
                         then Some (encode_rune (65536 + (n - 55296) * 1024 + (m - 56320)), rest2)
                         else Some (replacement, rest1)
                     | None \<Rightarrow> Some (replacement, rest1))
                  else Some (encode_rune n, rest1)))
      | _ \<Rightarrow> None)"

lemma unescape_length: "unescape s = Some (bs, rest) \<Longrightarrow> length rest < length s"
  by (auto simp: unescape_def split: list.splits if_splits option.splits
      dest!: getu4_length)

text \<open>The body of a string up to its closing quote, and the text after it.\<close>

function lex_str :: "string \<Rightarrow> (string \<times> string) option" where
  "lex_str [] = None"
| "lex_str (c # cs) =
     (if c = CHR 0x22 then Some ([], cs)
      else if c = CHR 0x5C then
        (case unescape (c # cs) of
           None \<Rightarrow> None
         | Some (bs, rest) \<Rightarrow> map_option (\<lambda>(a, r). (bs @ a, r)) (lex_str rest))
      else if byte c < 32 then None
      else if utf8_width (c # cs) = 0
        then map_option (\<lambda>(a, r). (replacement @ a, r)) (lex_str cs)
      else map_option (\<lambda>(a, r). (take (utf8_width (c # cs)) (c # cs) @ a, r))
             (lex_str (drop (utf8_width (c # cs)) (c # cs))))"
  by pat_completeness auto
termination
  by (relation "measure length") (auto dest: unescape_length)

lemma hex_val_digit [simp]: "n < 16 \<Longrightarrow> hex_val (hex_digit n) = Some n"
  by (auto simp: hex_val_def hex_digit_def Let_def)

lemma hex4:
  fixes n :: nat
  shows "4096 * (n div 4096) + 256 * (n div 256 mod 16) + 16 * (n div 16 mod 16) + n mod 16 = n"
proof -
  define a b c where "a = n div 16" and "b = a div 16" and "c = b div 16"
  have abc: "n div 256 = b" "n div 4096 = c"
    unfolding a_def b_def c_def by (simp_all add: div_mult2_eq[symmetric])
  have "n = 16 * a + n mod 16" "a = 16 * b + a mod 16" "b = 16 * c + b mod 16"
    unfolding a_def b_def c_def by simp_all
  then show ?thesis unfolding abc a_def[symmetric] by linarith
qed

lemma getu4_escape:
  assumes "n < 65536"
  shows "getu4 (escape_u n @ t) = Some (n, t)"
proof -
  from assms have "n div 4096 < 16" by (simp add: less_mult_imp_div_less)
  then have "getu4 (escape_u n @ t) =
      Some (4096 * (n div 4096) + 256 * (n div 256 mod 16) + 16 * (n div 16 mod 16) + n mod 16, t)"
    by (simp add: escape_u_def)
  then show ?thesis by (simp only: hex4)
qed

lemma lex_escape_u:
  assumes "n < 65536" and "\<not> (55296 \<le> n \<and> n < 57344)"
  shows "lex_str (escape_u n @ t) = map_option (\<lambda>(a, r). (encode_rune n @ a, r)) (lex_str t)"
proof -
  obtain a b c d where e: "escape_u n = [CHR 0x5C, CHR ''u'', a, b, c, d]" by (simp add: escape_u_def)
  have "unescape (escape_u n @ t) = Some (encode_rune n, t)"
    using getu4_escape[OF assms(1), of t] assms(2) unfolding e by (auto simp: unescape_def)
  then show ?thesis unfolding e by simp
qed

lemma encode_ascii: "byte c < 128 \<Longrightarrow> encode_rune (byte c) = [c]"
  by (simp add: encode_rune_def)

lemma clean_ascii: "byte c < 128 \<Longrightarrow> clean_rune [c] = [c]"
  by (simp add: clean_rune_def)

lemma char_of_byte: "byte c = n \<Longrightarrow> char_of n = c"
  by auto

lemma byte_lits:
  "byte c = 8 \<longleftrightarrow> c = CHR 0x08" "byte c = 9 \<longleftrightarrow> c = CHR 0x09" "byte c = 10 \<longleftrightarrow> c = CHR 0x0A"
  "byte c = 12 \<longleftrightarrow> c = CHR 0x0C" "byte c = 13 \<longleftrightarrow> c = CHR 0x0D" "byte c = 34 \<longleftrightarrow> c = CHR 0x22"
  "byte c = 92 \<longleftrightarrow> c = CHR 0x5C"
  using of_char_eq_iff[of c "CHR 0x08", where 'a = nat] of_char_eq_iff[of c "CHR 0x09", where 'a = nat]
    of_char_eq_iff[of c "CHR 0x0A", where 'a = nat] of_char_eq_iff[of c "CHR 0x0C", where 'a = nat]
    of_char_eq_iff[of c "CHR 0x0D", where 'a = nat] of_char_eq_iff[of c "CHR 0x22", where 'a = nat]
    of_char_eq_iff[of c "CHR 0x5C", where 'a = nat]
  by (simp_all del: of_char_eq_iff)

lemma encode_specials:
  "encode_rune 65533 = replacement"
  "encode_rune 8232 = [CHR 0xE2, CHR 0x80, CHR 0xA8]"
  "encode_rune 8233 = [CHR 0xE2, CHR 0x80, CHR 0xA9]"
  by (simp_all add: encode_rune_def replacement_def char_of_byte)

lemma lex_quote_byte:
  "lex_str (quote_rune [c] @ t) = map_option (\<lambda>(a, x). (clean_rune [c] @ a, x)) (lex_str t)"
proof (cases "byte c < 128")
  case False
  then have "utf8_width [c] = 0" by (simp add: Let_def)
  with False lex_escape_u[of 65533 t] show ?thesis
    by (simp add: quote_rune_def clean_rune_def encode_specials)
next
  case True
  consider "byte c \<in> {8, 9, 10, 12, 13, 34, 92}"
    | "byte c < 32 \<or> byte c \<in> {60, 62, 38}" "byte c \<notin> {8, 9, 10, 12, 13, 34, 92}"
    | "\<not> (byte c < 32 \<or> byte c \<in> {60, 62, 38})" "byte c \<notin> {8, 9, 10, 12, 13, 34, 92}"
    by blast
  then show ?thesis
  proof cases
    case 1
    then have "c \<in> {CHR 0x08, CHR 0x09, CHR 0x0A, CHR 0x0C, CHR 0x0D, CHR 0x22, CHR 0x5C}"
      by (simp add: byte_lits)
    then show ?thesis using clean_ascii[OF True]
      by (auto simp: quote_rune_def unescape_def)
  next
    case 2
    then have "quote_rune [c] = escape_u (byte c)"
      using True by (auto simp: quote_rune_def Let_def)
    then show ?thesis
      using lex_escape_u[of "byte c" t] True by (simp add: encode_ascii clean_ascii)
  next
    case 3
    then have "quote_rune [c] = [c]" "c \<noteq> CHR 0x22" "c \<noteq> CHR 0x5C" "\<not> byte c < 32"
      using True by (auto simp: quote_rune_def Let_def)
    then show ?thesis using True by (simp add: clean_ascii)
  qed
qed

lemma lex_quote_rune:
  assumes "is_rune r"
  shows "lex_str (quote_rune r @ t) = map_option (\<lambda>(a, x). (clean_rune r @ a, x)) (lex_str t)"
proof (cases "length r = 1")
  case True
  then obtain c where "r = [c]" by (cases r) auto
  then show ?thesis by (simp only: lex_quote_byte)
next
  case False
  with assms have w: "utf8_width r = length r" and ne: "r \<noteq> []" by (auto simp: is_rune_def)
  obtain c d cs where r: "r = c # d # cs"
    using False ne by (cases r; cases "tl r") auto
  have big: "\<not> byte c < 128" using w r by (auto simp: Let_def)
  then have nc: "c \<noteq> CHR 0x22" "c \<noteq> CHR 0x5C" "\<not> byte c < 32" by auto
  have clean: "clean_rune r = r" using w ne by (simp add: clean_rune_def)
  have id: "lex_str (r @ t) = map_option (\<lambda>(a, x). (r @ a, x)) (lex_str t)"
    using nc utf8_width_append[OF w ne, of t] ne unfolding r by (simp del: utf8_width.simps)
  consider "r = [CHR 0xE2, CHR 0x80, CHR 0xA8]" | "r = [CHR 0xE2, CHR 0x80, CHR 0xA9]"
    | "r \<noteq> [CHR 0xE2, CHR 0x80, CHR 0xA8]" "r \<noteq> [CHR 0xE2, CHR 0x80, CHR 0xA9]" by blast
  then show ?thesis
  proof cases
    case 1
    then have "quote_rune r = escape_u 8232" by (simp add: quote_rune_def)
    with 1 clean lex_escape_u[of 8232 t] show ?thesis by (simp add: encode_specials)
  next
    case 2
    then have "quote_rune r = escape_u 8233" by (simp add: quote_rune_def)
    with 2 clean lex_escape_u[of 8233 t] show ?thesis by (simp add: encode_specials)
  next
    case 3
    then have "quote_rune r = r" by (auto simp: quote_rune_def r)
    with id clean show ?thesis by simp
  qed
qed

theorem lex_quote:
  "lex_str (concat (map quote_rune (runes s)) @ CHR 0x22 # t) = Some (to_valid_utf8 s, t)"
proof -
  have "(\<forall>r \<in> set rs. is_rune r) \<Longrightarrow>
      lex_str (concat (map quote_rune rs) @ CHR 0x22 # t) = Some (concat (map clean_rune rs), t)" for rs
    by (induction rs) (simp_all add: lex_quote_rune)
  then show ?thesis using runes_are_runes by (simp add: to_valid_utf8_def)
qed

section \<open>Tokens\<close>

datatype token =
    TNull | TTrue | TFalse | TNum string | TStr string
  | TLBracket | TRBracket | TLBrace | TRBrace | TComma | TColon | TErr

definition is_ws :: "char \<Rightarrow> bool" where
  "is_ws c \<longleftrightarrow> c = CHR '' '' \<or> c = CHR 0x09 \<or> c = CHR 0x0A \<or> c = CHR 0x0D"

definition lex_int :: "string \<Rightarrow> (string \<times> string) option" where
  "lex_int s =
     (case s of
        [] \<Rightarrow> None
      | c # cs \<Rightarrow>
          if c = CHR ''0'' then Some ([c], cs)
          else if is_digit c then Some (takeWhile is_digit s, dropWhile is_digit s)
          else None)"

definition lex_frac :: "string \<Rightarrow> (string \<times> string) option" where
  "lex_frac s =
     (case s of
        [] \<Rightarrow> Some ([], [])
      | c # cs \<Rightarrow>
          if c = CHR ''.'' then
            (if takeWhile is_digit cs = [] then None
             else Some (c # takeWhile is_digit cs, dropWhile is_digit cs))
          else Some ([], s))"

definition lex_exp :: "string \<Rightarrow> (string \<times> string) option" where
  "lex_exp s =
     (case s of
        [] \<Rightarrow> Some ([], [])
      | c # cs \<Rightarrow>
          if c = CHR ''e'' \<or> c = CHR ''E'' then
            (let sg = (case cs of x # _ \<Rightarrow> if x = CHR ''+'' \<or> x = CHR ''-'' then [x] else [] | [] \<Rightarrow> []);
                 ds = drop (length sg) cs
             in if takeWhile is_digit ds = [] then None
                else Some (c # sg @ takeWhile is_digit ds, dropWhile is_digit ds))
          else Some ([], s))"

text \<open>A number literal, kept as text.\<close>

definition lex_num :: "string \<Rightarrow> (string \<times> string) option" where
  "lex_num s =
     (let sg = (case s of c # _ \<Rightarrow> if c = CHR ''-'' then [c] else [] | [] \<Rightarrow> []) in
      case lex_int (drop (length sg) s) of
        None \<Rightarrow> None
      | Some (i, s1) \<Rightarrow>
          (case lex_frac s1 of
             None \<Rightarrow> None
           | Some (f, s2) \<Rightarrow>
               (case lex_exp s2 of
                  None \<Rightarrow> None
                | Some (e, s3) \<Rightarrow> Some (sg @ i @ f @ e, s3))))"

lemma lex_str_length: "lex_str s = Some (a, r) \<Longrightarrow> length r < length s"
proof (induction s arbitrary: a rule: lex_str.induct)
  case 1
  then show ?case by simp
next
  case (2 c cs)
  then show ?case
    by (fastforce split: if_splits option.splits dest: unescape_length simp del: utf8_width.simps)
qed

lemma lex_num_length:
  assumes "lex_num s = Some (l, r)"
  shows "length r < length s"
proof -
  have i: "lex_int x = Some (y, z) \<Longrightarrow> length z < length x" for x y z
    unfolding lex_int_def
    by (cases x) (auto split: if_splits intro: le_imp_less_Suc length_dropWhile_le)
  have f: "lex_frac x = Some (y, z) \<Longrightarrow> length z \<le> length x" for x y z
    unfolding lex_frac_def
    by (cases x) (auto split: if_splits intro: le_SucI length_dropWhile_le)
  have e: "lex_exp x = Some (y, z) \<Longrightarrow> length z \<le> length x" for x y z
    unfolding lex_exp_def Let_def
    by (auto split: if_splits list.splits
        intro: le_SucI order_trans[OF length_dropWhile_le])
  from assms obtain i' s1 f' s2 e' where
    "lex_int (drop (length (case s of c # _ \<Rightarrow> if c = CHR ''-'' then [c] else [] | [] \<Rightarrow> [])) s) = Some (i', s1)"
    "lex_frac s1 = Some (f', s2)" "lex_exp s2 = Some (e', r)"
    by (auto simp: lex_num_def Let_def split: option.splits prod.splits)
  from i[OF this(1)] f[OF this(2)] e[OF this(3)] show ?thesis by simp
qed

text \<open>Everything after a lexical error is out of reach, as for Go's scanner.\<close>

function tokens :: "string \<Rightarrow> token list" where
  "tokens [] = []"
| "tokens (c # cs) =
     (if is_ws c then tokens cs
      else if c = CHR ''{'' then TLBrace # tokens cs
      else if c = CHR ''}'' then TRBrace # tokens cs
      else if c = CHR ''['' then TLBracket # tokens cs
      else if c = CHR '']'' then TRBracket # tokens cs
      else if c = CHR '','' then TComma # tokens cs
      else if c = CHR '':'' then TColon # tokens cs
      else if c = CHR 0x22 then
        (case lex_str cs of None \<Rightarrow> [TErr] | Some (s, r) \<Rightarrow> TStr s # tokens r)
      else if has_prefix (c # cs) ''null'' then TNull # tokens (drop 3 cs)
      else if has_prefix (c # cs) ''true'' then TTrue # tokens (drop 3 cs)
      else if has_prefix (c # cs) ''false'' then TFalse # tokens (drop 4 cs)
      else (case lex_num (c # cs) of None \<Rightarrow> [TErr] | Some (l, r) \<Rightarrow> TNum l # tokens r))"
  by pat_completeness auto
termination
  by (relation "measure length") (auto dest: lex_str_length lex_num_length)

section \<open>The grammar\<close>

text \<open>Open arrays and objects, the elements read so far in reverse.\<close>

datatype ctx = CArr "json list" | CObj "(string \<times> json) list" string

definition max_depth :: nat where
  "max_depth = 10000"

text \<open>The key of the next member, when a string and a colon follow.\<close>

definition next_key :: "token list \<Rightarrow> (string \<times> token list) option" where
  "next_key ts =
     (case ts of TStr k # c # ts' \<Rightarrow> if c = TColon then Some (k, ts') else None | _ \<Rightarrow> None)"

lemma next_key_length: "next_key ts = Some (k, ts') \<Longrightarrow> length ts' < length ts"
  by (auto simp: next_key_def split: list.splits token.splits if_splits)

function pvalue :: "ctx list \<Rightarrow> token list \<Rightarrow> (json \<times> token list) option"
  and pafter :: "ctx list \<Rightarrow> json \<Rightarrow> token list \<Rightarrow> (json \<times> token list) option"
where
  "pvalue st ts =
     (case ts of
        [] \<Rightarrow> None
      | t # ts' \<Rightarrow>
          (case t of
             TNull \<Rightarrow> pafter st JNull ts'
           | TTrue \<Rightarrow> pafter st (JBool True) ts'
           | TFalse \<Rightarrow> pafter st (JBool False) ts'
           | TNum l \<Rightarrow> pafter st (JNum l) ts'
           | TStr s \<Rightarrow> pafter st (JStr s) ts'
           | TLBracket \<Rightarrow>
               (if max_depth \<le> length st then None
                else if ts' \<noteq> [] \<and> hd ts' = TRBracket then pafter st (JArr []) (tl ts')
                else pvalue (CArr [] # st) ts')
           | TLBrace \<Rightarrow>
               (if max_depth \<le> length st then None
                else if ts' \<noteq> [] \<and> hd ts' = TRBrace then pafter st (JObj []) (tl ts')
                else (case next_key ts' of
                        None \<Rightarrow> None
                      | Some (k, ts'') \<Rightarrow> pvalue (CObj [] k # st) ts''))
           | _ \<Rightarrow> None))"
| "pafter st v ts =
     (case st of
        [] \<Rightarrow> Some (v, ts)
      | CArr vs # st' \<Rightarrow>
          (case ts of
             [] \<Rightarrow> None
           | t # ts' \<Rightarrow>
               if t = TComma then pvalue (CArr (v # vs) # st') ts'
               else if t = TRBracket then pafter st' (JArr (rev (v # vs))) ts'
               else None)
      | CObj ms k # st' \<Rightarrow>
          (case ts of
             [] \<Rightarrow> None
           | t # ts' \<Rightarrow>
               if t = TComma then
                 (case next_key ts' of
                    None \<Rightarrow> None
                  | Some (k', ts'') \<Rightarrow> pvalue (CObj ((k, v) # ms) k' # st') ts'')
               else if t = TRBrace then pafter st' (JObj (rev ((k, v) # ms))) ts'
               else None))"
  by pat_completeness auto
termination
  by (relation "measure (case_sum (\<lambda>(st, ts). length ts) (\<lambda>(st, v, ts). length ts))")
    (auto dest: next_key_length)

declare pvalue.simps [simp del] pafter.simps [simp del]

text \<open>\<open>json.NewDecoder(r).Decode(&v)\<close> reads the first value and ignores what follows;
  \<open>json.Unmarshal\<close> allows only white space after it.\<close>

definition json_decode :: "string \<Rightarrow> json option" where
  "json_decode s = map_option fst (pvalue [] (tokens s))"

definition json_unmarshal :: "string \<Rightarrow> json option" where
  "json_unmarshal s =
     (case pvalue [] (tokens s) of Some (v, []) \<Rightarrow> Some v | _ \<Rightarrow> None)"

fun json_marshal :: "json \<Rightarrow> string" where
  "json_marshal JNull = ''null''"
| "json_marshal (JBool b) = (if b then ''true'' else ''false'')"
| "json_marshal (JNum l) = l"
| "json_marshal (JStr s) = quote s"
| "json_marshal (JArr vs) = CHR ''['' # join_on (CHR '','') (map json_marshal vs) @ '']''"
| "json_marshal (JObj ms) =
     CHR ''{'' # join_on (CHR '','') (map (\<lambda>(k, v). quote k @ '':'' @ json_marshal v) ms) @ ''}''"

section \<open>Round trip\<close>

text \<open>Values the program writes: whole numbers, valid UTF-8.\<close>

fun json_ok :: "json \<Rightarrow> bool" where
  "json_ok (JNum l) = (\<exists>i. l = int_dec i)"
| "json_ok (JStr s) = valid_utf8 s"
| "json_ok (JArr vs) = list_all json_ok vs"
| "json_ok (JObj ms) = list_all (\<lambda>(k, v). valid_utf8 k \<and> json_ok v) ms"
| "json_ok _ = True"

fun json_depth :: "json \<Rightarrow> nat" where
  "json_depth (JArr vs) = Suc (fold max (map json_depth vs) 0)"
| "json_depth (JObj ms) = Suc (fold max (map (\<lambda>(k, v). json_depth v) ms) 0)"
| "json_depth _ = 0"

definition commas :: "token list list \<Rightarrow> token list" where
  "commas xs = (case xs of [] \<Rightarrow> [] | x # ys \<Rightarrow> x @ concat (map (\<lambda>y. TComma # y) ys))"

fun toks :: "json \<Rightarrow> token list" where
  "toks JNull = [TNull]"
| "toks (JBool b) = [if b then TTrue else TFalse]"
| "toks (JNum l) = [TNum l]"
| "toks (JStr s) = [TStr s]"
| "toks (JArr vs) = TLBracket # commas (map toks vs) @ [TRBracket]"
| "toks (JObj ms) = TLBrace # commas (map (\<lambda>(k, v). TStr k # TColon # toks v) ms) @ [TRBrace]"

lemma join_on_Cons: "join_on c (x # xs) = x @ concat (map (\<lambda>y. c # y) xs)"
  by (induction xs arbitrary: x) auto

lemma le_fold_max:
  fixes a :: nat
  shows "a \<le> fold max xs a \<and> (x \<in> set xs \<longrightarrow> x \<le> fold max xs a)"
proof (induction xs arbitrary: a)
  case Nil
  then show ?case by simp
next
  case (Cons y ys)
  from Cons[of "max y a"] show ?case by auto
qed

text \<open>What may follow a number.\<close>

definition delim :: "string \<Rightarrow> bool" where
  "delim t \<longleftrightarrow> t = [] \<or> hd t \<in> {CHR '','', CHR '']'', CHR ''}'', CHR 0x0A}"

lemma nat_dec_zero: "hd (nat_dec n) = CHR ''0'' \<longleftrightarrow> n = 0"
proof (induction n rule: nat_dec.induct)
  case (1 n)
  show ?case
  proof (cases "n < 10")
    case True
    have "digit_char n = CHR ''0'' \<longleftrightarrow> n = 0"
      using of_char_digit_char[OF True] of_char_digit_char[of 0]
        of_char_eq_iff[of "digit_char n" "CHR ''0''", where 'a = nat] by auto
    with True show ?thesis by (simp add: nat_dec.simps[of n])
  next
    case False
    with 1 have "hd (nat_dec (n div 10)) = CHR ''0'' \<longleftrightarrow> n div 10 = 0" by simp
    moreover have "n div 10 \<noteq> 0" "n \<noteq> 0" using False by (auto simp: div_eq_0_iff)
    ultimately show ?thesis using False by (simp add: nat_dec.simps[of n])
  qed
qed

lemma nat_dec_0: "nat_dec 0 = ''0''"
  by (simp add: nat_dec.simps digit_char_def char_of_byte)

lemma lex_int_nat_dec:
  assumes "t = [] \<or> \<not> is_digit (hd t)"
  shows "lex_int (nat_dec n @ t) = Some (nat_dec n, t)"
proof (cases "n = 0")
  case True
  then show ?thesis by (simp add: nat_dec_0 lex_int_def)
next
  case False
  obtain c cs where c: "nat_dec n = c # cs" by (cases "nat_dec n") simp_all
  have "c \<noteq> CHR ''0''" using nat_dec_zero[of n] False c by simp
  moreover have ds: "\<forall>x \<in> set (nat_dec n). is_digit x" using nat_dec_digits by blast
  moreover have "takeWhile is_digit (nat_dec n @ t) = nat_dec n" "dropWhile is_digit (nat_dec n @ t) = t"
    using ds assms by (cases t; simp add: takeWhile_append2 dropWhile_append2)+
  ultimately show ?thesis using c by (simp add: lex_int_def)
qed

lemma lex_num_int_dec:
  assumes "delim t"
  shows "lex_num (int_dec i @ t) = Some (int_dec i, t)"
proof -
  have nd: "t = [] \<or> \<not> is_digit (hd t)" using assms by (auto simp: delim_def is_digit_def)
  have "lex_frac t = Some ([], t)" "lex_exp t = Some ([], t)"
    using assms by (cases t; auto simp: delim_def lex_frac_def lex_exp_def)+
  moreover have "hd (nat_dec n) \<noteq> CHR ''-''" for n
    using hd_nat_dec_digit[of n] not_digit_minus by metis
  moreover obtain c cs where c: "nat_dec (nat i) = c # cs" by (cases "nat_dec (nat i)") simp_all
  ultimately have "c \<noteq> CHR ''-''" "lex_frac t = Some ([], t)" "lex_exp t = Some ([], t)"
    by (metis list.sel(1))+
  then show ?thesis
    using lex_int_nat_dec[OF nd, of "nat i"] lex_int_nat_dec[OF nd, of "nat (- i)"] c
    by (cases "i < 0") (simp_all add: lex_num_def int_dec_def Let_def)
qed

lemma tokens_num:
  assumes "delim t"
  shows "tokens (int_dec i @ t) = TNum (int_dec i) # tokens t"
proof -
  obtain c cs where c: "int_dec i = c # cs" by (cases "int_dec i") (auto simp: int_dec_def split: if_splits)
  have "is_digit c \<or> c = CHR ''-''"
    using c hd_nat_dec_digit[of "nat i"] by (cases "i < 0") (auto simp: int_dec_def)
  then have ne: "\<not> is_ws c" "c \<noteq> CHR ''{''" "c \<noteq> CHR ''}''" "c \<noteq> CHR ''[''" "c \<noteq> CHR '']''"
    "c \<noteq> CHR '',''" "c \<noteq> CHR '':''" "c \<noteq> CHR 0x22" "c \<noteq> CHR ''n''" "c \<noteq> CHR ''t''" "c \<noteq> CHR ''f''"
    by (auto simp: is_digit_def is_ws_def)
  then have "\<not> has_prefix (c # cs @ t) ''null''" "\<not> has_prefix (c # cs @ t) ''true''"
    "\<not> has_prefix (c # cs @ t) ''false''" by (auto simp: has_prefix_def)
  with ne lex_num_int_dec[OF assms, of i] show ?thesis unfolding c by simp
qed

lemma tokens_quote: "valid_utf8 s \<Longrightarrow> tokens (quote s @ t) = TStr s # tokens t"
  using lex_quote[of s t] by (simp add: quote_def is_ws_def to_valid_id)

lemma delim_seps: "delim (CHR '','' # t)" "delim (CHR '']'' # t)" "delim (CHR ''}'' # t)" "delim []"
  by (simp_all add: delim_def)

lemma tokens_seps:
  "tokens (CHR '','' # t) = TComma # tokens t" "tokens (CHR '']'' # t) = TRBracket # tokens t"
  "tokens (CHR ''}'' # t) = TRBrace # tokens t" "tokens (CHR ''['' # t) = TLBracket # tokens t"
  "tokens (CHR ''{'' # t) = TLBrace # tokens t" "tokens (CHR '':'' # t) = TColon # tokens t"
  by (simp_all add: is_ws_def)

lemma tokens_join:
  assumes "\<And>x t. x \<in> set xs \<Longrightarrow> delim t \<Longrightarrow> tokens (f x @ t) = g x @ tokens t" and "delim t"
  shows "tokens (join_on (CHR '','') (map f xs) @ t) = commas (map g xs) @ tokens t"
proof (cases xs)
  case Nil
  then show ?thesis by (simp add: commas_def)
next
  case (Cons x ys)
  have rest: "\<forall>y \<in> set zs. y \<in> set xs \<Longrightarrow>
      tokens (concat (map (\<lambda>y. CHR '','' # y) (map f zs)) @ t) =
        concat (map (\<lambda>y. TComma # y) (map g zs)) @ tokens t \<and>
      delim (concat (map (\<lambda>y. CHR '','' # y) (map f zs)) @ t)" for zs
    using assms by (induction zs) (simp_all add: tokens_seps delim_seps del: tokens.simps)
  show ?thesis
    using assms(1)[of x] rest[of ys] Cons by (simp add: join_on_Cons commas_def)
qed

lemma tokens_marshal:
  "json_ok j \<Longrightarrow> delim t \<Longrightarrow> tokens (json_marshal j @ t) = toks j @ tokens t"
proof (induction j arbitrary: t)
  case JNull
  then show ?case by (simp add: is_ws_def has_prefix_def)
next
  case (JBool b)
  then show ?case by (simp add: is_ws_def has_prefix_def)
next
  case (JNum l)
  then show ?case by (auto simp: tokens_num simp del: tokens.simps)
next
  case (JStr s)
  then show ?case by (simp add: tokens_quote del: tokens.simps)
next
  case (JArr vs)
  have "tokens (join_on (CHR '','') (map json_marshal vs) @ CHR '']'' # t) =
      commas (map toks vs) @ tokens (CHR '']'' # t)"
    by (rule tokens_join) (use JArr in \<open>auto simp: delim_seps list_all_iff\<close>)
  then show ?case by (simp add: tokens_seps del: tokens.simps)
next
  case (JObj ms)
  let ?f = "\<lambda>(k, v). quote k @ '':'' @ json_marshal v"
  let ?g = "\<lambda>(k, v). TStr k # TColon # toks v"
  have "tokens (?f x @ t) = ?g x @ tokens t" if "x \<in> set ms" "delim t" for x t
  proof (cases x)
    case (Pair k v)
    with JObj.prems(1) that(1) have "valid_utf8 k" "json_ok v" by (auto simp: list_all_iff)
    with JObj.IH[of x v t] that Pair show ?thesis
      by (simp add: tokens_quote tokens_seps del: tokens.simps)
  qed
  from tokens_join[OF this delim_seps(3)]
  have "tokens (join_on (CHR '','') (map ?f ms) @ CHR ''}'' # t) =
      commas (map ?g ms) @ tokens (CHR ''}'' # t)" .
  then show ?case by (simp add: tokens_seps del: tokens.simps)
qed

lemma pvalue_simps:
  "pvalue st (TNull # ts) = pafter st JNull ts"
  "pvalue st (TTrue # ts) = pafter st (JBool True) ts"
  "pvalue st (TFalse # ts) = pafter st (JBool False) ts"
  "pvalue st (TNum l # ts) = pafter st (JNum l) ts"
  "pvalue st (TStr s # ts) = pafter st (JStr s) ts"
  by (simp_all add: pvalue.simps)

lemma pafter_simps:
  "pafter (CArr vs # st) v (TComma # ts) = pvalue (CArr (v # vs) # st) ts"
  "pafter (CArr vs # st) v (TRBracket # ts) = pafter st (JArr (rev vs @ [v])) ts"
  "pafter (CObj ms k # st) v (TComma # TStr k' # TColon # ts) = pvalue (CObj ((k, v) # ms) k' # st) ts"
  "pafter (CObj ms k # st) v (TRBrace # ts) = pafter st (JObj (rev ms @ [(k, v)])) ts"
  by (simp_all add: pafter.simps next_key_def)

lemma toks_first: "\<exists>t ts. toks j = t # ts \<and> t \<noteq> TRBracket \<and> t \<noteq> TRBrace"
  by (cases j) auto

lemma parse_elems:
  assumes "\<And>v st ts. v \<in> set vs \<Longrightarrow> length st + m \<le> max_depth \<Longrightarrow>
      pvalue st (toks v @ ts) = pafter st v ts"
    and "Suc (length st) + m \<le> max_depth" and "vs \<noteq> []"
  shows "pvalue (CArr acc # st) (commas (map toks vs) @ TRBracket # ts) =
    pafter st (JArr (rev acc @ vs)) ts"
proof -
  have step: "v \<in> set vs \<Longrightarrow> pvalue (CArr acc # st) (toks v @ ts) = pafter (CArr acc # st) v ts"
    for v acc ts using assms(1)[of v "CArr acc # st" ts] assms(2) by simp
  have rest: "set ws \<subseteq> set vs \<Longrightarrow> v \<in> set vs \<Longrightarrow>
      pafter (CArr acc # st) v (concat (map (\<lambda>y. TComma # y) (map toks ws)) @ TRBracket # ts) =
      pafter st (JArr (rev acc @ v # ws)) ts" for ws v acc
    by (induction ws arbitrary: v acc) (simp_all add: pafter_simps step)
  from assms(3) obtain w ws where vs: "vs = w # ws" by (cases vs) auto
  then show ?thesis using rest[of ws w acc] step[of w acc] by (auto simp: commas_def)
qed

lemma parse_members:
  assumes "\<And>k v st ts. (k, v) \<in> set ms \<Longrightarrow> length st + m \<le> max_depth \<Longrightarrow>
      pvalue st (toks v @ ts) = pafter st v ts"
    and "Suc (length st) + m \<le> max_depth"
  shows "set ws \<subseteq> set ms \<Longrightarrow> (k, v) \<in> set ms \<Longrightarrow>
    pvalue (CObj acc k # st) (toks v @
      concat (map (\<lambda>y. TComma # y) (map (\<lambda>(k, v). TStr k # TColon # toks v) ws)) @ TRBrace # ts) =
    pafter st (JObj (rev acc @ (k, v) # ws)) ts"
proof (induction ws arbitrary: k v acc)
  case Nil
  then show ?case using assms(1)[of k v "CObj acc k # st"] assms(2) by (simp add: pafter_simps)
next
  case (Cons w ws)
  obtain k' v' where w: "w = (k', v')" by fastforce
  have "pvalue (CObj acc k # st) (toks v @ TComma # TStr k' # TColon # xs) =
      pvalue (CObj ((k, v) # acc) k' # st) xs" for xs
    using assms(1)[of k v "CObj acc k # st"] assms(2) Cons.prems(2) by (simp add: pafter_simps)
  then show ?case using Cons.IH[of k' v' "(k, v) # acc"] Cons.prems by (simp add: w)
qed

lemma parse_toks:
  "length st + json_depth j \<le> max_depth \<Longrightarrow> pvalue st (toks j @ ts) = pafter st j ts"
proof (induction j arbitrary: st ts)
  case (JArr vs)
  let ?m = "fold max (map json_depth vs) 0"
  have m: "json_depth v \<le> ?m" if "v \<in> set vs" for v
    using le_fold_max[of 0 "map json_depth vs" "json_depth v"] that by simp
  have IH: "pvalue st (toks v @ ts) = pafter st v ts"
    if "v \<in> set vs" "length st + ?m \<le> max_depth" for v st ts
    using JArr.IH[OF that(1)] m[OF that(1)] that(2) by simp
  have d: "\<not> max_depth \<le> length st" "Suc (length st) + ?m \<le> max_depth" using JArr.prems by auto
  show ?case
  proof (cases "vs = []")
    case True
    with d show ?thesis by (simp add: pvalue.simps[of st] commas_def)
  next
    case False
    then obtain w ws where vs: "vs = w # ws" by (cases vs) auto
    obtain t us where t: "toks w = t # us" "t \<noteq> TRBracket" using toks_first[of w] by blast
    have "pvalue st (TLBracket # commas (map toks vs) @ TRBracket # ts) =
        pvalue (CArr [] # st) (commas (map toks vs) @ TRBracket # ts)"
      using d t vs by (simp add: pvalue.simps[of st] commas_def)
    moreover have "\<dots> = pafter st (JArr (rev [] @ vs)) ts"
      by (rule parse_elems[OF IH d(2) False])
    ultimately show ?thesis by simp
  qed
next
  case (JObj ms)
  let ?m = "fold max (map (\<lambda>(k, v). json_depth v) ms) 0"
  have m: "json_depth v \<le> ?m" if "(k, v) \<in> set ms" for k v
    using le_fold_max[of 0 "map (\<lambda>(k, v). json_depth v) ms" "json_depth v"] that by force
  have IH: "pvalue st (toks v @ ts) = pafter st v ts"
    if "(k, v) \<in> set ms" "length st + ?m \<le> max_depth" for k v st ts
    using JObj.IH[OF that(1), of v] m[OF that(1)] that(2) by simp
  have d: "\<not> max_depth \<le> length st" "Suc (length st) + ?m \<le> max_depth" using JObj.prems by auto
  show ?case
  proof (cases ms)
    case Nil
    with d show ?thesis by (simp add: pvalue.simps[of st] commas_def)
  next
    case (Cons w ws)
    obtain k v where w: "w = (k, v)" by fastforce
    have "pvalue st (toks (JObj ms) @ ts) =
        pvalue (CObj [] k # st) (toks v @
          concat (map (\<lambda>y. TComma # y) (map (\<lambda>(k, v). TStr k # TColon # toks v) ws)) @ TRBrace # ts)"
      using d Cons w by (simp add: pvalue.simps[of st] commas_def next_key_def)
    moreover have "\<dots> = pafter st (JObj (rev [] @ (k, v) # ws)) ts"
    proof (rule parse_members[OF _ d(2)])
      fix k v ts and st :: "ctx list"
      assume "(k, v) \<in> set ms" and "length st + ?m \<le> max_depth"
      then show "pvalue st (toks v @ ts) = pafter st v ts" by (rule IH)
    qed (simp_all add: Cons w subset_insertI)
    ultimately show ?thesis using Cons w by simp
  qed
qed (simp_all add: pvalue_simps)

lemma tokens_newline: "tokens [CHR 0x0A] = []"
  by (simp add: is_ws_def)

lemma unmarshal_marshal:
  assumes "json_ok j" and "json_depth j \<le> max_depth"
  shows "json_unmarshal (json_marshal j) = Some j"
proof -
  have "tokens (json_marshal j) = toks j" using tokens_marshal[OF assms(1) delim_seps(4)] by simp
  with parse_toks[of "[]" j "[]"] assms(2) show ?thesis
    by (simp add: json_unmarshal_def pafter.simps)
qed

end
