(* ===== verification/Json.thy ===== *)
theory Json
  imports Json_Text Store_Bulk
begin

text \<open>
  How \<open>encoding/json\<close> maps the structs of the store, by their tags: decoding of request
  bodies and of the published object, and the values the handlers and \<open>Publish\<close> encode.
\<close>

section \<open>Decoding into structs\<close>

text \<open>Decoding overwrites an existing value; \<open>null\<close> leaves strings, numbers and flags alone.\<close>

definition set_str :: "((string \<Rightarrow> string) \<Rightarrow> 'a \<Rightarrow> 'a) \<Rightarrow> json \<Rightarrow> 'a \<Rightarrow> 'a option" where
  "set_str upd j x = (case j of JStr s \<Rightarrow> Some (upd (\<lambda>_. s) x) | JNull \<Rightarrow> Some x | _ \<Rightarrow> None)"

definition set_int :: "((int \<Rightarrow> int) \<Rightarrow> 'a \<Rightarrow> 'a) \<Rightarrow> json \<Rightarrow> 'a \<Rightarrow> 'a option" where
  "set_int upd j x =
     (case j of
        JNum l \<Rightarrow> (case parse_int l of (v, err) \<Rightarrow> if err then None else Some (upd (\<lambda>_. v) x))
      | JNull \<Rightarrow> Some x
      | _ \<Rightarrow> None)"

definition set_bool :: "((bool \<Rightarrow> bool) \<Rightarrow> 'a \<Rightarrow> 'a) \<Rightarrow> json \<Rightarrow> 'a \<Rightarrow> 'a option" where
  "set_bool upd j x = (case j of JBool b \<Rightarrow> Some (upd (\<lambda>_. b) x) | JNull \<Rightarrow> Some x | _ \<Rightarrow> None)"

definition set_bool_ptr ::
  "((bool option \<Rightarrow> bool option) \<Rightarrow> 'a \<Rightarrow> 'a) \<Rightarrow> json \<Rightarrow> 'a \<Rightarrow> 'a option" where
  "set_bool_ptr upd j x =
     (case j of JBool b \<Rightarrow> Some (upd (\<lambda>_. Some b) x) | JNull \<Rightarrow> Some (upd (\<lambda>_. None) x) | _ \<Rightarrow> None)"

text \<open>Elements of an array are decoded over those the slice has already.\<close>

fun decode_elems :: "(json \<Rightarrow> 'a \<Rightarrow> 'a option) \<Rightarrow> 'a \<Rightarrow> json list \<Rightarrow> 'a list \<Rightarrow> 'a list option" where
  "decode_elems f z [] old = Some []"
| "decode_elems f z (j # js) old =
     (case f j (case old of [] \<Rightarrow> z | x # _ \<Rightarrow> x) of
        None \<Rightarrow> None
      | Some y \<Rightarrow> map_option (\<lambda>ys. y # ys) (decode_elems f z js (tl old)))"

definition decode_slice :: "(json \<Rightarrow> 'a \<Rightarrow> 'a option) \<Rightarrow> 'a \<Rightarrow> json \<Rightarrow> 'a list \<Rightarrow> 'a list option" where
  "decode_slice f z j old =
     (case j of JArr js \<Rightarrow> decode_elems f z js old | JNull \<Rightarrow> Some [] | _ \<Rightarrow> None)"

text \<open>
  \<open>foldName\<close>: keys match field names up to case. Of the letters outside ASCII only the long
  s (U+017F) and the Kelvin sign (U+212A) fold to ASCII ones.
\<close>

fun fold_name :: "string \<Rightarrow> string" where
  "fold_name [] = []"
| "fold_name (c # cs) =
     (if c = CHR 0xC5 \<and> cs \<noteq> [] \<and> hd cs = CHR 0xBF then CHR ''s'' # fold_name (tl cs)
      else if c = CHR 0xE2 \<and> has_prefix cs [CHR 0x84, CHR 0xAA] then CHR ''k'' # fold_name (drop 2 cs)
      else ascii_lower c # fold_name cs)"

definition lookup_field :: "(string \<times> 'f) list \<Rightarrow> string \<Rightarrow> 'f option" where
  "lookup_field fs k =
     (case List.find (\<lambda>(n, f). n = k) fs of
        Some (n, f) \<Rightarrow> Some f
      | None \<Rightarrow> map_option snd (List.find (\<lambda>(n, f). fold_name n = fold_name k) fs))"

text \<open>Unknown keys are ignored, repeated keys decoded in order; a type mismatch is an error.\<close>

fun decode_fields ::
  "(string \<times> (json \<Rightarrow> 'a \<Rightarrow> 'a option)) list \<Rightarrow> (string \<times> json) list \<Rightarrow> 'a \<Rightarrow> 'a option" where
  "decode_fields fs [] x = Some x"
| "decode_fields fs ((k, j) # ms) x =
     (case lookup_field fs k of
        None \<Rightarrow> decode_fields fs ms x
      | Some f \<Rightarrow> (case f j x of None \<Rightarrow> None | Some x' \<Rightarrow> decode_fields fs ms x'))"

definition decode_struct ::
  "(string \<times> (json \<Rightarrow> 'a \<Rightarrow> 'a option)) list \<Rightarrow> json \<Rightarrow> 'a \<Rightarrow> 'a option" where
  "decode_struct fs j x =
     (case j of JObj ms \<Rightarrow> decode_fields fs ms x | JNull \<Rightarrow> Some x | _ \<Rightarrow> None)"

section \<open>The structs\<close>

definition zero_domain :: domain where
  "zero_domain = \<lparr>d_ID = 0, d_Name = [], d_DefaultURL = [], d_StatusCode = 0, d_Enabled = False,
     d_CreatedAt = [], d_UpdatedAt = []\<rparr>"

definition domain_fields :: "(string \<times> (json \<Rightarrow> domain \<Rightarrow> domain option)) list" where
  "domain_fields =
     [(''id'', set_int d_ID_update), (''name'', set_str d_Name_update),
      (''default_url'', set_str d_DefaultURL_update), (''status_code'', set_int d_StatusCode_update),
      (''enabled'', set_bool d_Enabled_update), (''created_at'', set_str d_CreatedAt_update),
      (''updated_at'', set_str d_UpdatedAt_update)]"

definition zero_rule :: redirect_rule where
  "zero_rule = \<lparr>r_ID = 0, r_DomainID = 0, r_Path = [], r_TargetURL = [], r_StatusCode = 0,
     r_Priority = 0, r_Enabled = False, r_CreatedAt = [], r_UpdatedAt = []\<rparr>"

definition rule_fields :: "(string \<times> (json \<Rightarrow> redirect_rule \<Rightarrow> redirect_rule option)) list" where
  "rule_fields =
     [(''id'', set_int r_ID_update), (''domain_id'', set_int r_DomainID_update),
      (''path'', set_str r_Path_update), (''target_url'', set_str r_TargetURL_update),
      (''status_code'', set_int r_StatusCode_update), (''priority'', set_int r_Priority_update),
      (''enabled'', set_bool r_Enabled_update), (''created_at'', set_str r_CreatedAt_update),
      (''updated_at'', set_str r_UpdatedAt_update)]"

definition zero_import_rule :: import_rule where
  "zero_import_rule = \<lparr>ir_Path = [], ir_TargetURL = [], ir_StatusCode = 0, ir_Priority = 0,
     ir_Enabled = None\<rparr>"

definition import_rule_fields :: "(string \<times> (json \<Rightarrow> import_rule \<Rightarrow> import_rule option)) list" where
  "import_rule_fields =
     [(''path'', set_str ir_Path_update), (''target_url'', set_str ir_TargetURL_update),
      (''status_code'', set_int ir_StatusCode_update), (''priority'', set_int ir_Priority_update),
      (''enabled'', set_bool_ptr ir_Enabled_update)]"

definition zero_entry :: import_entry where
  "zero_entry = \<lparr>ie_DomainName = [], ie_DefaultURL = [], ie_StatusCode = 0, ie_Enabled = None,
     ie_Rules = []\<rparr>"

definition set_rules :: "json \<Rightarrow> import_entry \<Rightarrow> import_entry option" where
  "set_rules j e =
     map_option (\<lambda>rs. e\<lparr>ie_Rules := rs\<rparr>)
       (decode_slice (decode_struct import_rule_fields) zero_import_rule j (ie_Rules e))"

definition entry_fields :: "(string \<times> (json \<Rightarrow> import_entry \<Rightarrow> import_entry option)) list" where
  "entry_fields =
     [(''domain'', set_str ie_DomainName_update), (''default_url'', set_str ie_DefaultURL_update),
      (''status_code'', set_int ie_StatusCode_update), (''enabled'', set_bool_ptr ie_Enabled_update),
      (''rules'', set_rules)]"

definition decode_domain :: "json \<Rightarrow> domain option" where
  "decode_domain j = decode_struct domain_fields j zero_domain"

definition decode_rule :: "json \<Rightarrow> redirect_rule option" where
  "decode_rule j = decode_struct rule_fields j zero_rule"

definition decode_entries :: "json \<Rightarrow> import_entry list option" where
  "decode_entries j = decode_slice (decode_struct entry_fields) zero_entry j []"

section \<open>Encoding\<close>

text \<open>A slice without elements is nil wherever the program encodes one.\<close>

definition jslice :: "('a \<Rightarrow> json) \<Rightarrow> 'a list \<Rightarrow> json" where
  "jslice f xs = (if xs = [] then JNull else JArr (map f xs))"

definition jint :: "int \<Rightarrow> json" where
  "jint i = JNum (int_dec i)"

definition domain_members :: "domain \<Rightarrow> (string \<times> json) list" where
  "domain_members d =
     [(''id'', jint (d_ID d)), (''name'', JStr (d_Name d)), (''default_url'', JStr (d_DefaultURL d)),
      (''status_code'', jint (d_StatusCode d)), (''enabled'', JBool (d_Enabled d)),
      (''created_at'', JStr (d_CreatedAt d)), (''updated_at'', JStr (d_UpdatedAt d))]"

definition encode_domain :: "domain \<Rightarrow> json" where
  "encode_domain d = JObj (domain_members d)"

definition encode_rule :: "redirect_rule \<Rightarrow> json" where
  "encode_rule r = JObj
     [(''id'', jint (r_ID r)), (''domain_id'', jint (r_DomainID r)), (''path'', JStr (r_Path r)),
      (''target_url'', JStr (r_TargetURL r)), (''status_code'', jint (r_StatusCode r)),
      (''priority'', jint (r_Priority r)), (''enabled'', JBool (r_Enabled r)),
      (''created_at'', JStr (r_CreatedAt r)), (''updated_at'', JStr (r_UpdatedAt r))]"

text \<open>The embedded \<open>Domain\<close> is flattened; \<open>hit_count\<close> is omitted when 0.\<close>

definition encode_domain_with_rules :: "domain_with_rules \<Rightarrow> json" where
  "encode_domain_with_rules d = JObj
     (domain_members (dr_Domain d) @ [(''rules'', jslice encode_rule (dr_Rules d))] @
      (if dr_HitCount d = 0 then [] else [(''hit_count'', jint (dr_HitCount d))]))"

definition opt_enabled :: "bool option \<Rightarrow> (string \<times> json) list" where
  "opt_enabled b = (case b of None \<Rightarrow> [] | Some v \<Rightarrow> [(''enabled'', JBool v)])"

definition encode_import_rule :: "import_rule \<Rightarrow> json" where
  "encode_import_rule r = JObj
     ([(''path'', JStr (ir_Path r)), (''target_url'', JStr (ir_TargetURL r)),
       (''status_code'', jint (ir_StatusCode r)), (''priority'', jint (ir_Priority r))] @
      opt_enabled (ir_Enabled r))"

definition encode_entry :: "import_entry \<Rightarrow> json" where
  "encode_entry e = JObj
     ([(''domain'', JStr (ie_DomainName e)), (''default_url'', JStr (ie_DefaultURL e)),
       (''status_code'', jint (ie_StatusCode e))] @ opt_enabled (ie_Enabled e) @
      [(''rules'', jslice encode_import_rule (ie_Rules e))])"

text \<open>\<open>json.Marshal(entries)\<close> and \<open>json.Unmarshal(data, &entries)\<close>.\<close>

definition marshal_entries :: "import_entry list \<Rightarrow> string" where
  "marshal_entries es = json_marshal (jslice encode_entry es)"

definition unmarshal_entries :: "string \<Rightarrow> import_entry list option" where
  "unmarshal_entries s =
     (case json_unmarshal s of None \<Rightarrow> None | Some j \<Rightarrow> decode_entries j)"

section \<open>Round trip of entries\<close>

definition is_int64 :: "int \<Rightarrow> bool" where
  "is_int64 i \<longleftrightarrow> min_int64 \<le> i \<and> i \<le> max_int64"

definition import_rule_ok :: "import_rule \<Rightarrow> bool" where
  "import_rule_ok r \<longleftrightarrow> valid_utf8 (ir_Path r) \<and> valid_utf8 (ir_TargetURL r) \<and>
     is_int64 (ir_StatusCode r) \<and> is_int64 (ir_Priority r)"

definition entry_ok :: "import_entry \<Rightarrow> bool" where
  "entry_ok e \<longleftrightarrow> valid_utf8 (ie_DomainName e) \<and> valid_utf8 (ie_DefaultURL e) \<and>
     is_int64 (ie_StatusCode e) \<and> list_all import_rule_ok (ie_Rules e)"

lemma set_int_jint [simp]: "is_int64 i \<Longrightarrow> set_int upd (jint i) x = Some (upd (\<lambda>_. i) x)"
  by (simp add: set_int_def jint_def is_int64_def parse_int_int_dec)

lemma set_str_JStr [simp]: "set_str upd (JStr s) x = Some (upd (\<lambda>_. s) x)"
  by (simp add: set_str_def)

lemma set_bool_JBool [simp]:
  "set_bool upd (JBool b) x = Some (upd (\<lambda>_. b) x)"
  "set_bool_ptr updp (JBool b) x = Some (updp (\<lambda>_. Some b) x)"
  by (simp_all add: set_bool_def set_bool_ptr_def)

lemma lookup_entry_fields [simp]:
  "lookup_field import_rule_fields ''path'' = Some (set_str ir_Path_update)"
  "lookup_field import_rule_fields ''target_url'' = Some (set_str ir_TargetURL_update)"
  "lookup_field import_rule_fields ''status_code'' = Some (set_int ir_StatusCode_update)"
  "lookup_field import_rule_fields ''priority'' = Some (set_int ir_Priority_update)"
  "lookup_field import_rule_fields ''enabled'' = Some (set_bool_ptr ir_Enabled_update)"
  "lookup_field entry_fields ''domain'' = Some (set_str ie_DomainName_update)"
  "lookup_field entry_fields ''default_url'' = Some (set_str ie_DefaultURL_update)"
  "lookup_field entry_fields ''status_code'' = Some (set_int ie_StatusCode_update)"
  "lookup_field entry_fields ''enabled'' = Some (set_bool_ptr ie_Enabled_update)"
  "lookup_field entry_fields ''rules'' = Some set_rules"
  by (simp_all add: lookup_field_def import_rule_fields_def entry_fields_def)

lemma decode_import_rule:
  "import_rule_ok r \<Longrightarrow>
   decode_struct import_rule_fields (encode_import_rule r) zero_import_rule = Some r"
  by (cases "ir_Enabled r")
    (simp_all add: decode_struct_def encode_import_rule_def opt_enabled_def import_rule_ok_def
      zero_import_rule_def)

lemma decode_elems_map:
  assumes "\<And>x. x \<in> set xs \<Longrightarrow> f (g x) z = Some x"
  shows "decode_elems f z (map g xs) [] = Some xs"
  using assms by (induction xs) simp_all

lemma decode_slice_jslice:
  "(\<And>x. x \<in> set xs \<Longrightarrow> f (g x) z = Some x) \<Longrightarrow> decode_slice f z (jslice g xs) [] = Some xs"
  by (simp add: decode_slice_def jslice_def decode_elems_map)

lemma decode_entry:
  assumes "entry_ok e"
  shows "decode_struct entry_fields (encode_entry e) zero_entry = Some e"
proof -
  have rules: "decode_slice (decode_struct import_rule_fields) zero_import_rule
      (jslice encode_import_rule (ie_Rules e)) [] = Some (ie_Rules e)"
    using assms by (intro decode_slice_jslice decode_import_rule) (simp add: entry_ok_def list_all_iff)
  show ?thesis
    using assms rules
    by (cases "ie_Enabled e")
      (simp_all add: decode_struct_def encode_entry_def opt_enabled_def entry_ok_def zero_entry_def
        set_rules_def)
qed

lemma jslice_ok:
  "(\<And>x. x \<in> set xs \<Longrightarrow> json_ok (f x)) \<Longrightarrow> json_ok (jslice f xs)"
  by (simp add: jslice_def list_all_iff)

lemma fold_max_le:
  fixes a m :: nat
  shows "a \<le> m \<Longrightarrow> (\<And>x. x \<in> set xs \<Longrightarrow> x \<le> m) \<Longrightarrow> fold max xs a \<le> m"
  by (induction xs arbitrary: a) auto

lemma jslice_depth:
  "(\<And>x. x \<in> set xs \<Longrightarrow> json_depth (f x) \<le> n) \<Longrightarrow> json_depth (jslice f xs) \<le> Suc n"
  by (auto simp: jslice_def intro!: fold_max_le)

lemma valid_utf8_ascii: "\<forall>c \<in> set s. byte c < 128 \<Longrightarrow> valid_utf8 s"
proof -
  have "\<forall>c \<in> set s. byte c < 128 \<Longrightarrow> r \<in> set (runes s) \<Longrightarrow> utf8_width r \<noteq> 0" for r
    by (induction s rule: runes.induct) auto
  then show "\<forall>c \<in> set s. byte c < 128 \<Longrightarrow> valid_utf8 s" by (simp add: valid_utf8_def)
qed

lemma encode_import_rule_ok: "import_rule_ok r \<Longrightarrow> json_ok (encode_import_rule r)"
  by (auto simp: encode_import_rule_def import_rule_ok_def jint_def opt_enabled_def
      intro!: valid_utf8_ascii split: option.split)

lemma encode_entry_ok: "entry_ok e \<Longrightarrow> json_ok (encode_entry e)"
  by (auto simp: encode_entry_def entry_ok_def jint_def opt_enabled_def list_all_iff
      intro!: valid_utf8_ascii jslice_ok encode_import_rule_ok split: option.split)

lemma encode_import_rule_depth: "json_depth (encode_import_rule r) = 1"
  by (simp add: encode_import_rule_def opt_enabled_def jint_def split: option.split)

lemma encode_entry_depth: "json_depth (encode_entry e) \<le> 3"
proof -
  have "json_depth (jslice encode_import_rule (ie_Rules e)) \<le> Suc 1"
    by (rule jslice_depth) (simp add: encode_import_rule_depth)
  then show ?thesis
    by (auto simp: encode_entry_def opt_enabled_def jint_def split: option.split)
qed

lemma entries_round_trip:
  assumes "list_all entry_ok es"
  shows "unmarshal_entries (marshal_entries es) = Some es"
proof -
  have "json_ok (jslice encode_entry es)"
    using assms by (intro jslice_ok encode_entry_ok) (simp add: list_all_iff)
  moreover have "json_depth (jslice encode_entry es) \<le> Suc 3"
    by (rule jslice_depth) (rule encode_entry_depth)
  ultimately have "json_unmarshal (marshal_entries es) = Some (jslice encode_entry es)"
    unfolding marshal_entries_def by (intro unmarshal_marshal) (simp_all add: max_depth_def)
  moreover have "decode_entries (jslice encode_entry es) = Some es"
    unfolding decode_entries_def
    using assms by (intro decode_slice_jslice decode_entry) (simp add: list_all_iff)
  ultimately show ?thesis by (simp add: unmarshal_entries_def)
qed

text \<open>A decoder of a stream accepts every text that is a whole value.\<close>

lemma unmarshal_decode:
  "unmarshal_entries s = Some es \<Longrightarrow> Option.bind (json_decode s) decode_entries = Some es"
  by (auto simp: unmarshal_entries_def json_unmarshal_def json_decode_def
      split: option.splits prod.splits list.splits)

section \<open>Fields that a body leaves out\<close>

text \<open>No key of the object names the field, in any case of the letters.\<close>

definition lacks :: "(string \<times> json) list \<Rightarrow> string \<Rightarrow> bool" where
  "lacks ms n \<longleftrightarrow> (\<forall>(k, j) \<in> set ms. fold_name k \<noteq> fold_name n)"

lemma lookup_field_name:
  assumes "lookup_field fs k = Some f"
  obtains n where "(n, f) \<in> set fs" and "fold_name n = fold_name k"
  using assms unfolding lookup_field_def
  by (auto split: option.splits dest!: find_Some_D)

lemma domain_field_keeps:
  assumes "(n, f) \<in> set domain_fields" and "f j x = Some y"
  shows "n \<noteq> ''default_url'' \<Longrightarrow> d_DefaultURL y = d_DefaultURL x"
    and "n \<noteq> ''status_code'' \<Longrightarrow> d_StatusCode y = d_StatusCode x"
    and "n \<noteq> ''enabled'' \<Longrightarrow> d_Enabled y = d_Enabled x"
  using assms
  by (auto simp: domain_fields_def set_str_def set_int_def set_bool_def
      split: json.splits prod.splits if_splits)

lemma decode_domain_fields_lacks:
  assumes "decode_fields domain_fields ms x = Some y"
  shows "(lacks ms ''default_url'' \<longrightarrow> d_DefaultURL y = d_DefaultURL x) \<and>
    (lacks ms ''status_code'' \<longrightarrow> d_StatusCode y = d_StatusCode x) \<and>
    (lacks ms ''enabled'' \<longrightarrow> d_Enabled y = d_Enabled x)"
  using assms
proof (induction ms arbitrary: x)
  case Nil
  then show ?case by simp
next
  case (Cons m ms)
  obtain k j where m: "m = (k, j)" by fastforce
  have tail: "lacks (m # ms) n \<Longrightarrow> lacks ms n" for n by (simp add: lacks_def)
  show ?case
  proof (cases "lookup_field domain_fields k")
    case None
    with Cons.IH[of x] Cons.prems m tail show ?thesis by auto
  next
    case (Some f)
    with Cons.prems m obtain x1 where x1: "f j x = Some x1" "decode_fields domain_fields ms x1 = Some y"
      by (auto split: option.splits)
    from lookup_field_name[OF Some] obtain n where n: "(n, f) \<in> set domain_fields" "fold_name n = fold_name k" .
    have "lacks (m # ms) n' \<Longrightarrow> n \<noteq> n'" for n' using n(2) by (auto simp: lacks_def m)
    with domain_field_keeps[OF n(1) x1(1)] Cons.IH[OF x1(2)] tail show ?thesis by metis
  qed
qed

end
