(* ===== verification/Sync.thy ===== *)
theory Sync
  imports Engine Json Store_Export
begin

text \<open>
  \<open>internal/sync/sync.go\<close>: control planes publish an export of their store to one object in
  an S3 bucket; every node polls the object's ETag and, when it changed, replaces its store
  by the object's entries and reloads its engine. The S3 client is not part of the
  repository: it is the parameter \<open>s3\<close>, whose documented behaviour is \<open>s3_contract\<close>.
\<close>

section \<open>The interface of the store\<close>

text \<open>
  What replication needs of a store: an export denotes the contents, a replacing import
  makes the contents those denoted, or leaves them when it fails.
\<close>

locale snapshot_store =
  fixes export :: "'s \<Rightarrow> ('err + 'e) \<times> 's"
    and replace :: "'e \<Rightarrow> 's \<Rightarrow> ('err + 'u) \<times> 's"
    and contents :: "'s \<Rightarrow> 'v" and denotes :: "'e \<Rightarrow> 'v"
    and ok :: "'s \<Rightarrow> bool" and complete :: "'s \<Rightarrow> bool"
  assumes export_keeps: "ok s \<Longrightarrow> export s = (r, s') \<Longrightarrow> ok s' \<and> contents s' = contents s"
    and export_denotes: "ok s \<Longrightarrow> complete s \<Longrightarrow> export s = (Inr e, s') \<Longrightarrow> denotes e = contents s"
    and replace_success: "ok s \<Longrightarrow> replace e s = (Inr u, s') \<Longrightarrow> contents s' = denotes e"
    and replace_failure: "ok s \<Longrightarrow> replace e s = (Inl x, s') \<Longrightarrow> contents s' = contents s"
    and replace_keeps: "ok s \<Longrightarrow> replace e s = (res, s') \<Longrightarrow> ok s'"
begin

lemma copy:
  assumes "ok s" and "complete s" and "export s = (Inr e, s')" and "ok t"
    and "replace e t = (Inr u, t')"
  shows "contents t' = contents s"
  using export_denotes[OF assms(1-3)] replace_success[OF assms(4,5)] by simp

lemma replace_cases:
  assumes "ok s" and "replace e s = (r, s')"
  shows "ok s' \<and> contents s' = (case r of Inr _ \<Rightarrow> denotes e | Inl _ \<Rightarrow> contents s)"
  using replace_keeps[OF assms] replace_success[OF assms(1)] replace_failure[OF assms(1)] assms(2)
  by (cases r) auto

text \<open>Retrying a failing import until it succeeds ends in the denoted contents.\<close>

fun retry :: "nat \<Rightarrow> 'e \<Rightarrow> 's \<Rightarrow> ('err + 'u) \<times> 's" where
  "retry 0 e s = replace e s"
| "retry (Suc n) e s = (case replace e s of (Inl _, s') \<Rightarrow> retry n e s' | (Inr u, s') \<Rightarrow> (Inr u, s'))"

lemma retry_cases:
  assumes "ok s" and "retry n e s = (r, s')"
  shows "ok s' \<and> contents s' = (case r of Inr _ \<Rightarrow> denotes e | Inl _ \<Rightarrow> contents s)"
  using assms
proof (induction n arbitrary: s)
  case 0
  then show ?case by (simp add: replace_cases)
next
  case (Suc n)
  obtain r1 s1 where r1: "replace e s = (r1, s1)" by fastforce
  note c = replace_cases[OF Suc.prems(1) r1]
  show ?case
  proof (cases r1)
    case (Inl x)
    with r1 Suc.prems(2) have "retry n e s1 = (r, s')" by simp
    from Suc.IH[OF conjunct1[OF c] this] c Inl show ?thesis by (auto split: sum.splits)
  next
    case (Inr u)
    with r1 Suc.prems(2) c show ?thesis by auto
  qed
qed

end

definition syncable :: "db \<Rightarrow> bool" where
  "syncable s \<longleftrightarrow> wf_db s \<and> nocut s"

text \<open>All of the store is exported, and every status survives the trip.\<close>

definition exports_all :: "sqlenv \<Rightarrow> db \<Rightarrow> bool" where
  "exports_all env s \<longleftrightarrow> sql_contract env \<and> length (domains s) \<le> 10000 \<and> statuses_set s"

lemma fault_free_wf_view [simp]: "fault_free_prop (\<lambda>x. wf_db x \<and> view x = v)"
  by (simp add: fault_free_prop_def wf_db_def)

lemma keeps_ListDomains_prop:
  "fault_free_prop P \<Longrightarrow> keeps P (ListDomains env search lim off)"
  unfolding ListDomains_def Let_def by (intro keeps_intros)

lemma keeps_ListRules_prop: "fault_free_prop P \<Longrightarrow> keeps P (ListRules env i)"
  unfolding ListRules_def by (intro keeps_intros)

lemma keeps_ExportAll:
  assumes "fault_free_prop P"
  shows "keeps P (ExportAll env)"
proof -
  have "keeps P (export_domains env ds)" for ds
    by (induction ds)
      (simp_all only: export_domains.simps keeps_bindE keeps_retE keeps_ListRules_prop assms)
  then show ?thesis
    unfolding ExportAll_def
    using assms by (auto intro!: keeps_bindE keeps_ListDomains_prop split: prod.splits)
qed

interpretation rules: snapshot_store "ExportAll env" "BulkImportReplace env'" view contents_of
  syncable "exports_all env" for env env'
proof unfold_locales
  fix s s' :: db and r :: "go_error + import_entry list"
  assume ok: "syncable s" and e: "ExportAll env s = (r, s')"
  have "keeps (\<lambda>x. wf_db x \<and> view x = view s) (ExportAll env)"
    by (rule keeps_ExportAll) simp
  from keepsD[OF this, of s] ok e have "wf_db s'" "view s' = view s" by (simp_all add: syncable_def)
  with transparentD(1)[OF transparent_ExportAll, of s env] ok e
  show "syncable s' \<and> view s' = view s" by (simp add: syncable_def)
next
  fix s s' :: db and es
  assume "syncable s" and c: "exports_all env s" and e: "ExportAll env s = (Inr es, s')"
  then have wf: "wf_db s" and es: "es = export_list env s"
    using ExportAll_success by (auto simp: syncable_def)
  show "contents_of es = view s"
  proof (rule ext)
    fix n
    show "contents_of es n = view s n"
      using c exported_all[of s env n] default_site_id[of s n]
      by (cases "view s n") (simp_all add: es contents_of_export[OF _ wf] exports_all_def)
  qed
next
  fix s s' :: db and e u
  assume "syncable s" and "BulkImportReplace env' e s = (Inr u, s')"
  then show "view s' = contents_of e" by (auto simp: syncable_def intro: BulkImportReplace_success)
next
  fix s s' :: db and e x
  assume "syncable s" and "BulkImportReplace env' e s = (Inl x, s')"
  then show "view s' = view s"
    unfolding BulkImportReplace_def by (intro view_same_tables transaction_error)
next
  fix s s' :: db and e and r :: "go_error + unit"
  assume "syncable s" and "BulkImportReplace env' e s = (r, s')"
  then show "syncable s'"
    using keepsD[OF keeps_BulkImportReplace, of s env' e]
      transparentD(1)[OF transparent_BulkImportReplace, of s env' e] by (simp add: syncable_def)
qed

section \<open>The object store\<close>

text \<open>
  The three calls the program makes on the object, on an abstract bucket state. The result
  of \<open>s3_get\<close> is the outcome of reading the body.
\<close>

record 'b s3 =
  s3_put :: "string \<Rightarrow> 'b \<Rightarrow> (go_error + string option) \<times> 'b"
  s3_head :: "'b \<Rightarrow> (go_error + string option) \<times> 'b"
  s3_get :: "'b \<Rightarrow> (go_error + (go_error + string)) \<times> 'b"

text \<open>
  Reads do not change the object and are consistent with it, a successful put stores the
  data, a failed one may have stored it, and the ETag is a fingerprint of the contents.
\<close>

definition s3_contract :: "'b s3 \<Rightarrow> ('b \<Rightarrow> string option) \<Rightarrow> (string \<Rightarrow> string) \<Rightarrow> bool" where
  "s3_contract svc obj tag \<longleftrightarrow>
     inj tag \<and> (\<forall>d. tag d \<noteq> []) \<and>
     (\<forall>d b t b'. s3_put svc d b = (Inr t, b') \<longrightarrow> obj b' = Some d \<and> t = Some (tag d)) \<and>
     (\<forall>d b e b'. s3_put svc d b = (Inl e, b') \<longrightarrow> obj b' = obj b \<or> obj b' = Some d) \<and>
     (\<forall>b r b'. s3_head svc b = (r, b') \<longrightarrow> obj b' = obj b) \<and>
     (\<forall>b t b'. s3_head svc b = (Inr t, b') \<longrightarrow> (\<exists>d. obj b = Some d \<and> t = Some (tag d))) \<and>
     (\<forall>b r b'. s3_get svc b = (r, b') \<longrightarrow> obj b' = obj b) \<and>
     (\<forall>b d b'. s3_get svc b = (Inr (Inr d), b') \<longrightarrow> obj b = Some d)"

text \<open>A bucket that meets the contract: the object itself, its data as the ETag.\<close>

definition ref_s3 :: "string option s3" where
  "ref_s3 =
     \<lparr>s3_put = (\<lambda>d b. (Inr (Some (CHR ''e'' # d)), Some d)),
      s3_head = (\<lambda>b. (case b of None \<Rightarrow> Inl (ErrMsg ''NotFound'') | Some d \<Rightarrow> Inr (Some (CHR ''e'' # d)), b)),
      s3_get = (\<lambda>b. (case b of None \<Rightarrow> Inl (ErrMsg ''NoSuchKey'') | Some d \<Rightarrow> Inr (Inr d), b))\<rparr>"

lemma ref_s3_contract: "s3_contract ref_s3 (\<lambda>b. b) (\<lambda>d. CHR ''e'' # d)"
  by (auto simp: s3_contract_def ref_s3_def inj_def split: option.split)

section \<open>The syncer\<close>

text \<open>
  The configuration, and what \<open>New\<close> makes of it: an S3 client with path-style addresses, the
  object, and the time between two polls in nanoseconds. \<open>New\<close> never fails.
\<close>

record sync_config =
  sc_Endpoint :: string
  sc_Bucket :: string
  sc_Key :: string
  sc_AccessKey :: string
  sc_SecretKey :: string
  sc_Region :: string

record syncer =
  sy_BaseEndpoint :: string
  sy_Region :: string
  sy_Credentials :: "string \<times> string \<times> string"
  sy_UsePathStyle :: bool
  sy_bucket :: string
  sy_key :: string
  sy_pollEvery :: int

definition New_syncer :: "sync_config \<Rightarrow> syncer" where
  "New_syncer cfg =
     \<lparr>sy_BaseEndpoint = sc_Endpoint cfg, sy_Region = sc_Region cfg,
      sy_Credentials = (sc_AccessKey cfg, sc_SecretKey cfg, []), sy_UsePathStyle = True,
      sy_bucket = sc_Bucket cfg, sy_key = sc_Key cfg, sy_pollEvery = 5 * 10 ^ 9\<rparr>"

text \<open>
  A process: its store, its engine, and the syncer's last ETag. The mutex only guards the
  ETag field, which each operation below reads and writes once.
\<close>

record node =
  n_store :: db
  n_engine :: engine
  n_lastETag :: string

datatype sync_error =
    ExportRules go_error | PutObject go_error | HeadObject go_error | GetObject go_error
  | ReadObject go_error | UnmarshalRules | ImportReplace go_error | ReloadFailed go_error

definition Publish ::
  "'b s3 \<Rightarrow> sqlenv \<Rightarrow> node \<Rightarrow> 'b \<Rightarrow> sync_error option \<times> node \<times> 'b" where
  "Publish svc env nd b =
     (case ExportAll env (n_store nd) of
        (Inl e, s) \<Rightarrow> (Some (ExportRules e), nd\<lparr>n_store := s\<rparr>, b)
      | (Inr entries, s) \<Rightarrow>
          (case s3_put svc (marshal_entries entries) b of
             (Inl e, b') \<Rightarrow> (Some (PutObject e), nd\<lparr>n_store := s\<rparr>, b')
           | (Inr t, b') \<Rightarrow>
               (None,
                nd\<lparr>n_store := s,
                   n_lastETag := (case t of None \<Rightarrow> n_lastETag nd | Some x \<Rightarrow> x)\<rparr>, b')))"

text \<open>The second half of \<open>poll\<close>, after the ETag is known to differ.\<close>

definition poll_fetch ::
  "'b s3 \<Rightarrow> sqlenv \<Rightarrow> (engine \<Rightarrow> db \<Rightarrow> (go_error option \<times> engine) \<times> db) option \<Rightarrow>
   string \<Rightarrow> node \<Rightarrow> 'b \<Rightarrow> sync_error option \<times> node \<times> 'b" where
  "poll_fetch svc env onReload etag nd b =
     (case s3_get svc b of
        (Inl e, b') \<Rightarrow> (Some (GetObject e), nd, b')
      | (Inr (Inl e), b') \<Rightarrow> (Some (ReadObject e), nd, b')
      | (Inr (Inr data), b') \<Rightarrow>
          (case unmarshal_entries data of
             None \<Rightarrow> (Some UnmarshalRules, nd, b')
           | Some entries \<Rightarrow>
               (case BulkImportReplace env entries (n_store nd) of
                  (Inl e, s) \<Rightarrow> (Some (ImportReplace e), nd\<lparr>n_store := s\<rparr>, b')
                | (Inr _, s) \<Rightarrow>
                    (case onReload of
                       None \<Rightarrow> (None, nd\<lparr>n_store := s, n_lastETag := etag\<rparr>, b')
                     | Some reload \<Rightarrow>
                         (case reload (n_engine nd) s of
                            ((Some e, eng), s') \<Rightarrow>
                              (Some (ReloadFailed e), nd\<lparr>n_store := s', n_engine := eng\<rparr>, b')
                          | ((None, eng), s') \<Rightarrow>
                              (None, nd\<lparr>n_store := s', n_engine := eng, n_lastETag := etag\<rparr>, b'))))))"

definition poll ::
  "'b s3 \<Rightarrow> sqlenv \<Rightarrow> (engine \<Rightarrow> db \<Rightarrow> (go_error option \<times> engine) \<times> db) option \<Rightarrow>
   node \<Rightarrow> 'b \<Rightarrow> sync_error option \<times> node \<times> 'b" where
  "poll svc env onReload nd b =
     (case s3_head svc b of
        (Inl e, b') \<Rightarrow> (Some (HeadObject e), nd, b')
      | (Inr t, b') \<Rightarrow>
          let etag = (case t of None \<Rightarrow> [] | Some x \<Rightarrow> x) in
          if etag \<noteq> n_lastETag nd then poll_fetch svc env onReload etag nd b'
          else (None, nd, b'))"

text \<open>\<open>pollLoop\<close>: one poll per tick, errors are logged and the loop goes on. The result
  lists what each poll returned.\<close>

fun pollLoop ::
  "'b s3 \<Rightarrow> sqlenv \<Rightarrow> (engine \<Rightarrow> db \<Rightarrow> (go_error option \<times> engine) \<times> db) option \<Rightarrow> nat \<Rightarrow>
   node \<Rightarrow> 'b \<Rightarrow> sync_error option list \<times> node \<times> 'b" where
  "pollLoop svc env onReload 0 nd b = ([], nd, b)"
| "pollLoop svc env onReload (Suc n) nd b =
     (case poll svc env onReload nd b of
        (r, nd', b') \<Rightarrow>
          (case pollLoop svc env onReload n nd' b' of (rs, nd'', b'') \<Rightarrow> (r # rs, nd'', b'')))"

section \<open>Facts about the calls\<close>

lemma s3_put_ok:
  "s3_contract svc obj tag \<Longrightarrow> s3_put svc d b = (Inr t, b') \<Longrightarrow> obj b' = Some d \<and> t = Some (tag d)"
  by (simp add: s3_contract_def)

lemma s3_head_ok:
  "s3_contract svc obj tag \<Longrightarrow> s3_head svc b = (r, b') \<Longrightarrow>
    obj b' = obj b \<and> (\<forall>t. r = Inr t \<longrightarrow> (\<exists>d. obj b = Some d \<and> t = Some (tag d)))"
  by (auto simp: s3_contract_def)

lemma s3_get_ok:
  "s3_contract svc obj tag \<Longrightarrow> s3_get svc b = (r, b') \<Longrightarrow>
    obj b' = obj b \<and> (\<forall>d. r = Inr (Inr d) \<longrightarrow> obj b = Some d)"
  by (auto simp: s3_contract_def)

text \<open>What a node does to its store between imports: reload it.\<close>

definition reload_of :: "sqlenv \<Rightarrow> (rule list \<Rightarrow> rule list) \<Rightarrow>
    (engine \<Rightarrow> db \<Rightarrow> (go_error option \<times> engine) \<times> db) option" where
  "reload_of env srt = Some (Reload env srt)"

lemma syncable_ListRules:
  assumes "syncable s"
  shows "syncable (snd (ListRules env i s)) \<and> view (snd (ListRules env i s)) = view s"
  using keepsD[OF keeps_ListRules_prop[OF fault_free_wf_view], of s "view s" env i]
    transparentD(1)[OF transparent_ListRules, of s env i] assms
  by (simp add: syncable_def)

lemma syncable_load_all: "syncable s \<Longrightarrow> syncable (snd (load_all env srt ds m s)) \<and>
    view (snd (load_all env srt ds m s)) = view s"
proof (induction ds arbitrary: m s)
  case Nil
  then show ?case by simp
next
  case (Cons d ds)
  obtain r s1 where l: "ListRules env (d_ID d) s = (r, s1)" by fastforce
  with syncable_ListRules[OF Cons.prems, of env "d_ID d"]
  have s1: "syncable s1" "view s1 = view s" by simp_all
  show ?case
    using Cons.IH[OF Cons.prems] Cons.IH[OF s1(1)] s1(2) l by (cases r) simp_all
qed

lemma syncable_ListDomains:
  assumes "syncable s"
  shows "syncable (snd (ListDomains env search lim off s)) \<and>
    view (snd (ListDomains env search lim off s)) = view s"
  using keepsD[OF keeps_ListDomains_prop[OF fault_free_wf_view], of s "view s" env search lim off]
    transparentD(1)[OF transparent_ListDomains, of s env search lim off] assms
  by (simp add: syncable_def)

lemma syncable_Reload:
  assumes "syncable s" and "Reload env srt e s = ((r, e'), s')"
  shows "syncable s' \<and> view s' = view s"
proof -
  obtain r1 s1 where l: "ListDomains env [] 100000 0 s = (r1, s1)" by fastforce
  with syncable_ListDomains[OF assms(1), of env "[]" 100000 0]
  have s1: "syncable s1" "view s1 = view s" by simp_all
  show ?thesis
  proof (cases r1)
    case (Inl er)
    with l s1 assms(2) show ?thesis by (auto simp: Reload_def)
  next
    case (Inr p)
    obtain m s2 where m: "load_all env srt (fst p) Map.empty s1 = (m, s2)" by fastforce
    with l Inr assms(2) have "s' = s2" by (auto simp: Reload_def split: prod.splits)
    with syncable_load_all[OF s1(1), of env srt "fst p" Map.empty] m s1(2) show ?thesis by simp
  qed
qed

lemma Reload_success:
  assumes "faults s = []"
  shows "\<exists>e'. Reload env srt e s = ((None, e'), s)"
proof -
  have "snd (load_all env srt ds m s) = s" for ds m
    using assms by (induction ds arbitrary: m) (simp_all add: ListRules_Nil)
  then obtain m where
    "load_all env srt (limit_offset 100000 0 (by_name env (search_domains env [] s))) Map.empty s = (m, s)"
    by (metis prod.collapse)
  with assms show ?thesis by (simp add: Reload_def ListDomains_Nil)
qed

text \<open>The outcome of one fetch.\<close>

definition installs ::
  "sqlenv \<Rightarrow> (rule list \<Rightarrow> rule list) \<Rightarrow> string \<Rightarrow> node \<Rightarrow> go_error option \<Rightarrow> node \<Rightarrow> bool" where
  "installs env srt d nd err nd' \<longleftrightarrow>
     (\<exists>es s1. unmarshal_entries d = Some es \<and> BulkImportReplace env es (n_store nd) = (Inr (), s1) \<and>
        view s1 = contents_of es \<and> Reload env srt (n_engine nd) s1 = ((err, n_engine nd'), n_store nd') \<and>
        view (n_store nd') = contents_of es)"

lemma installs_view:
  "installs env srt d nd err nd' \<Longrightarrow> unmarshal_entries d = Some es \<Longrightarrow> view (n_store nd') = contents_of es"
  by (auto simp: installs_def)

lemma installs_failed: "installs env srt d nd (Some er) nd' \<Longrightarrow> n_engine nd' = n_engine nd"
  by (auto simp: installs_def dest: Reload_error)

lemma import_reload_faults:
  assumes "syncable s" and "faults s = []" and "BulkImportReplace env es s = (r, s1)"
  shows "r = Inr () \<and> faults s1 = [] \<and> (Reload env srt e s1 = (x, s2) \<longrightarrow> s2 = s1)"
proof -
  have "good s" using assms(1,2) by (auto simp: syncable_def intro: goodI)
  from BulkImportReplace_good[OF this, of env es] assms(3) have g: "r = Inr ()" "good s1" by auto
  with Reload_success[OF goodD(2)[OF g(2)], of env srt e] goodD(2)[OF g(2)] show ?thesis by auto
qed

lemma poll_fetch_cases:
  assumes c: "s3_contract svc obj tag" and s: "syncable (n_store nd)"
    and f: "poll_fetch svc env (reload_of env srt) etag nd b = (r, nd', b')"
  shows "obj b' = obj b \<and> syncable (n_store nd') \<and>
    (faults (n_store nd) = [] \<longrightarrow> faults (n_store nd') = []) \<and>
    (case r of
       None \<Rightarrow> n_lastETag nd' = etag \<and> (\<exists>d. obj b = Some d \<and> installs env srt d nd None nd')
     | Some e \<Rightarrow> n_lastETag nd' = n_lastETag nd \<and>
         (if \<exists>er. e = ReloadFailed er
          then \<exists>d er. e = ReloadFailed er \<and> obj b = Some d \<and> installs env srt d nd (Some er) nd'
          else n_engine nd' = n_engine nd \<and> view (n_store nd') = view (n_store nd)))"
proof -
  obtain g b1 where g: "s3_get svc b = (g, b1)" by fastforce
  note gk = s3_get_ok[OF c g]
  show ?thesis
  proof (cases "\<exists>d. g = Inr (Inr d)")
    case False
    with f g gk s show ?thesis
      by (auto simp: poll_fetch_def split: sum.splits)
  next
    case True
    then obtain d where d: "g = Inr (Inr d)" by blast
    with gk have o: "obj b = Some d" "obj b1 = obj b" by auto
    show ?thesis
    proof (cases "unmarshal_entries d")
      case None
      with f g d o s show ?thesis by (auto simp: poll_fetch_def)
    next
      case (Some es)
      obtain imp s1 where q: "BulkImportReplace env es (n_store nd) = (imp, s1)" by fastforce
      note rk = rules.replace_cases[OF s q] and nf = import_reload_faults[OF s _ q, of srt "n_engine nd"]
      show ?thesis
      proof (cases imp)
        case (Inl e)
        with f g d o Some q rk nf show ?thesis by (auto simp: poll_fetch_def)
      next
        case (Inr u)
        obtain er eng s2 where rl: "Reload env srt (n_engine nd) s1 = ((er, eng), s2)"
          by (metis prod.collapse)
        with syncable_Reload[OF _ rl] rk have s2: "syncable s2" "view s2 = view s1" by auto
        have res: "r = map_option ReloadFailed er" "b' = b1"
          "nd' = (if er = None then nd\<lparr>n_store := s2, n_engine := eng, n_lastETag := etag\<rparr>
                  else nd\<lparr>n_store := s2, n_engine := eng\<rparr>)"
          using f g d Some q Inr rl by (cases er; auto simp: poll_fetch_def reload_of_def)+
        have "installs env srt d nd er nd'"
          using Some q Inr rl s2 rk res(3) by (auto simp: installs_def)
        with res s2 o nf rl show ?thesis by (cases er) auto
      qed
    qed
  qed
qed

lemma poll_cases:
  assumes c: "s3_contract svc obj tag" and p: "poll svc env onReload nd b = (r, nd', b')"
  obtains (head) e where "r = Some (HeadObject e)" "nd' = nd" "obj b' = obj b"
  | (same) d where "obj b = Some d" "n_lastETag nd = tag d" "r = None" "nd' = nd" "obj b' = obj b"
  | (fetch) d b1 where "obj b = Some d" "n_lastETag nd \<noteq> tag d" "obj b1 = obj b"
      "poll_fetch svc env onReload (tag d) nd b1 = (r, nd', b')"
proof -
  obtain h b1 where h: "s3_head svc b = (h, b1)" by fastforce
  note hk = s3_head_ok[OF c h]
  show thesis
  proof (cases h)
    case (Inl e)
    with p h hk show thesis by (intro head) (auto simp: poll_def)
  next
    case (Inr t)
    with hk obtain d where d: "obj b = Some d" "t = Some (tag d)" by blast
    show thesis
    proof (cases "n_lastETag nd = tag d")
      case True
      with p h Inr d hk show thesis by (intro same) (auto simp: poll_def)
    next
      case False
      with p h Inr d hk show thesis
        by (intro fetch[of d b1]) (auto simp: poll_def)
    qed
  qed
qed

end
