(* ===== verification/Sync_Props.thy ===== *)
theory Sync_Props
  imports Sync Engine_Props
begin

text \<open>
  The properties of replication: the published bytes decode to the exported entries, a poll
  is atomic and retried, replicas converge to the publisher's contents and serve them, and
  two races in which they do not.
\<close>

section \<open>The published object\<close>

text \<open>C8: What \<open>Publish\<close> marshals, \<open>poll\<close> unmarshals: entries with valid UTF-8 texts and
  64-bit numbers survive the trip through JSON text, quoting and nil slices included.\<close>
theorem published_entries_round_trip:
  assumes "list_all entry_ok es"
  shows "unmarshal_entries (marshal_entries es) = Some es"
  using assms by (rule entries_round_trip)

definition demo_entry :: import_entry where
  "demo_entry =
     \<lparr>ie_DomainName = ''a<b.example'', ie_DefaultURL = ''https://x/?q=1&r=2'', ie_StatusCode = 308,
      ie_Enabled = Some False, ie_Rules = []\<rparr>"

theorem published_entries_round_trip_witness:
  "unmarshal_entries (marshal_entries [demo_entry]) = Some [demo_entry] \<and>
   contains (marshal_entries [demo_entry]) ''u003c''"
proof
  have "list_all entry_ok [demo_entry]"
    by (auto simp: demo_entry_def entry_ok_def is_int64_def min_int64_def max_int64_def
        intro!: valid_utf8_ascii)
  then show "unmarshal_entries (marshal_entries [demo_entry]) = Some [demo_entry]"
    by (rule published_entries_round_trip)
  show "contains (marshal_entries [demo_entry]) ''u003c''"
    by code_simp
qed

section \<open>Publishing and fetching\<close>

text \<open>An object store that answers.\<close>

definition s3_up :: "'b s3 \<Rightarrow> ('b \<Rightarrow> string option) \<Rightarrow> bool" where
  "s3_up svc obj \<longleftrightarrow> (\<forall>b d. obj b = Some d \<longrightarrow>
     (\<exists>t b'. s3_head svc b = (Inr t, b')) \<and> (\<exists>b'. s3_get svc b = (Inr (Inr d), b')))"

lemma Publish_cases:
  assumes "s3_contract svc obj tag" and "syncable (n_store p)"
    and "list_all entry_ok (export_list env (n_store p))"
    and "Publish svc env p b = (None, p', b')"
  shows "obj b' = Some (marshal_entries (export_list env (n_store p))) \<and>
    n_lastETag p' = tag (marshal_entries (export_list env (n_store p))) \<and>
    unmarshal_entries (marshal_entries (export_list env (n_store p))) =
      Some (export_list env (n_store p)) \<and>
    syncable (n_store p') \<and> view (n_store p') = view (n_store p) \<and>
    (exports_all env (n_store p) \<longrightarrow> contents_of (export_list env (n_store p)) = view (n_store p))"
proof -
  obtain x s1 where e: "ExportAll env (n_store p) = (x, s1)" by fastforce
  with assms(4) obtain es where x: "x = Inr es" by (cases x) (auto simp: Publish_def)
  have es: "es = export_list env (n_store p)"
    using ExportAll_success[of "n_store p" env es s1] assms(2) e x by (simp add: syncable_def)
  obtain r b1 where put: "s3_put svc (marshal_entries es) b = (r, b1)" by fastforce
  with assms(4) e x obtain t where r: "r = Inr t" by (cases r) (auto simp: Publish_def)
  note k = s3_put_ok[OF assms(1) put[unfolded r]]
  from assms(4) e x put r k have "b' = b1" "n_lastETag p' = tag (marshal_entries es)" "n_store p' = s1"
    by (auto simp: Publish_def)
  with k es entries_round_trip[OF assms(3)] rules.export_keeps[OF assms(2) e]
    rules.export_denotes[OF assms(2) _ e[unfolded x]] show ?thesis by auto
qed

lemma length_view:
  assumes "wf_db s" and "wf_db t" and "view s = view t"
  shows "length (domains s) = length (domains t)"
proof -
  have "length (domains x) = card (dom (view x))" if "wf_db x" for x
    using distinct_card[OF wf_names[OF that]] by (simp add: dom_view)
  with assms show ?thesis by metis
qed

text \<open>Without faults, and with an object store that answers, a poll of a new object succeeds.\<close>

lemma poll_success:
  assumes "s3_contract svc obj tag" and "s3_up svc obj" and "good (n_store nd)"
    and "obj b = Some d" and "unmarshal_entries d = Some es" and "n_lastETag nd \<noteq> tag d"
  obtains s' e' b' where
    "poll svc env (reload_of env srt) nd b =
      (None, nd\<lparr>n_store := s', n_engine := e', n_lastETag := tag d\<rparr>, b')"
    and "good s'" and "view s' = contents_of es"
    and "Reload env srt (n_engine nd) s' = ((None, e'), s')"
proof -
  obtain t b2 where h: "s3_head svc b = (Inr t, b2)" using assms(2,4) unfolding s3_up_def by blast
  with s3_head_ok[OF assms(1) h] assms(4) have t: "t = Some (tag d)" "obj b2 = Some d" by auto
  obtain b3 where g: "s3_get svc b2 = (Inr (Inr d), b3)"
    using assms(2) t unfolding s3_up_def by blast
  obtain s1 where s1: "BulkImportReplace env es (n_store nd) = (Inr (), s1)" "good s1"
    "view s1 = contents_of es"
    using BulkImportReplace_good[OF assms(3), of env es] by blast
  obtain e' where e': "Reload env srt (n_engine nd) s1 = ((None, e'), s1)"
    using Reload_success[OF goodD(2)[OF s1(2)]] by blast
  have "poll svc env (reload_of env srt) nd b =
      (None, nd\<lparr>n_store := s1, n_engine := e', n_lastETag := tag d\<rparr>, b3)"
    using h t g s1 e' assms(5,6) by (simp add: poll_def poll_fetch_def reload_of_def)
  from that[OF this s1(2,3) e'] show thesis .
qed

text \<open>A publisher with the demonstration store and an empty replica.\<close>

definition demo_node :: "db \<Rightarrow> node" where
  "demo_node s = \<lparr>n_store = s, n_engine = demo_engine, n_lastETag = []\<rparr>"

definition empty_db :: db where
  "empty_db = demo_db\<lparr>domains := [], redirect_rules := []\<rparr>"

lemma empty_db_good [simp]: "good empty_db"
  by (simp add: good_def empty_db_def wf_db_def)

lemma demo_syncable [simp]: "syncable demo_db" "syncable empty_db"
  using empty_db_good by (simp_all add: syncable_def nocut_def good_def)

lemma demo_exports_all:
  "exports_all (reference_env d) demo_db" "exports_all (reference_env d) empty_db"
  by (simp_all add: exports_all_def reference_env_contract statuses_set_def demo_defs empty_db_def)

lemma ref_s3_up: "s3_up ref_s3 (\<lambda>b. b)"
  by (simp add: s3_up_def ref_s3_def)

lemma entry_ok_export:
  assumes "\<forall>d \<in> set (domains s). valid_utf8 (d_Name d) \<and> valid_utf8 (d_DefaultURL d) \<and> is_int64 (d_StatusCode d)"
    and "\<forall>r \<in> set (redirect_rules s). valid_utf8 (r_Path r) \<and> valid_utf8 (r_TargetURL r) \<and>
      is_int64 (r_StatusCode r) \<and> is_int64 (r_Priority r)"
    and "sql_contract env"
  shows "list_all entry_ok (export_list env s)"
proof -
  have "set (ord_prio env rs) = set rs" for rs
    using assms(3) by (intro desc_sorts_set[where key = r_Priority]) (simp add: sql_contract_def)
  with assms(1,2) show ?thesis
    by (auto simp: export_list_def list_all_iff entry_ok_def export_entry_def import_rule_ok_def
        dest!: in_set_takeD)
qed

lemma demo_entry_ok:
  "list_all entry_ok (export_list (reference_env d) demo_db)"
  "list_all entry_ok (export_list (reference_env d) empty_db)"
  by (rule entry_ok_export;
      auto simp: demo_defs empty_db_def reference_env_contract is_int64_def min_int64_def max_int64_def
        intro!: valid_utf8_ascii)+

lemma demo_publish:
  assumes "syncable s" and "faults s = []"
  shows "Publish ref_s3 env (demo_node s) b =
    (None, (demo_node s)\<lparr>n_lastETag := CHR ''e'' # marshal_entries (export_list env s)\<rparr>,
     Some (marshal_entries (export_list env s)))"
  using assms by (simp add: Publish_def demo_node_def ExportAll_Nil ref_s3_def)

section \<open>Polling\<close>

text \<open>C9: A poll is atomic, whichever statements and requests fail (no query being cut short).
  It reports success only when nothing is new, and then it changes nothing, or when the
  import of the object and the reload after it succeeded: then the store has the contents of
  the object, the engine has the reloaded table, and the ETag is recorded. After any error
  the old ETag is kept, so that the next poll tries again; the contents and the table are as
  before, unless the import succeeded and the reload did not, which leaves the new
  contents and the old table.\<close>
theorem poll_installs_or_retries:
  assumes "s3_contract svc obj tag" and "syncable (n_store nd)"
    and "poll svc env (reload_of env srt) nd b = (r, nd', b')"
  shows "syncable (n_store nd') \<and> obj b' = obj b \<and>
    (case r of
       None \<Rightarrow> (\<exists>d. obj b = Some d \<and> n_lastETag nd' = tag d \<and>
         (if n_lastETag nd = tag d then nd' = nd
          else \<exists>es s1. unmarshal_entries d = Some es \<and>
            BulkImportReplace env es (n_store nd) = (Inr (), s1) \<and> view s1 = contents_of es \<and>
            Reload env srt (n_engine nd) s1 = ((None, n_engine nd'), n_store nd') \<and>
            view (n_store nd') = contents_of es))
     | Some e \<Rightarrow> n_lastETag nd' = n_lastETag nd \<and> n_engine nd' = n_engine nd \<and>
         (if \<exists>er. e = ReloadFailed er
          then \<exists>d es s1 er. obj b = Some d \<and> unmarshal_entries d = Some es \<and>
            BulkImportReplace env es (n_store nd) = (Inr (), s1) \<and>
            Reload env srt (n_engine nd) s1 = ((Some er, n_engine nd'), n_store nd') \<and>
            e = ReloadFailed er \<and> view (n_store nd') = contents_of es
          else view (n_store nd') = view (n_store nd)))"
  using assms(1,3)
proof (cases rule: poll_cases)
  case (head e)
  with assms(2) show ?thesis by simp
next
  case (same d)
  with assms(2) show ?thesis by simp
next
  case (fetch d b1)
  note f = poll_fetch_cases[OF assms(1,2) fetch(4)]
  show ?thesis
  proof (cases r)
    case None
    with f fetch show ?thesis by (auto simp: installs_def)
  next
    case (Some e)
    have "n_engine nd' = n_engine nd"
      using f Some by (auto dest: installs_failed split: if_splits)
    with f fetch Some show ?thesis by (auto simp: installs_def)
  qed
qed

theorem poll_installs_or_retries_witness:
  "\<exists>nd' b'. poll ref_s3 (reference_env DialectSQLite)
      (reload_of (reference_env DialectSQLite) (sort_desc rl_Priority)) (demo_node demo_db) (Some ''oops'')
      = (Some UnmarshalRules, nd', b') \<and> view (n_store nd') = view demo_db"
proof -
  let ?env = "reference_env DialectSQLite" and ?srt = "sort_desc rl_Priority"
  have "unmarshal_entries ''oops'' = None" by code_simp
  then obtain nd' b' where p: "poll ref_s3 ?env (reload_of ?env ?srt) (demo_node demo_db) (Some ''oops'')
      = (Some UnmarshalRules, nd', b')"
    by (auto simp: poll_def poll_fetch_def ref_s3_def demo_node_def)
  have "syncable (n_store (demo_node demo_db))" by (simp add: demo_node_def)
  from poll_installs_or_retries[OF ref_s3_contract this p] p show ?thesis
    by (auto simp: demo_node_def)
qed

text \<open>A node is caught up with an object when its ETag and its contents are the object's and
  its table comes from a reload of these contents. \<open>F\<close> says that no statement fails.\<close>

definition caught_up :: "sqlenv \<Rightarrow> (rule list \<Rightarrow> rule list) \<Rightarrow> (string \<Rightarrow> string) \<Rightarrow> string \<Rightarrow> bool \<Rightarrow> node \<Rightarrow> bool" where
  "caught_up env srt tag d F nd \<longleftrightarrow> n_lastETag nd = tag d \<and>
     (\<exists>es e s. unmarshal_entries d = Some es \<and> view (n_store nd) = contents_of es \<and>
        view s = contents_of es \<and> (F \<longrightarrow> good s) \<and>
        Reload env srt e s = ((None, n_engine nd), n_store nd))"

text \<open>A node that is behind or caught up stays so with each poll, and a poll that succeeds or
  starts caught up ends caught up.\<close>

lemma poll_caught_up:
  assumes "s3_contract svc obj tag" and "syncable (n_store nd)" and "obj b = Some d"
    and "n_lastETag nd \<noteq> tag d \<or> caught_up env srt tag d F nd"
    and "F \<longrightarrow> faults (n_store nd) = []"
    and "poll svc env (reload_of env srt) nd b = (r, nd', b')"
  shows "syncable (n_store nd') \<and> obj b' = Some d \<and> (F \<longrightarrow> faults (n_store nd') = []) \<and>
    (n_lastETag nd' \<noteq> tag d \<or> caught_up env srt tag d F nd') \<and>
    (r = None \<or> caught_up env srt tag d F nd \<longrightarrow> caught_up env srt tag d F nd')"
  using assms(1,6)
proof (cases rule: poll_cases)
  case (head e)
  with assms show ?thesis by simp
next
  case (same d')
  with assms show ?thesis by auto
next
  case (fetch d' b2)
  note f = poll_fetch_cases[OF assms(1,2) fetch(4)]
  have d: "d' = d" using fetch(1) assms(3) by simp
  show ?thesis
  proof (cases r)
    case None
    with f fetch d have i: "installs env srt d nd None nd'" "n_lastETag nd' = tag d" by auto
    then obtain es s1 where "unmarshal_entries d = Some es"
      "BulkImportReplace env es (n_store nd) = (Inr (), s1)" "view s1 = contents_of es"
      "Reload env srt (n_engine nd) s1 = ((None, n_engine nd'), n_store nd')"
      "view (n_store nd') = contents_of es" by (auto simp: installs_def)
    moreover from this(2) have "F \<longrightarrow> good s1"
      using BulkImportReplace_good[of "n_store nd" env es] assms(2,5) by (auto simp: syncable_def intro: goodI)
    ultimately have "caught_up env srt tag d F nd'" using i(2) by (auto simp: caught_up_def)
    with f fetch assms(3,5) show ?thesis by auto
  next
    case (Some e)
    with f fetch assms(3-5) d show ?thesis by (auto simp: caught_up_def)
  qed
qed

lemma pollLoop_caught_up:
  assumes c: "s3_contract svc obj tag"
  shows "syncable (n_store nd) \<Longrightarrow> obj b = Some d \<Longrightarrow>
    n_lastETag nd \<noteq> tag d \<or> caught_up env srt tag d F nd \<Longrightarrow> F \<longrightarrow> faults (n_store nd) = [] \<Longrightarrow>
    pollLoop svc env (reload_of env srt) k nd b = (rs, nd', b') \<Longrightarrow>
    None \<in> set rs \<or> caught_up env srt tag d F nd \<longrightarrow> caught_up env srt tag d F nd'"
proof (induction k arbitrary: nd b rs)
  case 0
  then show ?case by auto
next
  case (Suc k)
  obtain r nd1 b1 where p: "poll svc env (reload_of env srt) nd b = (r, nd1, b1)"
    by (metis prod.collapse)
  obtain rs' nd2 b2 where l: "pollLoop svc env (reload_of env srt) k nd1 b1 = (rs', nd2, b2)"
    by (metis prod.collapse)
  from p l Suc.prems(5) have "rs = r # rs'" "nd2 = nd'" "b2 = b'" by auto
  with Suc.IH[of nd1 b1 rs'] poll_caught_up[OF c Suc.prems(1-4) p] l show ?case by auto
qed

text \<open>C5: Replicas converge: once the object differs from what a node last saw and stays,
  any number of polls of which at least one succeeds, after whatever failures but cut
  queries, leave the node with the ETag and exactly the contents of the object, and with the
  table of a reload of these contents that reported success. When no statement of the store
  fails and there are at most 100000 domains, every request is then answered by the contents
  of the object.\<close>
theorem replica_converges:
  assumes "s3_contract svc obj tag" and "syncable (n_store nd)"
    and "obj b = Some d" and "n_lastETag nd \<noteq> tag d"
    and "pollLoop svc env (reload_of env srt) n nd b = (rs, nd', b')" and "None \<in> set rs"
    and "sql_contract env" and "desc_sorts rl_Priority srt"
  shows "n_lastETag nd' = tag d \<and>
    (\<exists>es. unmarshal_entries d = Some es \<and> view (n_store nd') = contents_of es \<and>
      (\<exists>e s. view s = contents_of es \<and> Reload env srt e s = ((None, n_engine nd'), n_store nd')) \<and>
      (faults (n_store nd) = [] \<and> length (domains (n_store nd')) \<le> 100000 \<longrightarrow>
        (\<forall>rq. serve_spec (contents_of es) (stripPort (rq_Host rq)) (rq_Path rq)
           (fst (ServeHTTP (n_engine nd') rq)))))"
proof -
  let ?F = "faults (n_store nd) = []"
  have "caught_up env srt tag d ?F nd'"
    using pollLoop_caught_up[OF assms(1-3) _ _ assms(5), of ?F] assms(4,6) by simp
  then obtain es e s where c: "n_lastETag nd' = tag d" "unmarshal_entries d = Some es"
    "view (n_store nd') = contents_of es" "view s = contents_of es" "?F \<longrightarrow> good s"
    "Reload env srt e s = ((None, n_engine nd'), n_store nd')" by (auto simp: caught_up_def)
  have "serve_spec (contents_of es) (stripPort (rq_Host rq)) (rq_Path rq) (fst (ServeHTTP (n_engine nd') rq))"
    if ?F and len: "length (domains (n_store nd')) \<le> 100000" for rq
  proof -
    from that(1) c(5) have g: "good s" by simp
    from Reload_success[OF goodD(2)[OF g], of env srt e] c(6) have "n_store nd' = s" by auto
    with len Reload_serves[OF assms(7,8) goodD[OF g], of e rq] c(4,6) show ?thesis by simp
  qed
  with c show ?thesis by blast
qed

theorem replica_converges_witness:
  "\<exists>nd' b'. pollLoop ref_s3 (reference_env DialectSQLite)
      (reload_of (reference_env DialectSQLite) (sort_desc rl_Priority)) 1 (demo_node empty_db)
      (Some (marshal_entries (export_list (reference_env DialectSQLite) demo_db))) = ([None], nd', b') \<and>
    view (n_store nd') = contents_of (export_list (reference_env DialectSQLite) demo_db) \<and>
    (\<exists>e s. Reload (reference_env DialectSQLite) (sort_desc rl_Priority) e s =
      ((None, n_engine nd'), n_store nd'))"
proof -
  let ?env = "reference_env DialectSQLite" and ?srt = "sort_desc rl_Priority"
  let ?es = "export_list ?env demo_db"
  have rt: "unmarshal_entries (marshal_entries ?es) = Some ?es"
    by (rule entries_round_trip[OF demo_entry_ok(1)])
  have nd: "good (n_store (demo_node empty_db))" "syncable (n_store (demo_node empty_db))"
    "n_lastETag (demo_node empty_db) \<noteq> CHR ''e'' # marshal_entries ?es"
    by (simp_all add: demo_node_def)
  obtain nd' b' where "poll ref_s3 ?env (reload_of ?env ?srt) (demo_node empty_db)
      (Some (marshal_entries ?es)) = (None, nd', b')"
    using poll_success[OF ref_s3_contract ref_s3_up nd(1) refl rt nd(3)] by metis
  then have l: "pollLoop ref_s3 ?env (reload_of ?env ?srt) 1 (demo_node empty_db)
      (Some (marshal_entries ?es)) = ([None], nd', b')" by simp
  from replica_converges[OF ref_s3_contract nd(2) refl nd(3) l _ reference_env_contract
      desc_sorts_sort_desc] rt l show ?thesis by auto
qed

section \<open>From publisher to replica\<close>

text \<open>C6: A successful publish reaches every replica: with at most 10000 domains and no
  status 0, a node whose last ETag differs and whose store and object store answer installs
  the publisher's contents with its next poll, and answers every request by them.\<close>
theorem publish_reaches_replica:
  assumes "s3_contract svc obj tag" and "s3_up svc obj"
    and "syncable (n_store p)" and "exports_all env (n_store p)"
    and "list_all entry_ok (export_list env (n_store p))"
    and "Publish svc env p b = (None, p', b1)"
    and "wf_db (n_store nd)" and "faults (n_store nd) = []" and "n_lastETag nd \<noteq> n_lastETag p'"
    and "sql_contract env'" and "desc_sorts rl_Priority srt"
  shows "\<exists>nd' b2. poll svc env' (reload_of env' srt) nd b1 = (None, nd', b2) \<and>
    view (n_store nd') = view (n_store p) \<and> n_lastETag nd' = n_lastETag p' \<and>
    serve_spec (view (n_store p)) (stripPort (rq_Host r)) (rq_Path r)
      (fst (ServeHTTP (n_engine nd') r))"
proof -
  let ?es = "export_list env (n_store p)"
  note pub = Publish_cases[OF assms(1,3,5,6)]
  have obj: "obj b1 = Some (marshal_entries ?es)" using pub by blast
  obtain s1 e' b3 where p: "poll svc env' (reload_of env' srt) nd b1 =
      (None, nd\<lparr>n_store := s1, n_engine := e', n_lastETag := n_lastETag p'\<rparr>, b3)"
    and g: "good s1" and v: "view s1 = contents_of ?es"
    and e': "Reload env' srt (n_engine nd) s1 = ((None, e'), s1)"
    using poll_success[OF assms(1,2) goodI[OF assms(7,8)] obj, where env = env' and srt = srt]
      pub assms(9) by metis
  have v: "view s1 = view (n_store p)" using v pub assms(4) by simp
  have len: "length (domains s1) \<le> 100000"
    using length_view[OF goodD(1)[OF g] _ v] assms(3,4) by (simp add: syncable_def exports_all_def)
  have "serve_spec (view s1) (stripPort (rq_Host r)) (rq_Path r) (fst (ServeHTTP e' r))"
    using Reload_serves[OF assms(10,11) goodD[OF g] len, of "n_engine nd" r] e' by simp
  with p v show ?thesis by auto
qed

theorem publish_reaches_replica_witness:
  "\<exists>p' b1 nd' b2. Publish ref_s3 (reference_env DialectPostgres) (demo_node demo_db) None = (None, p', b1) \<and>
    poll ref_s3 (reference_env DialectSQLite) (reload_of (reference_env DialectSQLite) (sort_desc rl_Priority))
      (demo_node empty_db) b1 = (None, nd', b2) \<and>
    serve_spec (view demo_db) ''old.example'' ''/docs/x''
      (fst (ServeHTTP (n_engine nd') (demo_request ''old.example'' ''/docs/x'')))"
proof -
  let ?env = "reference_env DialectPostgres" and ?env' = "reference_env DialectSQLite"
  obtain p' b1 where pub: "Publish ref_s3 ?env (demo_node demo_db) None = (None, p', b1)"
    and etag: "n_lastETag p' \<noteq> []"
    using demo_publish[of demo_db ?env None] by simp
  have nd: "wf_db (n_store (demo_node empty_db))" "faults (n_store (demo_node empty_db)) = []"
    "n_lastETag (demo_node empty_db) \<noteq> n_lastETag p'"
    using goodD[OF empty_db_good] etag by (simp_all add: demo_node_def)
  have p: "syncable (n_store (demo_node demo_db))" "exports_all ?env (n_store (demo_node demo_db))"
    "list_all entry_ok (export_list ?env (n_store (demo_node demo_db)))"
    using demo_exports_all demo_entry_ok by (simp_all add: demo_node_def)
  obtain nd' b2 where "poll ref_s3 ?env' (reload_of ?env' (sort_desc rl_Priority)) (demo_node empty_db) b1
      = (None, nd', b2)"
    and "serve_spec (view (n_store (demo_node demo_db))) (stripPort ''old.example'') ''/docs/x''
      (fst (ServeHTTP (n_engine nd') (demo_request ''old.example'' ''/docs/x'')))"
    using publish_reaches_replica[OF ref_s3_contract ref_s3_up p pub nd reference_env_contract
        desc_sorts_sort_desc, of DialectSQLite "demo_request ''old.example'' ''/docs/x''"]
    by (auto simp: demo_request_def)
  with pub show ?thesis by (auto simp: demo_node_def stripPort_def)
qed

text \<open>C27: Two control planes lose updates. When both change their store before either has
  polled, the one that publishes last wins: a domain that only the other has is deleted
  from the other's own store by its next successful poll.\<close>
theorem concurrent_publish_loses_update:
  assumes "s3_contract svc obj tag"
    and "syncable (n_store p)" and "exports_all env (n_store p)"
    and "list_all entry_ok (export_list env (n_store p))"
    and "syncable (n_store p2)" and "exports_all env (n_store p2)"
    and "list_all entry_ok (export_list env (n_store p2))"
    and "view (n_store p) n = Some x" and "view (n_store p2) n = None"
    and "Publish svc env p b = (None, p', b1)" and "Publish svc env p2 b1 = (None, p2', b2)"
    and "poll svc env (reload_of env srt) p' b2 = (None, p'', b3)"
  shows "view (n_store p') n = Some x \<and> view (n_store p'') n = None"
proof -
  note pub = Publish_cases[OF assms(1,2,4,10)] and pub2 = Publish_cases[OF assms(1,5,7,11)]
  have "export_list env (n_store p) \<noteq> export_list env (n_store p2)"
    using pub pub2 assms(3,6,8,9) by auto
  then have ne: "n_lastETag p' \<noteq> n_lastETag p2'"
    using pub pub2 assms(1) by (auto simp: s3_contract_def inj_eq)
  from assms(1,12) have "view (n_store p'') = view (n_store p2)"
  proof (cases rule: poll_cases)
    case (fetch d b4)
    from poll_fetch_cases[OF assms(1) _ fetch(4)] fetch pub pub2 assms(6) show ?thesis
      by (auto dest: installs_view)
  qed (use ne pub2 in auto)
  with pub assms(8,9) show ?thesis by simp
qed

theorem concurrent_publish_loses_update_witness:
  "\<exists>p' b1 p2' b2 p'' b3.
    Publish ref_s3 (reference_env DialectPostgres) (demo_node demo_db) None = (None, p', b1) \<and>
    Publish ref_s3 (reference_env DialectPostgres) (demo_node empty_db) b1 = (None, p2', b2) \<and>
    poll ref_s3 (reference_env DialectPostgres)
      (reload_of (reference_env DialectPostgres) (sort_desc rl_Priority)) p' b2 = (None, p'', b3) \<and>
    view (n_store p') ''old.example'' \<noteq> None \<and> view (n_store p'') ''old.example'' = None"
proof -
  let ?env = "reference_env DialectPostgres" and ?srt = "sort_desc rl_Priority"
  let ?e = "export_list ?env empty_db"
  let ?p' = "(demo_node demo_db)\<lparr>n_lastETag := CHR ''e'' # marshal_entries (export_list ?env demo_db)\<rparr>"
  note pub = demo_publish[OF demo_syncable(1) demo_db_faults, of ?env None]
    and pub2 = demo_publish[OF demo_syncable(2) goodD(2)[OF empty_db_good], of ?env]
  have rt: "unmarshal_entries (marshal_entries ?e) = Some ?e"
    "unmarshal_entries (marshal_entries (export_list ?env demo_db)) = Some (export_list ?env demo_db)"
    by (rule entries_round_trip[OF demo_entry_ok(2)], rule entries_round_trip[OF demo_entry_ok(1)])
  have "?e = []" "export_list ?env demo_db \<noteq> []"
    by (simp_all add: export_list_def empty_db_def demo_db_def by_name_def)
  with rt have ne: "n_lastETag ?p' \<noteq> CHR ''e'' # marshal_entries ?e" by auto
  have g: "good (n_store ?p')" by (simp add: demo_node_def good_def)
  obtain p'' b3 where p: "poll ref_s3 ?env (reload_of ?env ?srt) ?p' (Some (marshal_entries ?e))
      = (None, p'', b3)"
    using poll_success[OF ref_s3_contract ref_s3_up g refl rt(1) ne] by metis
  obtain x where x: "view (n_store (demo_node demo_db)) ''old.example'' = Some x"
    by (auto simp: demo_node_def view_def find_domain_def demo_defs)
  have none: "view (n_store (demo_node empty_db)) ''old.example'' = None"
    by (simp add: demo_node_def view_def find_domain_def empty_db_def)
  have s: "syncable (n_store (demo_node demo_db))" "exports_all ?env (n_store (demo_node demo_db))"
    "list_all entry_ok (export_list ?env (n_store (demo_node demo_db)))"
    "syncable (n_store (demo_node empty_db))" "exports_all ?env (n_store (demo_node empty_db))"
    "list_all entry_ok (export_list ?env (n_store (demo_node empty_db)))"
    using demo_exports_all demo_entry_ok by (simp_all add: demo_node_def)
  from concurrent_publish_loses_update[OF ref_s3_contract s x none pub pub2 p]
  show ?thesis using pub pub2 p by auto
qed

text \<open>C28: \<open>poll\<close> records the ETag of its HEAD request for the body of a later GET. When the
  object is replaced in between and then put back, the node keeps the body that was there
  for a moment, takes it for the object, and no later poll corrects it.\<close>
theorem poll_race_goes_stale:
  assumes "s3_contract svc obj tag" and "syncable (n_store nd)"
    and "s3_head svc b = (Inr (Some (tag d)), b1)"
    and "s3_put svc d' b1 = (Inr t', b2)" and "unmarshal_entries d' = Some es'"
    and "poll_fetch svc env (reload_of env srt) (tag d) nd b2 = (None, nd', b3)"
    and "s3_put svc d b3 = (Inr t, b4)"
    and "pollLoop svc env (reload_of env srt) n nd' b4 = (rs, nd'', b5)"
  shows "obj b5 = Some d \<and> view (n_store nd'') = contents_of es'"
proof -
  have o2: "obj b2 = Some d'" using s3_put_ok[OF assms(1,4)] by simp
  from poll_fetch_cases[OF assms(1,2,6)] o2 assms(5)
  have tag: "n_lastETag nd' = tag d" and v: "view (n_store nd') = contents_of es'"
    by (auto dest: installs_view)
  have o4: "obj b4 = Some d" using s3_put_ok[OF assms(1,7)] by simp
  have "obj b = Some d \<Longrightarrow> n_lastETag m = tag d \<Longrightarrow>
      pollLoop svc env (reload_of env srt) k m b = (rs, m', b') \<Longrightarrow> m' = m \<and> obj b' = Some d"
    for k m b rs m' b'
  proof (induction k arbitrary: m b rs m' b')
    case 0
    then show ?case by simp
  next
    case (Suc k)
    obtain r m1 b1 where p: "poll svc env (reload_of env srt) m b = (r, m1, b1)"
      by (metis prod.collapse)
    obtain rs' m2 b2 where l: "pollLoop svc env (reload_of env srt) k m1 b1 = (rs', m2, b2)"
      by (metis prod.collapse)
    from assms(1) p have "m1 = m \<and> obj b1 = Some d"
      by (cases rule: poll_cases) (use Suc.prems in auto)
    with Suc.IH[OF _ _ l] Suc.prems p l show ?case by auto
  qed
  from this[OF o4 tag assms(8)] v show ?thesis by simp
qed

theorem poll_race_goes_stale_witness:
  "\<exists>nd' b3 rs nd'' b5.
    poll_fetch ref_s3 (reference_env DialectSQLite)
      (reload_of (reference_env DialectSQLite) (sort_desc rl_Priority)) ''elatest'' (demo_node demo_db)
      (Some ''null'') = (None, nd', b3) \<and>
    pollLoop ref_s3 (reference_env DialectSQLite)
      (reload_of (reference_env DialectSQLite) (sort_desc rl_Priority)) 3 nd' (Some ''latest'')
      = (rs, nd'', b5) \<and> b5 = Some ''latest'' \<and> view (n_store nd'') = contents_of []"
proof -
  let ?env = "reference_env DialectSQLite" and ?srt = "sort_desc rl_Priority"
  have un: "unmarshal_entries ''null'' = Some []" by code_simp
  obtain s1 where s1: "BulkImportReplace ?env [] demo_db = (Inr (), s1)" "good s1"
    using BulkImportReplace_good[of demo_db ?env "[]"] by (auto simp: good_def)
  obtain e' where e': "Reload ?env ?srt demo_engine s1 = ((None, e'), s1)"
    using Reload_success[OF goodD(2)[OF s1(2)]] by blast
  obtain nd' where f: "poll_fetch ref_s3 ?env (reload_of ?env ?srt) ''elatest'' (demo_node demo_db)
      (Some ''null'') = (None, nd', Some ''null'')"
    using un s1 e' by (simp add: poll_fetch_def ref_s3_def demo_node_def reload_of_def)
  obtain rs nd'' b5 where l: "pollLoop ref_s3 ?env (reload_of ?env ?srt) 3 nd' (Some ''latest'')
      = (rs, nd'', b5)" by (metis prod.collapse)
  have s: "syncable (n_store (demo_node demo_db))" by (simp add: demo_node_def)
  have h: "s3_head ref_s3 (Some ''latest'') = (Inr (Some (CHR ''e'' # ''latest'')), Some ''latest'')"
    "s3_put ref_s3 ''null'' (Some ''latest'') = (Inr (Some ''enull''), Some ''null'')"
    "s3_put ref_s3 ''latest'' (Some ''null'') = (Inr (Some ''elatest''), Some ''latest'')"
    by (simp_all add: ref_s3_def)
  from poll_race_goes_stale[OF ref_s3_contract s h(1,2) un f h(3) l] f l show ?thesis by auto
qed

end
