(* ===== verification/Go_Time.thy ===== *)
theory Go_Time
  imports Store_CRUD
begin

text \<open>
  What the program uses of Go's package \<open>time\<close>: instants in UTC as nanoseconds since the
  start of year 1, the Gregorian calendar, the layouts \<open>SqliteTimeFmt\<close> and \<open>PgTimeFmt\<close>
  (\<open>RFC3339\<close>) in both directions, and truncation to the hour.
\<close>

type_synonym time = int

definition second :: time where "second = 1000000000"
definition hour :: time where "hour = 3600 * second"
definition day :: time where "day = 24 * hour"

section \<open>The calendar\<close>

definition leap :: "int \<Rightarrow> bool" where
  "leap y \<longleftrightarrow> y mod 4 = 0 \<and> (y mod 100 \<noteq> 0 \<or> y mod 400 = 0)"

definition year_len :: "int \<Rightarrow> nat" where
  "year_len y = (if leap y then 366 else 365)"

definition month_lens :: "int \<Rightarrow> nat list" where
  "month_lens y = [31, if leap y then 29 else 28, 31, 30, 31, 30, 31, 31, 30, 31, 30, 31]"

text \<open>The year and the day in it, for a number of days after the start of year \<open>y\<close>.\<close>

function year_of :: "int \<Rightarrow> nat \<Rightarrow> int \<times> nat" where
  "year_of y d = (if d < year_len y then (y, d) else year_of (y + 1) (d - year_len y))"
  by pat_completeness auto
termination
  by (relation "measure snd") (auto simp: year_len_def split: if_splits)

declare year_of.simps [simp del]

fun month_of :: "nat list \<Rightarrow> nat \<Rightarrow> nat \<Rightarrow> nat \<times> nat" where
  "month_of [] m d = (m, d)"
| "month_of (l # ls) m d = (if d < l then (m, d) else month_of ls (Suc m) (d - l))"

text \<open>Year, month and day of a day number; the calendar repeats every 146097 days.\<close>

definition civil :: "int \<Rightarrow> int \<times> nat \<times> nat" where
  "civil d =
     (case year_of 1 (nat (d mod 146097)) of
        (y, r) \<Rightarrow>
          let year = 400 * (d div 146097) + y in
          (case month_of (month_lens year) 1 r of (m, k) \<Rightarrow> (year, m, Suc k)))"

definition days_before_year :: "int \<Rightarrow> int" where
  "days_before_year y = 365 * (y - 1) + (y - 1) div 4 - (y - 1) div 100 + (y - 1) div 400"

definition days_of :: "int \<Rightarrow> nat \<Rightarrow> nat \<Rightarrow> int" where
  "days_of y m k = days_before_year y + int (sum_list (take (m - 1) (month_lens y))) + int k - 1"

section \<open>Formatting\<close>

definition pad :: "nat \<Rightarrow> nat \<Rightarrow> string" where
  "pad w n = replicate (w - length (nat_dec n)) (CHR ''0'') @ nat_dec n"

definition pad_year :: "int \<Rightarrow> string" where
  "pad_year y = (if y < 0 then CHR ''-'' # pad 4 (nat (- y)) else pad 4 (nat y))"

definition fmt_date :: "int \<Rightarrow> string" where
  "fmt_date d = (case civil d of (y, m, k) \<Rightarrow> pad_year y @ ''-'' @ pad 2 m @ ''-'' @ pad 2 k)"

definition fmt_clock :: "nat \<Rightarrow> string" where
  "fmt_clock s = pad 2 (s div 3600) @ '':'' @ pad 2 (s div 60 mod 60) @ '':'' @ pad 2 (s mod 60)"

definition fmt_sqlite :: "time \<Rightarrow> string" where
  "fmt_sqlite t =
     (let s = t div second in fmt_date (s div 86400) @ '' '' @ fmt_clock (nat (s mod 86400)))"

definition fmt_rfc3339 :: "time \<Rightarrow> string" where
  "fmt_rfc3339 t =
     (let s = t div second in fmt_date (s div 86400) @ ''T'' @ fmt_clock (nat (s mod 86400)) @ ''Z'')"

text \<open>\<open>t.Format(s.TimeFmt())\<close>.\<close>

definition TimeFmt :: "dialect \<Rightarrow> time \<Rightarrow> string" where
  "TimeFmt d = (if d = DialectPostgres then fmt_rfc3339 else fmt_sqlite)"

text \<open>Scanning a timestamp: SQLite delivers the text it stores, PostgreSQL a time. Into a fresh
  variable, which a value of another type leaves empty.\<close>

fun scanTime :: "sqlval \<Rightarrow> string" where
  "scanTime (VTime t) = fmt_sqlite t"
| "scanTime (VText s) = s"
| "scanTime (VBytes s) = s"
| "scanTime VNull = []"
| "scanTime _ = []"

text \<open>What a column that was set to the current time by \<open>datetime('now')\<close> or \<open>NOW()\<close> delivers.\<close>

definition now_column :: "dialect \<Rightarrow> time \<Rightarrow> sqlval" where
  "now_column d t = (if d = DialectPostgres then VTime t else VText (fmt_sqlite t))"

lemma scanTime_now_column: "scanTime (now_column d t) = fmt_sqlite t"
  by (simp add: now_column_def)

definition trunc_hour :: "time \<Rightarrow> time" where
  "trunc_hour t = t - t mod hour"

section \<open>Parsing\<close>

definition literal :: "string \<Rightarrow> string \<Rightarrow> string option" where
  "literal p s = (if has_prefix s p then Some (drop (length p) s) else None)"

text \<open>\<open>getnum\<close>: two digits, or one when the layout does not fix the width.\<close>

definition getnum :: "bool \<Rightarrow> string \<Rightarrow> (nat \<times> string) option" where
  "getnum fixed s =
     (case s of
        a # b # rest \<Rightarrow>
          if \<not> is_digit a then None
          else if is_digit b then Some (10 * digit_val a + digit_val b, rest)
          else if fixed then None else Some (digit_val a, b # rest)
      | [a] \<Rightarrow> if is_digit a \<and> \<not> fixed then Some (digit_val a, []) else None
      | [] \<Rightarrow> None)"

definition getyear :: "string \<Rightarrow> (nat \<times> string) option" where
  "getyear s =
     (if 4 \<le> length s \<and> (\<forall>c \<in> set (take 4 s). is_digit c)
      then Some (dec_val 0 (take 4 s), drop 4 s) else None)"

text \<open>A fraction after the seconds is read although the layouts have none.\<close>

definition getfrac :: "string \<Rightarrow> nat \<times> string" where
  "getfrac s =
     (case s of
        c # d # rest \<Rightarrow>
          if (c = CHR ''.'' \<or> c = CHR '','') \<and> is_digit d then
            (let ds = take 9 (takeWhile is_digit (d # rest)) in
             (dec_val 0 ds * 10 ^ (9 - length ds), dropWhile is_digit (d # rest)))
          else (0, s)
      | _ \<Rightarrow> (0, s))"

definition getdate :: "string \<Rightarrow> (int \<times> string) option" where
  "getdate s0 =
     Option.bind (getyear s0) (\<lambda>(y, s1).
     Option.bind (literal ''-'' s1) (\<lambda>s2.
     Option.bind (getnum True s2) (\<lambda>(m, s3).
     if m < 1 \<or> 12 < m then None else
     Option.bind (literal ''-'' s3) (\<lambda>s4.
     Option.bind (getnum True s4) (\<lambda>(k, s5).
     if k < 1 \<or> month_lens (int y) ! (m - 1) < k then None
     else Some (days_of (int y) m k, s5))))))"

definition getclock :: "string \<Rightarrow> (time \<times> string) option" where
  "getclock s0 =
     Option.bind (getnum False s0) (\<lambda>(h, s1).
     if 24 \<le> h then None else
     Option.bind (literal '':'' s1) (\<lambda>s2.
     Option.bind (getnum True s2) (\<lambda>(mi, s3).
     if 60 \<le> mi then None else
     Option.bind (literal '':'' s3) (\<lambda>s4.
     Option.bind (getnum True s4) (\<lambda>(sc, s5).
     if 60 \<le> sc then None
     else (case getfrac s5 of
             (ns, s6) \<Rightarrow> Some (int (3600 * h + 60 * mi + sc) * second + int ns, s6)))))))"

text \<open>A space of a layout stands for one or more; at the end of the text it stands for none.\<close>

definition skip_space :: "string \<Rightarrow> string option" where
  "skip_space s =
     (case s of [] \<Rightarrow> Some []
      | c # cs \<Rightarrow> if c = CHR '' '' then Some (dropWhile (\<lambda>x. x = CHR '' '') s) else None)"

definition getzone :: "string \<Rightarrow> (time \<times> string) option" where
  "getzone s =
     (case s of
        [] \<Rightarrow> None
      | c # cs \<Rightarrow>
          if c = CHR ''Z'' then Some (0, cs)
          else if length s < 6 \<or> s ! 3 \<noteq> CHR '':'' \<or> (c \<noteq> CHR ''+'' \<and> c \<noteq> CHR ''-'') then None
          else
            Option.bind (getnum True (take 2 cs)) (\<lambda>(h, _).
            Option.bind (getnum True (take 2 (drop 3 cs))) (\<lambda>(mi, _).
            if 24 < h \<or> 60 < mi then None
            else (let off = int (3600 * h + 60 * mi) * second in
                  Some (if c = CHR ''-'' then - off else off, drop 5 cs)))))"

definition parse_sqlite :: "string \<Rightarrow> time option" where
  "parse_sqlite s0 =
     Option.bind (getdate s0) (\<lambda>(d, s1).
     Option.bind (skip_space s1) (\<lambda>s2.
     Option.bind (getclock s2) (\<lambda>(c, s3). if s3 = [] then Some (d * day + c) else None)))"

definition parse_rfc3339 :: "string \<Rightarrow> time option" where
  "parse_rfc3339 s0 =
     Option.bind (getdate s0) (\<lambda>(d, s1).
     Option.bind (literal ''T'' s1) (\<lambda>s2.
     Option.bind (getclock s2) (\<lambda>(c, s3).
     Option.bind (getzone s3) (\<lambda>(off, s4).
     if s4 = [] then Some (d * day + c - off) else None))))"

text \<open>\<open>mustParseTime\<close>, at the time \<open>now\<close>.\<close>

definition mustParseTime :: "time \<Rightarrow> string \<Rightarrow> time" where
  "mustParseTime now s =
     (case parse_sqlite s of
        Some t \<Rightarrow> t
      | None \<Rightarrow> (case parse_rfc3339 s of Some t \<Rightarrow> t | None \<Rightarrow> now - 7 * day))"

end
