(* ===== verification/Store_Logs.thy ===== *)
theory Store_Logs
  imports Store_Atomic Go_Time
begin

text \<open>
  \<open>internal/store/store.go\<close>: the request log, the analytics queries, the hourly rollup and
  pruning. A timestamp in SQL is a text that the engine compares by \<open>ts_le\<close>; the queries
  get theirs from the client or by formatting a time of Go.
\<close>

section \<open>Aggregation\<close>

text \<open>\<open>SELECT key, COUNT(*) ... GROUP BY key\<close> and \<open>SELECT key, SUM(val) ... GROUP BY key\<close>.\<close>

definition group_count :: "('a \<Rightarrow> string) \<Rightarrow> 'a list \<Rightarrow> (string \<times> int) list" where
  "group_count key xs =
     map (\<lambda>k. (k, int (length (filter (\<lambda>x. key x = k) xs)))) (remdups (map key xs))"

definition group_sum :: "('a \<Rightarrow> string) \<Rightarrow> ('a \<Rightarrow> int) \<Rightarrow> 'a list \<Rightarrow> (string \<times> int) list" where
  "group_sum key val xs =
     map (\<lambda>k. (k, sum_list (map val (filter (\<lambda>x. key x = k) xs)))) (remdups (map key xs))"

section \<open>The request log\<close>

definition sql_insert_log :: "request_log_entry \<Rightarrow> db \<Rightarrow> unit res" where
  "sql_insert_log e s =
     (Inr (), s\<lparr>request_log := request_log s @ [\<lparr>lr_entry = e, lr_created_at = db_now s\<rparr>]\<rparr>)"

text \<open>The statement is prepared once in the transaction.\<close>

definition BatchInsertLogs :: "sqlenv \<Rightarrow> request_log_entry list \<Rightarrow> db \<Rightarrow> unit res" where
  "BatchInsertLogs env entries =
     (if entries = [] then retE ()
      else transaction env
        (bindE (exec (retE ())) (\<lambda>_. for_each (\<lambda>e. exec (sql_insert_log e)) entries)))"

definition PruneOldLogs :: "sqlenv \<Rightarrow> time \<Rightarrow> db \<Rightarrow> int res" where
  "PruneOldLogs env olderThan =
     exec (\<lambda>s. let old = (\<lambda>r. \<not> ts_le env (TimeFmt (env_dialect env) olderThan) (lr_created_at r))
               in (Inr (int (length (filter old (request_log s)))),
                   s\<lparr>request_log := filter (\<lambda>r. \<not> old r) (request_log s)\<rparr>))"

section \<open>Analytics queries\<close>

text \<open>A limit that is not positive means 20.\<close>

definition default_limit :: "int \<Rightarrow> nat" where
  "default_limit limit = nat (if limit \<le> 0 then 20 else limit)"

definition AnalyticsSummary :: "sqlenv \<Rightarrow> string \<Rightarrow> int \<Rightarrow> db \<Rightarrow> (string \<times> int) list res" where
  "AnalyticsSummary env since limit =
     query_all (\<lambda>s. take (default_limit limit) (ord_count env (group_sum st_domain st_hit_count
       (filter (\<lambda>r. ts_le env since (st_bucket r)) (domain_stats s)))))"

definition trunc_expr :: "dialect \<Rightarrow> string \<Rightarrow> bucket_expr" where
  "trunc_expr d granularity =
     (if d = DialectPostgres then
        (if granularity = ''daily'' then PgDay
         else if granularity = ''weekly'' then PgWeek else PgHour)
      else
        (if granularity = ''daily'' then LiteDay
         else if granularity = ''weekly'' then LiteWeek else LiteBucket))"

definition AnalyticsDomainTraffic ::
  "sqlenv \<Rightarrow> string \<Rightarrow> string \<Rightarrow> string \<Rightarrow> string \<Rightarrow> db \<Rightarrow> (string \<times> int) list res" where
  "AnalyticsDomainTraffic env name since until_t granularity =
     (let expr = trunc_expr (env_dialect env) granularity in
      query_all (\<lambda>s. sort_rel (\<lambda>a b. collate env (fst a) (fst b))
        (group_sum (\<lambda>r. eval_bucket env expr (st_bucket r)) st_hit_count
          (filter (\<lambda>r. st_domain r = name \<and> ts_le env since (st_bucket r) \<and>
                       ts_le env (st_bucket r) until_t) (domain_stats s)))))"

definition AnalyticsDomainPaths ::
  "sqlenv \<Rightarrow> string \<Rightarrow> string \<Rightarrow> int \<Rightarrow> db \<Rightarrow> (string \<times> int) list res" where
  "AnalyticsDomainPaths env name since limit =
     query_all (\<lambda>s. take (default_limit limit) (ord_count env (group_count (l_Path \<circ> lr_entry)
       (filter (\<lambda>r. l_Domain (lr_entry r) = name \<and> ts_le env since (lr_created_at r)) (request_log s)))))"

definition AnalyticsInactive :: "sqlenv \<Rightarrow> time \<Rightarrow> int \<Rightarrow> db \<Rightarrow> string list res" where
  "AnalyticsInactive env now days =
     (let n = (if days \<le> 0 then 30 else days);
          since = TimeFmt (env_dialect env) (now - n * day) in
      query_all (\<lambda>s. map d_Name (by_name env
        (filter (\<lambda>d. d_Enabled d = stored_bool env True \<and>
           d_Name d \<notin> (l_Domain \<circ> lr_entry) `
             set (filter (\<lambda>r. ts_le env since (lr_created_at r)) (request_log s)))
          (domains s)))))"

text \<open>A \<open>time.Duration\<close> saturates; the division of a negative one truncates towards zero.\<close>

definition clamp_duration :: "int \<Rightarrow> int" where
  "clamp_duration d = max min_int64 (min max_int64 d)"

definition half :: "int \<Rightarrow> int" where
  "half d = (if 0 \<le> d then d div 2 else - ((- d) div 2))"

definition midpoint :: "time \<Rightarrow> string \<Rightarrow> time" where
  "midpoint now since = now + half (- clamp_duration (now - mustParseTime now since))"

definition AnalyticsTrending :: "sqlenv \<Rightarrow> time \<Rightarrow> string \<Rightarrow> int \<Rightarrow> db \<Rightarrow> (string \<times> int) list res" where
  "AnalyticsTrending env now since limit =
     (let mid = TimeFmt (env_dialect env) (midpoint now since) in
      query_all (\<lambda>s. take (default_limit limit) (ord_count env (group_sum st_domain
        (\<lambda>r. if ts_le env mid (st_bucket r) then st_hit_count r else - st_hit_count r)
        (filter (\<lambda>r. ts_le env since (st_bucket r)) (domain_stats s))))))"

definition AnalyticsReferers :: "sqlenv \<Rightarrow> string \<Rightarrow> int \<Rightarrow> db \<Rightarrow> (string \<times> int) list res" where
  "AnalyticsReferers env since limit =
     query_all (\<lambda>s. take (default_limit limit) (ord_count env (group_count (l_Referer \<circ> lr_entry)
       (filter (\<lambda>r. l_Referer (lr_entry r) \<noteq> [] \<and> ts_le env since (lr_created_at r)) (request_log s)))))"

definition AnalyticsExport :: "sqlenv \<Rightarrow> string \<Rightarrow> db \<Rightarrow> log_row list res" where
  "AnalyticsExport env since =
     query_all (\<lambda>s. ord_created env (filter (\<lambda>r. ts_le env since (lr_created_at r)) (request_log s)))"

section \<open>The rollup\<close>

text \<open>The rows of the log in a window, and the aggregate query over them.\<close>

definition in_window :: "sqlenv \<Rightarrow> string \<Rightarrow> string \<Rightarrow> log_row \<Rightarrow> bool" where
  "in_window env lo hi r \<longleftrightarrow> ts_le env lo (lr_created_at r) \<and> \<not> ts_le env hi (lr_created_at r)"

definition log_of :: "sqlenv \<Rightarrow> string \<Rightarrow> string \<Rightarrow> string \<Rightarrow> db \<Rightarrow> log_row list" where
  "log_of env name lo hi s =
     filter (\<lambda>r. l_Domain (lr_entry r) = name \<and> in_window env lo hi r) (request_log s)"

definition unique_ips :: "log_row list \<Rightarrow> int" where
  "unique_ips rows = int (length (remdups (map (l_ClientIP \<circ> lr_entry) rows)))"

definition rollup_rows :: "sqlenv \<Rightarrow> string \<Rightarrow> string \<Rightarrow> db \<Rightarrow> (string \<times> int \<times> int) list" where
  "rollup_rows env lo hi s =
     map (\<lambda>name. (name, int (length (log_of env name lo hi s)), unique_ips (log_of env name lo hi s)))
       (remdups (map (l_Domain \<circ> lr_entry) (filter (in_window env lo hi) (request_log s))))"

text \<open>The two top-ten lists; a failed query counts as an empty one.\<close>

definition query_or_empty :: "(db \<Rightarrow> (string \<times> int) list) \<Rightarrow> db \<Rightarrow> (string \<times> int) list \<times> db" where
  "query_or_empty rows s =
     (case query rows s of (Inl e, s') \<Rightarrow> ([], s') | (Inr (rs, _), s') \<Rightarrow> (rs, s'))"

definition getTopPaths :: "sqlenv \<Rightarrow> string \<Rightarrow> string \<Rightarrow> string \<Rightarrow> db \<Rightarrow> (string \<times> int) list \<times> db" where
  "getTopPaths env name lo hi =
     query_or_empty (\<lambda>s. take 10 (ord_count env (group_count (l_Path \<circ> lr_entry) (log_of env name lo hi s))))"

definition getTopReferers :: "sqlenv \<Rightarrow> string \<Rightarrow> string \<Rightarrow> string \<Rightarrow> db \<Rightarrow> (string \<times> int) list \<times> db" where
  "getTopReferers env name lo hi =
     query_or_empty (\<lambda>s. take 10 (ord_count env (group_count (l_Referer \<circ> lr_entry)
       (filter (\<lambda>r. l_Referer (lr_entry r) \<noteq> []) (log_of env name lo hi s)))))"

text \<open>\<open>INSERT INTO domain_stats ... ON CONFLICT(domain, bucket) DO UPDATE\<close>.\<close>

definition stat_key :: "stat_row \<Rightarrow> string \<times> string" where
  "stat_key r = (st_domain r, st_bucket r)"

definition sql_upsert_stat :: "stat_row \<Rightarrow> db \<Rightarrow> unit res" where
  "sql_upsert_stat new s =
     (Inr (), s\<lparr>domain_stats :=
        (if stat_key new \<in> stat_key ` set (domain_stats s)
         then map (\<lambda>r. if stat_key r = stat_key new then new else r) (domain_stats s)
         else domain_stats s @ [new])\<rparr>)"

definition rollup_row :: "sqlenv \<Rightarrow> string \<Rightarrow> string \<Rightarrow> string \<times> int \<times> int \<Rightarrow> db \<Rightarrow> unit res" where
  "rollup_row env lo hi row s =
     (case row of (name, hits, ips) \<Rightarrow>
        (case getTopPaths env name lo hi s of
           (tp, s1) \<Rightarrow>
             (case getTopReferers env name lo hi s1 of
                (tr, s2) \<Rightarrow>
                  exec (sql_upsert_stat \<lparr>st_domain = name, st_bucket = lo, st_hit_count = hits,
                    st_unique_ips = ips, st_top_paths = tp, st_top_referers = tr\<rparr>) s2)))"

text \<open>The loop over the rows does not look at \<open>rows.Err()\<close>.\<close>

definition RunRollup :: "sqlenv \<Rightarrow> time \<Rightarrow> db \<Rightarrow> unit res" where
  "RunRollup env t =
     (let lo = TimeFmt (env_dialect env) (trunc_hour t);
          hi = TimeFmt (env_dialect env) (trunc_hour t + hour) in
      bindE (query (rollup_rows env lo hi)) (\<lambda>(rows, _).
        transaction env (for_each (rollup_row env lo hi) rows)))"

end
