(* ===== verification/Api_Base.thy ===== *)
theory Api_Base
  imports Sync Store_Logs
begin

text \<open>
  Requests and responses of the admin API, the state of the process the handlers run in, and
  the two functions of \<open>internal/api/handlers.go\<close> that write a response.
\<close>

section \<open>Requests, responses, state\<close>

text \<open>\<open>ar_Query\<close> is \<open>URL.Query().Get\<close>, \<open>ar_Path\<close> the unescaped path segments, \<open>ar_Time\<close> what
  \<open>time.Now()\<close> gives while the request is handled.\<close>

record api_request =
  ar_Method :: string
  ar_Path :: "string list"
  ar_Query :: "string \<Rightarrow> string"
  ar_Body :: string
  ar_Time :: time

record response =
  rs_Status :: int
  rs_Headers :: "(string \<times> string) list"
  rs_Body :: string

record 'b api =
  a_node :: node
  a_syncer :: bool
  a_bucket :: 'b

text \<open>What the process depends on: the S3 client, the database engine, the sort.\<close>

record 'b deps =
  dp_s3 :: "'b s3"
  dp_env :: sqlenv
  dp_srt :: "rule list \<Rightarrow> rule list"

section \<open>Helpers of the handlers\<close>

text \<open>\<open>json.NewEncoder(w).Encode(v)\<close> ends with a newline.\<close>

definition writeJSON :: "int \<Rightarrow> json \<Rightarrow> response" where
  "writeJSON status v =
     \<lparr>rs_Status = status, rs_Headers = [(''Content-Type'', ''application/json'')], rs_Body = json_marshal v @ [CHR 0x0A]\<rparr>"

definition writeError :: "int \<Rightarrow> string \<Rightarrow> response" where
  "writeError status msg = writeJSON status (JObj [(''error'', JStr msg)])"

end
