(* ===== verification/Csv.thy ===== *)
theory Csv
  imports Json_Text
begin

text \<open>
  The writer of \<open>encoding/csv\<close> with its defaults (a comma, lines ending in a newline), as
  the analytics export of \<open>internal/api/handlers.go\<close> uses it, and a reader of RFC 4180.
\<close>

section \<open>Writer\<close>

definition csv_special :: "char \<Rightarrow> bool" where
  "csv_special c \<longleftrightarrow> c \<in> {CHR '','', CHR 0x22, CHR 0x0A, CHR 0x0D}"

text \<open>\<open>unicode.IsSpace\<close>.\<close>

definition space_rune :: "nat \<Rightarrow> bool" where
  "space_rune v \<longleftrightarrow> v \<in> {9, 10, 11, 12, 13, 32, 0x85, 0xA0, 0x1680, 0x2028, 0x2029, 0x202F, 0x205F, 0x3000} \<or>
     0x2000 \<le> v \<and> v \<le> 0x200A"

definition fieldNeedsQuotes :: "string \<Rightarrow> bool" where
  "fieldNeedsQuotes f \<longleftrightarrow> f \<noteq> [] \<and>
     (f = [CHR 0x5C, CHR ''.''] \<or> list_ex csv_special f \<or> space_rune (rune_value (hd (runes f))))"

definition double_quotes :: "string \<Rightarrow> string" where
  "double_quotes f = concat (map (\<lambda>c. if c = CHR 0x22 then [c, c] else [c]) f)"

definition csv_field :: "string \<Rightarrow> string" where
  "csv_field f = (if fieldNeedsQuotes f then [CHR 0x22] @ double_quotes f @ [CHR 0x22] else f)"

fun csv_record :: "string list \<Rightarrow> string" where
  "csv_record [] = [CHR 0x0A]"
| "csv_record [f] = csv_field f @ [CHR 0x0A]"
| "csv_record (f # fs) = csv_field f @ CHR '','' # csv_record fs"

definition csv_text :: "string list list \<Rightarrow> string" where
  "csv_text rows = concat (map csv_record rows)"

section \<open>Reader\<close>

datatype csv_state = AtStart | InPlain | InQuotes | AfterQuote

fun csv_read :: "csv_state \<Rightarrow> string \<Rightarrow> string list \<Rightarrow> string \<Rightarrow> string list list" where
  "csv_read st f row [] = (if st = AtStart \<and> row = [] then [] else [row @ [f]])"
| "csv_read st f row (c # cs) =
     (if st = InQuotes then
        (if c = CHR 0x22 then csv_read AfterQuote f row cs else csv_read InQuotes (f @ [c]) row cs)
      else if c = CHR '','' then csv_read AtStart [] (row @ [f]) cs
      else if c = CHR 0x0A then (row @ [f]) # csv_read AtStart [] [] cs
      else if c = CHR 0x22 \<and> st = AtStart then csv_read InQuotes f row cs
      else if c = CHR 0x22 \<and> st = AfterQuote then csv_read InQuotes (f @ [c]) row cs
      else csv_read InPlain (f @ [c]) row cs)"

definition csv_parse :: "string \<Rightarrow> string list list" where
  "csv_parse s = csv_read AtStart [] [] s"

section \<open>Round trip\<close>

definition csv_next :: "char \<Rightarrow> string \<Rightarrow> string list \<Rightarrow> string \<Rightarrow> string list list" where
  "csv_next d f row cs =
     (if d = CHR '','' then csv_read AtStart [] (row @ [f]) cs
      else (row @ [f]) # csv_read AtStart [] [] cs)"

definition csv_delim :: "char \<Rightarrow> bool" where
  "csv_delim d \<longleftrightarrow> d = CHR '','' \<or> d = CHR 0x0A"

lemma read_delim:
  "csv_delim d \<Longrightarrow> st \<noteq> InQuotes \<Longrightarrow> csv_read st f row (d # cs) = csv_next d f row cs"
  by (auto simp: csv_delim_def csv_next_def)

lemma read_plain:
  assumes "\<not> list_ex csv_special f" and "csv_delim d" and "st = AtStart \<or> st = InPlain"
  shows "csv_read st g row (f @ d # cs) = csv_next d (g @ f) row cs"
  using assms
proof (induction f arbitrary: g st)
  case Nil
  then show ?case using read_delim[of d st] by auto
next
  case (Cons c f)
  from Cons.prems have c: "c \<noteq> CHR '',''" "c \<noteq> CHR 0x22" "c \<noteq> CHR 0x0A"
    by (auto simp: csv_special_def)
  from Cons.prems have "csv_read st g row ((c # f) @ d # cs) = csv_read InPlain (g @ [c]) row (f @ d # cs)"
    using c by auto
  with Cons.IH[of InPlain "g @ [c]"] Cons.prems show ?case by simp
qed

lemma read_quoted:
  "csv_read InQuotes g row (double_quotes f @ CHR 0x22 # cs) = csv_read AfterQuote (g @ f) row cs"
proof (induction f arbitrary: g)
  case (Cons c f)
  have "double_quotes (c # f) = (if c = CHR 0x22 then [c, c] else [c]) @ double_quotes f"
    by (simp add: double_quotes_def)
  with Cons[of "g @ [c]"] show ?case by (cases "c = CHR 0x22") simp_all
qed (simp add: double_quotes_def)

lemma read_field:
  assumes "csv_delim d"
  shows "csv_read AtStart [] row (csv_field f @ d # cs) = csv_next d f row cs"
proof (cases "fieldNeedsQuotes f")
  case True
  have "csv_read AtStart [] row (csv_field f @ d # cs)
      = csv_read InQuotes [] row (double_quotes f @ CHR 0x22 # d # cs)"
    using True by (simp add: csv_field_def)
  with read_quoted[of "[]" row f "d # cs"] read_delim[OF assms, of AfterQuote] show ?thesis by simp
next
  case False
  have "\<not> list_ex csv_special f"
  proof (cases f)
    case (Cons c cs)
    with False show ?thesis by (auto simp: fieldNeedsQuotes_def)
  qed simp
  with False read_plain[of f d AtStart "[]" row cs] assms show ?thesis by (simp add: csv_field_def)
qed

lemma read_record:
  "fs \<noteq> [] \<Longrightarrow> csv_read AtStart [] row (csv_record fs @ cs) = (row @ fs) # csv_read AtStart [] [] cs"
proof (induction fs arbitrary: row rule: csv_record.induct)
  case (2 f)
  have "csv_delim (CHR 0x0A)" by (simp add: csv_delim_def)
  from read_field[OF this, of row f cs] show ?case by (simp add: csv_next_def)
next
  case (3 f g fs)
  have "csv_delim (CHR '','')" by (simp add: csv_delim_def)
  from read_field[OF this, of row f "csv_record (g # fs) @ cs"] "3.IH"[of "row @ [f]"]
  show ?case by (simp add: csv_next_def)
qed simp

lemma csv_round_trip:
  "[] \<notin> set rows \<Longrightarrow> csv_parse (csv_text rows) = rows"
proof (induction rows)
  case (Cons r rows)
  then have "r \<noteq> []" by auto
  from read_record[OF this, of "[]" "csv_text rows"] Cons show ?case
    by (simp add: csv_parse_def csv_text_def)
qed (simp add: csv_parse_def csv_text_def)

end
