(* ===== verification/Api_Analytics.thy ===== *)
theory Api_Analytics
  imports Api_Base Csv
begin

text \<open>
  The analytics handlers of \<open>internal/api/handlers.go\<close>: each takes a request and the store
  and gives the response and the store (which only a database fault changes). Encoding a nil
  slice gives \<open>null\<close>, encoding a map sorts its keys.
\<close>

section \<open>Parameters and rows\<close>

text \<open>The \<open>since\<close> of a request, or the given number of days before now.\<close>

definition since_or :: "int \<Rightarrow> sqlenv \<Rightarrow> api_request \<Rightarrow> string" where
  "since_or days env r =
     (let since = ar_Query r ''since'' in
      if since = [] then TimeFmt (env_dialect env) (ar_Time r - days * day) else since)"

definition encode_count :: "string \<Rightarrow> string \<Rightarrow> string \<times> int \<Rightarrow> json" where
  "encode_count key val row = JObj [(key, JStr (fst row)), (val, jint (snd row))]"

text \<open>How a report ends: 500 with the text of the error, or the encoded rows.\<close>

definition answer_rows :: "('r list \<Rightarrow> response) \<Rightarrow> (db \<Rightarrow> 'r list res) \<Rightarrow> db \<Rightarrow> response \<times> db" where
  "answer_rows answer call s =
     (case call s of
        (Inl e, s') \<Rightarrow> (writeError 500 (err_text e), s')
      | (Inr rows, s') \<Rightarrow> (answer rows, s'))"

section \<open>Handlers\<close>

definition analyticsSummary :: "sqlenv \<Rightarrow> api_request \<Rightarrow> db \<Rightarrow> response \<times> db" where
  "analyticsSummary env r =
     answer_rows (\<lambda>rows. writeJSON 200 (jslice (encode_count ''domain'' ''hit_count'') rows))
       (AnalyticsSummary env (since_or 7 env r) (atoi (ar_Query r ''limit'')))"

definition analyticsDomain :: "sqlenv \<Rightarrow> string \<Rightarrow> api_request \<Rightarrow> db \<Rightarrow> response \<times> db" where
  "analyticsDomain env name r =
     (let until_t = (if ar_Query r ''until'' = [] then TimeFmt (env_dialect env) (ar_Time r)
                     else ar_Query r ''until'');
          granularity = (if ar_Query r ''granularity'' = [] then ''hourly'' else ar_Query r ''granularity'')
      in answer_rows (\<lambda>rows. writeJSON 200 (jslice (encode_count ''bucket'' ''hit_count'') rows))
           (AnalyticsDomainTraffic env name (since_or 7 env r) until_t granularity))"

definition analyticsPaths :: "sqlenv \<Rightarrow> string \<Rightarrow> api_request \<Rightarrow> db \<Rightarrow> response \<times> db" where
  "analyticsPaths env name r =
     answer_rows (\<lambda>rows. writeJSON 200 (jslice (encode_count ''path'' ''count'') rows))
       (AnalyticsDomainPaths env name (since_or 7 env r) (atoi (ar_Query r ''limit'')))"

definition analyticsInactive :: "sqlenv \<Rightarrow> api_request \<Rightarrow> db \<Rightarrow> response \<times> db" where
  "analyticsInactive env r =
     (let n = atoi (ar_Query r ''days''); days = (if n \<le> 0 then 30 else n) in
      answer_rows (\<lambda>names. writeJSON 200
          (JObj [(''count'', jint (int (length names))), (''days'', jint days),
                 (''domains'', jslice JStr names)]))
        (AnalyticsInactive env (ar_Time r) days))"

definition analyticsTrending :: "sqlenv \<Rightarrow> api_request \<Rightarrow> db \<Rightarrow> response \<times> db" where
  "analyticsTrending env r =
     answer_rows (\<lambda>rows. writeJSON 200 (jslice (encode_count ''domain'' ''hit_count'') rows))
       (AnalyticsTrending env (ar_Time r) (since_or 14 env r) (atoi (ar_Query r ''limit'')))"

definition analyticsReferers :: "sqlenv \<Rightarrow> api_request \<Rightarrow> db \<Rightarrow> response \<times> db" where
  "analyticsReferers env r =
     answer_rows (\<lambda>rows. writeJSON 200 (jslice (encode_count ''referer'' ''count'') rows))
       (AnalyticsReferers env (since_or 7 env r) (atoi (ar_Query r ''limit'')))"

text \<open>The columns of the export, as \<open>%v\<close> prints them.\<close>

definition export_headers :: "string list" where
  "export_headers = [''domain'', ''path'', ''query'', ''status_code'', ''target_url'', ''client_ip'',
     ''user_agent'', ''referer'', ''created_at'']"

definition export_record :: "log_row \<Rightarrow> string list" where
  "export_record row =
     (let e = lr_entry row in
      [l_Domain e, l_Path e, l_Query e, int_dec (l_Status e), l_TargetURL e, l_ClientIP e,
       l_UserAgent e, l_Referer e, lr_created_at row])"

definition encode_log_row :: "log_row \<Rightarrow> json" where
  "encode_log_row row =
     (let e = lr_entry row in
      JObj [(''client_ip'', JStr (l_ClientIP e)), (''created_at'', JStr (lr_created_at row)),
            (''domain'', JStr (l_Domain e)), (''path'', JStr (l_Path e)), (''query'', JStr (l_Query e)),
            (''referer'', JStr (l_Referer e)), (''status_code'', jint (l_Status e)),
            (''target_url'', JStr (l_TargetURL e)), (''user_agent'', JStr (l_UserAgent e))])"

definition csv_response :: "log_row list \<Rightarrow> response" where
  "csv_response rows =
     \<lparr>rs_Status = 200,
      rs_Headers = [(''Content-Type'', ''text/csv''),
                    (''Content-Disposition'', ''attachment; filename=analytics-export.csv'')],
      rs_Body = csv_text (export_headers # map export_record rows)\<rparr>"

definition analyticsExport :: "sqlenv \<Rightarrow> api_request \<Rightarrow> db \<Rightarrow> response \<times> db" where
  "analyticsExport env r =
     answer_rows
       (if ar_Query r ''format'' = ''csv'' then csv_response
        else (\<lambda>rows. writeJSON 200 (jslice encode_log_row rows)))
       (AnalyticsExport env (since_or 7 env r))"

section \<open>The reports only read\<close>

lemma answer_rows_quiet: "snd (call s) = s \<Longrightarrow> snd (answer_rows f call s) = s"
  by (auto simp: answer_rows_def split: prod.splits sum.splits)

lemmas analytics_queries = AnalyticsSummary_def AnalyticsDomainTraffic_def AnalyticsDomainPaths_def
  AnalyticsInactive_def AnalyticsTrending_def AnalyticsReferers_def AnalyticsExport_def

lemmas analytics_handlers = analyticsSummary_def analyticsDomain_def analyticsPaths_def
  analyticsInactive_def analyticsTrending_def analyticsReferers_def analyticsExport_def

lemma analytics_quiet:
  assumes "faults s = []"
  shows "snd (analyticsSummary env r s) = s" "snd (analyticsDomain env name r s) = s"
    "snd (analyticsPaths env name r s) = s" "snd (analyticsInactive env r s) = s"
    "snd (analyticsTrending env r s) = s" "snd (analyticsReferers env r s) = s"
    "snd (analyticsExport env r s) = s"
  unfolding analytics_handlers Let_def
  by (intro answer_rows_quiet; simp add: analytics_queries Let_def assms)+

end
