(* ===== verification/Api.thy ===== *)
theory Api
  imports Api_Analytics
begin

text \<open>
  \<open>internal/api/handlers.go\<close> and \<open>middleware.go\<close>: the admin API. A handler takes a request
  and the state of the process and gives the response and the new state; the state holds the
  store, the engine and, on a control plane, the syncer with its bucket.
\<close>

section \<open>Helpers of the handlers\<close>

definition status_body :: "string \<Rightarrow> json" where
  "status_body s = JObj [(''status'', JStr s)]"

definition a_store :: "'b api \<Rightarrow> db" where
  "a_store st = n_store (a_node st)"

definition set_store :: "db \<Rightarrow> 'b api \<Rightarrow> 'b api" where
  "set_store s st = st\<lparr>a_node := (a_node st)\<lparr>n_store := s\<rparr>\<rparr>"

text \<open>\<open>h.engine.Reload()\<close>, its error ignored, and \<open>h.publish(r)\<close>, its error only logged.\<close>

definition reload :: "'b deps \<Rightarrow> 'b api \<Rightarrow> 'b api" where
  "reload dp st =
     (case Reload (dp_env dp) (dp_srt dp) (n_engine (a_node st)) (a_store st) of
        ((_, e), s) \<Rightarrow> st\<lparr>a_node := (a_node st)\<lparr>n_store := s, n_engine := e\<rparr>\<rparr>)"

definition publish :: "'b deps \<Rightarrow> 'b api \<Rightarrow> 'b api" where
  "publish dp st =
     (if a_syncer st then
        (case Publish (dp_s3 dp) (dp_env dp) (a_node st) (a_bucket st) of
           (_, nd, b) \<Rightarrow> st\<lparr>a_node := nd, a_bucket := b\<rparr>)
      else st)"

text \<open>The errors of SQL that mean a conflict.\<close>

definition is_conflict :: "go_error \<Rightarrow> bool" where
  "is_conflict e \<longleftrightarrow> contains (err_text e) ''UNIQUE'' \<or> contains (err_text e) ''unique'' \<or>
     contains (err_text e) ''duplicate''"

section \<open>Domain handlers\<close>

definition listDomains :: "'b deps \<Rightarrow> api_request \<Rightarrow> 'b api \<Rightarrow> response \<times> 'b api" where
  "listDomains dp r st =
     (let search = ar_Query r ''search'';
          limit = atoi (ar_Query r ''limit'');
          offset = atoi (ar_Query r ''offset'')
      in case ListDomains (dp_env dp) search limit offset (a_store st) of
           (Inl e, s) \<Rightarrow> (writeError 500 (err_text e), set_store s st)
         | (Inr (ds, cnt), s) \<Rightarrow>
             (writeJSON 200 (JObj [(''domains'', jslice encode_domain ds), (''limit'', jint limit),
                                   (''offset'', jint offset), (''total'', jint cnt)]),
              set_store s st))"

definition createDomain :: "'b deps \<Rightarrow> api_request \<Rightarrow> 'b api \<Rightarrow> response \<times> 'b api" where
  "createDomain dp r st =
     (case Option.bind (json_decode (ar_Body r)) decode_domain of
        None \<Rightarrow> (writeError 400 ''invalid JSON'', st)
      | Some d \<Rightarrow>
          if d_Name d = [] \<or> d_DefaultURL d = []
          then (writeError 400 ''name and default_url are required'', st)
          else
            let d1 = d\<lparr>d_StatusCode := (if d_StatusCode d = 0 then 301 else d_StatusCode d),
                       d_Enabled := True\<rparr>
            in case CreateDomain (dp_env dp) d1 (a_store st) of
                 (Inl e, s) \<Rightarrow>
                   ((if is_conflict e then writeError 409 ''domain already exists''
                     else writeError 500 (err_text e)), set_store s st)
               | (Inr d2, s) \<Rightarrow>
                   (writeJSON 201 (encode_domain d2), publish dp (reload dp (set_store s st))))"

definition getDomain :: "'b deps \<Rightarrow> string \<Rightarrow> 'b api \<Rightarrow> response \<times> 'b api" where
  "getDomain dp name st =
     (case GetDomain (dp_env dp) name (a_store st) of
        (Inl e, s) \<Rightarrow>
          ((if e = ErrNoRows then writeError 404 ''domain not found''
            else writeError 500 (err_text e)), set_store s st)
      | (Inr d, s) \<Rightarrow> (writeJSON 200 (encode_domain_with_rules d), set_store s st))"

definition updateDomain :: "'b deps \<Rightarrow> string \<Rightarrow> api_request \<Rightarrow> 'b api \<Rightarrow> response \<times> 'b api" where
  "updateDomain dp name r st =
     (case Option.bind (json_decode (ar_Body r)) decode_domain of
        None \<Rightarrow> (writeError 400 ''invalid JSON'', st)
      | Some d \<Rightarrow>
          (case UpdateDomain (dp_env dp) name d (a_store st) of
             (Inl e, s) \<Rightarrow> (writeError 500 (err_text e), set_store s st)
           | (Inr _, s) \<Rightarrow>
               (writeJSON 200 (status_body ''updated''), publish dp (reload dp (set_store s st)))))"

definition deleteDomain :: "'b deps \<Rightarrow> string \<Rightarrow> 'b api \<Rightarrow> response \<times> 'b api" where
  "deleteDomain dp name st =
     (case DeleteDomain (dp_env dp) name (a_store st) of
        (Inl e, s) \<Rightarrow> (writeError 500 (err_text e), set_store s st)
      | (Inr _, s) \<Rightarrow>
          (writeJSON 200 (status_body ''deleted''), publish dp (reload dp (set_store s st))))"

section \<open>Rule handlers\<close>

definition listRules :: "'b deps \<Rightarrow> string \<Rightarrow> 'b api \<Rightarrow> response \<times> 'b api" where
  "listRules dp name st =
     (case GetDomain (dp_env dp) name (a_store st) of
        (Inl e, s) \<Rightarrow>
          ((if e = ErrNoRows then writeError 404 ''domain not found''
            else writeError 500 (err_text e)), set_store s st)
      | (Inr d, s) \<Rightarrow> (writeJSON 200 (jslice encode_rule (dr_Rules d)), set_store s st))"

definition createRule :: "'b deps \<Rightarrow> string \<Rightarrow> api_request \<Rightarrow> 'b api \<Rightarrow> response \<times> 'b api" where
  "createRule dp name r st =
     (case GetDomain (dp_env dp) name (a_store st) of
        (Inl e, s) \<Rightarrow>
          ((if e = ErrNoRows then writeError 404 ''domain not found''
            else writeError 500 (err_text e)), set_store s st)
      | (Inr d, s) \<Rightarrow>
          (case Option.bind (json_decode (ar_Body r)) decode_rule of
             None \<Rightarrow> (writeError 400 ''invalid JSON'', set_store s st)
           | Some rule \<Rightarrow>
               if r_Path rule = [] \<or> r_TargetURL rule = []
               then (writeError 400 ''path and target_url are required'', set_store s st)
               else
                 let rule1 = rule\<lparr>r_StatusCode := (if r_StatusCode rule = 0 then 301 else r_StatusCode rule),
                                  r_DomainID := d_ID (dr_Domain d), r_Enabled := True\<rparr>
                 in case CreateRule (dp_env dp) rule1 s of
                      (Inl e, s1) \<Rightarrow>
                        ((if is_conflict e then writeError 409 ''rule for this path already exists''
                          else writeError 500 (err_text e)), set_store s1 st)
                    | (Inr rule2, s1) \<Rightarrow>
                        (writeJSON 201 (encode_rule rule2), publish dp (reload dp (set_store s1 st)))))"

definition updateRule :: "'b deps \<Rightarrow> string \<Rightarrow> api_request \<Rightarrow> 'b api \<Rightarrow> response \<times> 'b api" where
  "updateRule dp idtext r st =
     (case parse_int idtext of
        (i, err) \<Rightarrow>
          if err then (writeError 400 ''invalid rule id'', st)
          else
            (case Option.bind (json_decode (ar_Body r)) decode_rule of
               None \<Rightarrow> (writeError 400 ''invalid JSON'', st)
             | Some rule \<Rightarrow>
                 (case UpdateRule (dp_env dp) i rule (a_store st) of
                    (Inl e, s) \<Rightarrow> (writeError 500 (err_text e), set_store s st)
                  | (Inr _, s) \<Rightarrow>
                      (writeJSON 200 (status_body ''updated''),
                       publish dp (reload dp (set_store s st))))))"

definition deleteRule :: "'b deps \<Rightarrow> string \<Rightarrow> 'b api \<Rightarrow> response \<times> 'b api" where
  "deleteRule dp idtext st =
     (case parse_int idtext of
        (i, err) \<Rightarrow>
          if err then (writeError 400 ''invalid rule id'', st)
          else
            (case DeleteRule (dp_env dp) i (a_store st) of
               (Inl e, s) \<Rightarrow> (writeError 500 (err_text e), set_store s st)
             | (Inr _, s) \<Rightarrow>
                 (writeJSON 200 (status_body ''deleted''), publish dp (reload dp (set_store s st)))))"

section \<open>Bulk handlers\<close>

text \<open>The decoder's own error text, which ends the message, is not modelled.\<close>

definition bulkImport :: "'b deps \<Rightarrow> api_request \<Rightarrow> 'b api \<Rightarrow> response \<times> 'b api" where
  "bulkImport dp r st =
     (case Option.bind (json_decode (ar_Body r)) decode_entries of
        None \<Rightarrow> (writeError 400 ''invalid JSON: '', st)
      | Some entries \<Rightarrow>
          (case BulkImport (dp_env dp) entries (a_store st) of
             (Inl e, s) \<Rightarrow> (writeError 500 (err_text e), set_store s st)
           | (Inr cnt, s) \<Rightarrow>
               (writeJSON 200 (JObj [(''imported'', jint cnt)]),
                publish dp (reload dp (set_store s st)))))"

definition export :: "'b deps \<Rightarrow> 'b api \<Rightarrow> response \<times> 'b api" where
  "export dp st =
     (case ExportAll (dp_env dp) (a_store st) of
        (Inl e, s) \<Rightarrow> (writeError 500 (err_text e), set_store s st)
      | (Inr entries, s) \<Rightarrow> (writeJSON 200 (jslice encode_entry entries), set_store s st))"

section \<open>Routes\<close>

text \<open>The patterns of \<open>Register\<close>; a \<open>GET\<close> pattern serves \<open>HEAD\<close> too.\<close>

datatype api_route =
    ListDomainsRoute | CreateDomainRoute | GetDomainRoute string | UpdateDomainRoute string
  | DeleteDomainRoute string | ListRulesRoute string | CreateRuleRoute string
  | UpdateRuleRoute string string | DeleteRuleRoute string string | ImportRoute | ExportRoute
  | AnalyticsRoute "string list" | MethodNotAllowed | NoRoute

definition is_get :: "string \<Rightarrow> bool" where
  "is_get m \<longleftrightarrow> m = ''GET'' \<or> m = ''HEAD''"

definition route_domains :: "string \<Rightarrow> string list \<Rightarrow> api_route" where
  "route_domains m ps =
     (case ps of
        [] \<Rightarrow> if is_get m then ListDomainsRoute else if m = ''POST'' then CreateDomainRoute
              else MethodNotAllowed
      | [d] \<Rightarrow> if d = [] then NoRoute
               else if is_get m then GetDomainRoute d else if m = ''PUT'' then UpdateDomainRoute d
               else if m = ''DELETE'' then DeleteDomainRoute d else MethodNotAllowed
      | [d, x] \<Rightarrow> if d = [] \<or> x \<noteq> ''rules'' then NoRoute
               else if is_get m then ListRulesRoute d else if m = ''POST'' then CreateRuleRoute d
               else MethodNotAllowed
      | [d, x, i] \<Rightarrow> if d = [] \<or> x \<noteq> ''rules'' \<or> i = [] then NoRoute
               else if m = ''PUT'' then UpdateRuleRoute d i else if m = ''DELETE'' then DeleteRuleRoute d i
               else MethodNotAllowed
      | _ \<Rightarrow> NoRoute)"

definition analytics_paths :: "string list list" where
  "analytics_paths = [[''summary''], [''inactive''], [''trending''], [''referers''], [''export'']]"

definition route_analytics :: "string \<Rightarrow> string list \<Rightarrow> api_route" where
  "route_analytics m ps =
     (if ps \<in> set analytics_paths \<or>
         (case ps of [x, d] \<Rightarrow> x = ''domains'' \<and> d \<noteq> []
          | [x, d, y] \<Rightarrow> x = ''domains'' \<and> d \<noteq> [] \<and> y = ''paths'' | _ \<Rightarrow> False)
      then (if is_get m then AnalyticsRoute ps else MethodNotAllowed)
      else NoRoute)"

definition route :: "string \<Rightarrow> string list \<Rightarrow> api_route" where
  "route m ps =
     (case ps of
        a # v # x # rest \<Rightarrow>
          if a \<noteq> ''api'' \<or> v \<noteq> ''v1'' then NoRoute
          else if x = ''domains'' then route_domains m rest
          else if x = ''import'' \<and> rest = [] then
            (if m = ''POST'' then ImportRoute else MethodNotAllowed)
          else if x = ''export'' \<and> rest = [] then
            (if is_get m then ExportRoute else MethodNotAllowed)
          else if x = ''analytics'' then route_analytics m rest
          else NoRoute
      | _ \<Rightarrow> NoRoute)"

definition plain_text :: "int \<Rightarrow> string \<Rightarrow> response" where
  "plain_text status msg =
     \<lparr>rs_Status = status, rs_Headers = [(''Content-Type'', ''text/plain; charset=utf-8'')], rs_Body = msg @ [CHR 0x0A]\<rparr>"

text \<open>The handler of an analytics pattern; \<open>route_analytics\<close> gives no other path.\<close>

definition analytics :: "sqlenv \<Rightarrow> string list \<Rightarrow> api_request \<Rightarrow> db \<Rightarrow> response \<times> db" where
  "analytics env ps r s =
     (case ps of
        [x] \<Rightarrow>
          if x = ''summary'' then analyticsSummary env r s
          else if x = ''inactive'' then analyticsInactive env r s
          else if x = ''trending'' then analyticsTrending env r s
          else if x = ''referers'' then analyticsReferers env r s
          else analyticsExport env r s
      | [_, d] \<Rightarrow> analyticsDomain env d r s
      | [_, d, _] \<Rightarrow> analyticsPaths env d r s
      | _ \<Rightarrow> (plain_text 404 ''404 page not found'', s))"

definition apiMux ::
  "'b deps \<Rightarrow> api_request \<Rightarrow> 'b api \<Rightarrow> response \<times> 'b api" where
  "apiMux dp r st =
     (case route (ar_Method r) (ar_Path r) of
        ListDomainsRoute \<Rightarrow> listDomains dp r st
      | CreateDomainRoute \<Rightarrow> createDomain dp r st
      | GetDomainRoute d \<Rightarrow> getDomain dp d st
      | UpdateDomainRoute d \<Rightarrow> updateDomain dp d r st
      | DeleteDomainRoute d \<Rightarrow> deleteDomain dp d st
      | ListRulesRoute d \<Rightarrow> listRules dp d st
      | CreateRuleRoute d \<Rightarrow> createRule dp d r st
      | UpdateRuleRoute d i \<Rightarrow> updateRule dp i r st
      | DeleteRuleRoute d i \<Rightarrow> deleteRule dp i st
      | ImportRoute \<Rightarrow> bulkImport dp r st
      | ExportRoute \<Rightarrow> export dp st
      | AnalyticsRoute ps \<Rightarrow>
          (case analytics (dp_env dp) ps r (a_store st) of (resp, s) \<Rightarrow> (resp, set_store s st))
      | MethodNotAllowed \<Rightarrow> (plain_text 405 ''Method Not Allowed'', st)
      | NoRoute \<Rightarrow> (plain_text 404 ''404 page not found'', st))"

section \<open>Middleware\<close>

type_synonym 'b handler = "api_request \<Rightarrow> 'b api \<Rightarrow> response \<times> 'b api"

definition TokenAuth :: "string \<Rightarrow> 'b handler \<Rightarrow> 'b handler" where
  "TokenAuth token next_h r st =
     (if ar_Query r ''token'' \<noteq> token then (writeError 401 ''invalid or missing token'', st)
      else next_h r st)"

definition cors_headers :: "(string \<times> string) list" where
  "cors_headers =
     [(''Access-Control-Allow-Origin'', ''*''),
      (''Access-Control-Allow-Methods'', ''GET, POST, PUT, DELETE, OPTIONS''),
      (''Access-Control-Allow-Headers'', ''Content-Type'')]"

definition CORS :: "'b handler \<Rightarrow> 'b handler" where
  "CORS next_h r st =
     (if ar_Method r = ''OPTIONS''
      then (\<lparr>rs_Status = 204, rs_Headers = cors_headers, rs_Body = []\<rparr>, st)
      else (case next_h r st of
              (resp, st') \<Rightarrow> (resp\<lparr>rs_Headers := cors_headers @ rs_Headers resp\<rparr>, st')))"

text \<open>\<open>Logging\<close> passes the response through; the status it logs is the one written, 200 when
  the handler writes none.\<close>

definition Logging :: "'b handler \<Rightarrow> api_request \<Rightarrow> 'b api \<Rightarrow> (response \<times> 'b api) \<times> int" where
  "Logging next_h r st = (let res = next_h r st in (res, rs_Status (fst res)))"

end
