(* ===== verification/Api_Props.thy ===== *)
theory Api_Props
  imports Api Sync_Props Store_Props
begin

text \<open>
  The properties of the admin API: after any request the engine serves what the store holds,
  the outcome of each creating request on every branch, what a partial update does, and
  the token check.
\<close>

section \<open>Operations that change the store\<close>

text \<open>What the handlers need of a store operation: soundness is kept, an error changes nothing.\<close>

definition serves :: "db \<Rightarrow> engine \<Rightarrow> bool" where
  "serves s e \<longleftrightarrow>
     (\<forall>r. serve_spec (view s) (stripPort (rq_Host r)) (rq_Path r) (fst (ServeHTTP e r)))"

definition in_step :: "'b api \<Rightarrow> bool" where
  "in_step st \<longleftrightarrow> good (a_store st) \<and>
     (length (domains (a_store st)) \<le> 100000 \<longrightarrow> serves (a_store st) (n_engine (a_node st)))"

lemma a_store_simps [simp]:
  "a_store (set_store s st) = s" "n_engine (a_node (set_store s st)) = n_engine (a_node st)"
  "a_syncer (set_store s st) = a_syncer st" "a_bucket (set_store s st) = a_bucket st"
  by (simp_all add: a_store_def set_store_def)

lemma set_store_same [simp]: "set_store (a_store st) st = st"
  by (simp add: a_store_def set_store_def)

lemma in_step_view:
  assumes "in_step st" and "good s" and "view s = view (a_store st)"
  shows "in_step (set_store s st)"
  using assms length_view[of s "a_store st"] by (simp add: in_step_def serves_def good_def)

lemma reload_in_step:
  assumes "sql_contract (dp_env dp)" and "desc_sorts rl_Priority (dp_srt dp)" and "good (a_store st)"
  shows "in_step (reload dp st)" and "a_store (reload dp st) = a_store st"
proof -
  obtain e' where e': "Reload (dp_env dp) (dp_srt dp) (n_engine (a_node st)) (a_store st)
      = ((None, e'), a_store st)"
    using Reload_success[OF goodD(2)[OF assms(3)]] by blast
  then show "a_store (reload dp st) = a_store st" by (simp add: reload_def a_store_def)
  show "in_step (reload dp st)"
    using e' assms(3) Reload_serves[OF assms(1,2) goodD[OF assms(3)], of "n_engine (a_node st)"]
    by (auto simp: in_step_def serves_def reload_def a_store_def)
qed

lemma publish_in_step:
  assumes "good (a_store st)"
  shows "in_step (publish dp st) = in_step st" and "a_store (publish dp st) = a_store st"
proof -
  have e: "ExportAll (dp_env dp) (n_store (a_node st)) =
      (Inr (export_list (dp_env dp) (n_store (a_node st))), n_store (a_node st))"
    using assms by (intro ExportAll_Nil) (simp add: a_store_def good_def)
  have "n_store (a_node (publish dp st)) = n_store (a_node st) \<and>
      n_engine (a_node (publish dp st)) = n_engine (a_node st)"
    by (auto simp: publish_def Publish_def e split: sum.split prod.split)
  then show "in_step (publish dp st) = in_step st" "a_store (publish dp st) = a_store st"
    by (simp_all add: in_step_def a_store_def)
qed

locale store_mutation =
  fixes op :: "db \<Rightarrow> 'a res"
  assumes op_good: "good s \<Longrightarrow> op s = (r, s') \<Longrightarrow> good s'"
    and op_error: "good s \<Longrightarrow> op s = (Inl e, s') \<Longrightarrow> view s' = view s"
begin

lemma failed:
  assumes "in_step st" and "op (a_store st) = (Inl e, s')"
  shows "in_step (set_store s' st)"
  using assms op_good[OF _ assms(2)] op_error[OF _ assms(2)]
  by (intro in_step_view) (simp_all add: in_step_def)

lemma succeeded:
  assumes "in_step st" and "op (a_store st) = (Inr x, s')"
    and "sql_contract (dp_env dp)" and "desc_sorts rl_Priority (dp_srt dp)"
  shows "in_step (publish dp (reload dp (set_store s' st)))"
    and "a_store (publish dp (reload dp (set_store s' st))) = s'"
proof -
  have g: "good s'" using assms(1) op_good[OF _ assms(2)] by (simp add: in_step_def)
  then have g1: "good (a_store (set_store s' st))" by simp
  note r = reload_in_step[OF assms(3,4) g1]
  have g2: "good (a_store (reload dp (set_store s' st)))" using r(2) g by simp
  from publish_in_step[OF g2] r show "in_step (publish dp (reload dp (set_store s' st)))"
    "a_store (publish dp (reload dp (set_store s' st))) = s'" by simp_all
qed

end

lemma blind_faults: "blind st \<Longrightarrow> faults s = [] \<Longrightarrow> faults (snd (exec st s)) = []"
  by (simp add: blind_def)

lemma blind_good:
  assumes "blind st" and "keeps wf_db (exec st)" and "good s" and "exec st s = (r, s')"
  shows "good s'"
  using blind_faults[OF assms(1) goodD(2)[OF assms(3)]] keepsD[OF assms(2) goodD(1)[OF assms(3)]] assms(4)
  by (simp add: good_def)

lemma CreateDomain_Nil:
  assumes "good s"
  shows "CreateDomain env d s =
    (case find_domain (d_Name d) s of
       Some x \<Rightarrow> (Inl (ErrMsg (uniq_msg env)), burn_dom_seq env s)
     | None \<Rightarrow> (Inr (d\<lparr>d_ID := dom_seq s, d_CreatedAt := db_now s, d_UpdatedAt := db_now s\<rparr>),
         add_domain env (d_Name d) (d_DefaultURL d) (d_StatusCode d) (d_Enabled d) s))"
proof (cases "find_domain (d_Name d) s")
  case (Some x)
  with goodD(2)[OF assms] show ?thesis by (simp add: CreateDomain_def bindE_def sql_insert_domain_def)
next
  case None
  let ?s = "add_domain env (d_Name d) (d_DefaultURL d) (d_StatusCode d) (d_Enabled d) s"
  have f: "faults ?s = []" using goodD(2)[OF assms] by (simp add: add_domain_def)
  have "db_now ?s = db_now s" by (simp add: add_domain_def)
  with None goodD(2)[OF assms] f add_domain_id[OF goodD(1)[OF assms]] show ?thesis
    by (cases "env_dialect env") (simp_all add: CreateDomain_def bindE_def sql_insert_domain_def)
qed

interpretation create_domain: store_mutation "CreateDomain env d" for env d
proof unfold_locales
  fix s s' and r :: "go_error + domain"
  assume g: "good s" and c: "CreateDomain env d s = (r, s')"
  from keepsD[OF keeps_CreateDomain goodD(1)[OF g], of env d] c have "wf_db s'" by simp
  moreover have "faults s' = []"
    using c goodD(2)[OF g]
    by (auto simp: CreateDomain_Nil[OF g] add_domain_def burn_dom_seq_def split: option.splits if_splits)
  ultimately show "good s'" by (rule goodI)
next
  fix s s' and e
  assume g: "good s" and c: "CreateDomain env d s = (Inl e, s')"
  then show "view s' = view s" by (auto simp: CreateDomain_Nil[OF g] split: option.splits)
qed

interpretation update_domain: store_mutation "UpdateDomain env n d" for env n d
proof unfold_locales
  fix s s' and r :: "go_error + unit"
  assume g: "good s" and c: "UpdateDomain env n d s = (r, s')"
  show "good s'"
    by (rule blind_good[OF _ keeps_UpdateDomain[unfolded UpdateDomain_def] g c[unfolded UpdateDomain_def]]) simp
qed (auto simp: UpdateDomain_def sql_update_domain_def dest: goodD(2))

interpretation delete_domain: store_mutation "DeleteDomain env n" for env n
proof unfold_locales
  fix s s' and r :: "go_error + unit"
  assume g: "good s" and c: "DeleteDomain env n s = (r, s')"
  show "good s'"
    by (rule blind_good[OF _ keeps_DeleteDomain[unfolded DeleteDomain_def] g c[unfolded DeleteDomain_def]]) simp
qed (auto simp: DeleteDomain_def sql_delete_domain_def dest: goodD(2))

interpretation create_rule: store_mutation "CreateRule env r" for env r
proof unfold_locales
  fix s s' and x :: "go_error + redirect_rule"
  let ?st = "sql_insert_rule env (r_DomainID r) (r_Path r) (r_TargetURL r) (r_StatusCode r)
      (r_Priority r) (r_Enabled r)"
  assume g: "good s" and c: "CreateRule env r s = (x, s')"
  then have "s' = snd (exec ?st s)"
    by (auto simp: CreateRule_def bindE_def split: sum.splits prod.splits)
  moreover have "keeps wf_db (exec ?st)" by (intro keeps_intros fault_free_wf)
  ultimately show "good s'" using blind_good[OF _ _ g, of ?st "fst (exec ?st s)"] by simp
qed (rule rule_errors(1))

interpretation update_rule: store_mutation "UpdateRule env i r" for env i r
proof unfold_locales
  fix s s' and x :: "go_error + unit"
  assume g: "good s" and c: "UpdateRule env i r s = (x, s')"
  show "good s'"
    by (rule blind_good[OF _ keeps_UpdateRule[unfolded UpdateRule_def] g c[unfolded UpdateRule_def]]) simp
qed (rule rule_errors(2))

interpretation delete_rule: store_mutation "DeleteRule env i" for env i
proof unfold_locales
  fix s s' and x :: "go_error + unit"
  assume g: "good s" and c: "DeleteRule env i s = (x, s')"
  show "good s'"
    by (rule blind_good[OF _ keeps_DeleteRule[unfolded DeleteRule_def] g c[unfolded DeleteRule_def]]) simp
qed (rule rule_errors(3))

interpretation bulk_import: store_mutation "BulkImport env es" for env es
proof unfold_locales
  fix s s' and x :: "go_error + int"
  assume "good s" and "BulkImport env es s = (x, s')"
  then show "good s'" using BulkImport_good[of s env es] by auto
next
  fix s s' and e
  assume "good s" and "BulkImport env es s = (Inl e, s')"
  then show "view s' = view s" using BulkImport_good[of s env es] by auto
qed

section \<open>Every request\<close>

text \<open>Reads leave a store without faults as it is.\<close>

lemma reads_same:
  assumes "faults s = []"
  shows "snd (ListDomains env search lim off s) = s" and "snd (GetDomain env n s) = s"
    and "snd (ExportAll env s) = s"
  using assms
  by (simp_all add: ListDomains_def bindE_def Let_def GetDomain_def ListRules_Nil ExportAll_Nil
      split: option.split)

lemma read_in_step:
  assumes "in_step st" and "snd (m (a_store st)) = a_store st" and "m (a_store st) = (r, s)"
  shows "in_step (set_store s st)"
  using assms by simp

lemma in_step_faults: "in_step st \<Longrightarrow> faults (a_store st) = []"
  by (simp add: in_step_def good_def)

lemma getDomain_in_step:
  assumes "in_step st"
  shows "snd (getDomain dp n st) = st" and "snd (listRules dp n st) = st"
    and "snd (listDomains dp r st) = st" and "snd (export dp st) = st"
proof -
  note f = in_step_faults[OF assms]
  note same = reads_same(2)[OF f, of "dp_env dp" n] reads_same(3)[OF f, of "dp_env dp"]
    reads_same(1)[OF f, of "dp_env dp" "ar_Query r ''search''" "atoi (ar_Query r ''limit'')"
      "atoi (ar_Query r ''offset'')"]
  show "snd (getDomain dp n st) = st" "snd (listRules dp n st) = st"
    "snd (listDomains dp r st) = st" "snd (export dp st) = st"
    using same unfolding getDomain_def listRules_def listDomains_def export_def Let_def
    by (auto split: prod.split sum.split)
qed

lemma createDomain_in_step:
  assumes "in_step st" and "sql_contract (dp_env dp)" and "desc_sorts rl_Priority (dp_srt dp)"
  shows "in_step (snd (createDomain dp r st))"
proof (cases "Option.bind (json_decode (ar_Body r)) decode_domain")
  case None
  with assms(1) show ?thesis by (simp add: createDomain_def)
next
  case (Some d)
  let ?d = "d\<lparr>d_StatusCode := (if d_StatusCode d = 0 then 301 else d_StatusCode d), d_Enabled := True\<rparr>"
  obtain x s where x: "CreateDomain (dp_env dp) ?d (a_store st) = (x, s)" by fastforce
  show ?thesis
    using Some x create_domain.failed[OF assms(1), of "dp_env dp" ?d _ s] assms(1)
      create_domain.succeeded(1)[OF assms(1) _ assms(2,3), of "dp_env dp" ?d _ s]
    by (cases x) (simp_all add: createDomain_def Let_def)
qed

lemma updateDomain_in_step:
  assumes "in_step st" and "sql_contract (dp_env dp)" and "desc_sorts rl_Priority (dp_srt dp)"
  shows "in_step (snd (updateDomain dp n r st))"
proof (cases "Option.bind (json_decode (ar_Body r)) decode_domain")
  case None
  with assms(1) show ?thesis by (simp add: updateDomain_def)
next
  case (Some d)
  obtain x s where x: "UpdateDomain (dp_env dp) n d (a_store st) = (x, s)" by fastforce
  show ?thesis
    using Some x update_domain.failed[OF assms(1), of "dp_env dp" n d _ s]
      update_domain.succeeded(1)[OF assms(1) _ assms(2,3), of "dp_env dp" n d _ s]
    by (cases x) (simp_all add: updateDomain_def)
qed

lemma deleteDomain_in_step:
  assumes "in_step st" and "sql_contract (dp_env dp)" and "desc_sorts rl_Priority (dp_srt dp)"
  shows "in_step (snd (deleteDomain dp n st))"
proof -
  obtain x s where x: "DeleteDomain (dp_env dp) n (a_store st) = (x, s)" by fastforce
  show ?thesis
    using x delete_domain.failed[OF assms(1), of "dp_env dp" n _ s]
      delete_domain.succeeded(1)[OF assms(1) _ assms(2,3), of "dp_env dp" n _ s]
    by (cases x) (simp_all add: deleteDomain_def)
qed

lemma createRule_in_step:
  assumes "in_step st" and "sql_contract (dp_env dp)" and "desc_sorts rl_Priority (dp_srt dp)"
  shows "in_step (snd (createRule dp n r st))"
proof -
  obtain g s where g: "GetDomain (dp_env dp) n (a_store st) = (g, s)" by fastforce
  with reads_same(2)[OF in_step_faults[OF assms(1)], of "dp_env dp" n] have s: "s = a_store st" by simp
  show ?thesis
  proof (cases g)
    case (Inl e)
    with g s assms(1) show ?thesis by (simp add: createRule_def)
  next
    case (Inr d)
    show ?thesis
    proof (cases "Option.bind (json_decode (ar_Body r)) decode_rule")
      case None
      with g s Inr assms(1) show ?thesis by (simp add: createRule_def)
    next
      case (Some rule)
      let ?r = "rule\<lparr>r_StatusCode := (if r_StatusCode rule = 0 then 301 else r_StatusCode rule),
                  r_DomainID := d_ID (dr_Domain d), r_Enabled := True\<rparr>"
      obtain x s1 where x: "CreateRule (dp_env dp) ?r (a_store st) = (x, s1)" by fastforce
      show ?thesis
        using g s Inr Some x create_rule.failed[OF assms(1), of "dp_env dp" ?r _ s1] assms(1)
          create_rule.succeeded(1)[OF assms(1) _ assms(2,3), of "dp_env dp" ?r _ s1]
        by (cases x) (simp_all add: createRule_def Let_def)
    qed
  qed
qed

lemma updateRule_in_step:
  assumes "in_step st" and "sql_contract (dp_env dp)" and "desc_sorts rl_Priority (dp_srt dp)"
  shows "in_step (snd (updateRule dp i r st))"
proof -
  obtain n err where n: "parse_int i = (n, err)" by fastforce
  show ?thesis
  proof (cases "Option.bind (json_decode (ar_Body r)) decode_rule")
    case None
    with n assms(1) show ?thesis by (simp add: updateRule_def)
  next
    case (Some rule)
    obtain x s where x: "UpdateRule (dp_env dp) n rule (a_store st) = (x, s)" by fastforce
    show ?thesis
      using n Some x update_rule.failed[OF assms(1), of "dp_env dp" n rule _ s] assms(1)
        update_rule.succeeded(1)[OF assms(1) _ assms(2,3), of "dp_env dp" n rule _ s]
      by (cases x) (simp_all add: updateRule_def)
  qed
qed

lemma deleteRule_in_step:
  assumes "in_step st" and "sql_contract (dp_env dp)" and "desc_sorts rl_Priority (dp_srt dp)"
  shows "in_step (snd (deleteRule dp i st))"
proof -
  obtain n err where n: "parse_int i = (n, err)" by fastforce
  obtain x s where x: "DeleteRule (dp_env dp) n (a_store st) = (x, s)" by fastforce
  show ?thesis
    using n x delete_rule.failed[OF assms(1), of "dp_env dp" n _ s] assms(1)
      delete_rule.succeeded(1)[OF assms(1) _ assms(2,3), of "dp_env dp" n _ s]
    by (cases x) (simp_all add: deleteRule_def)
qed

lemma bulkImport_in_step:
  assumes "in_step st" and "sql_contract (dp_env dp)" and "desc_sorts rl_Priority (dp_srt dp)"
  shows "in_step (snd (bulkImport dp r st))"
proof (cases "Option.bind (json_decode (ar_Body r)) decode_entries")
  case None
  with assms(1) show ?thesis by (simp add: bulkImport_def)
next
  case (Some es)
  obtain x s where x: "BulkImport (dp_env dp) es (a_store st) = (x, s)" by fastforce
  show ?thesis
    using Some x bulk_import.failed[OF assms(1), of "dp_env dp" es _ s]
      bulk_import.succeeded(1)[OF assms(1) _ assms(2,3), of "dp_env dp" es _ s]
    by (cases x) (simp_all add: bulkImport_def)
qed

lemmas handlers_in_step =
  createDomain_in_step updateDomain_in_step deleteDomain_in_step createRule_in_step
  updateRule_in_step deleteRule_in_step bulkImport_in_step

lemma analytics_quiet': "faults s = [] \<Longrightarrow> snd (analytics env ps r s) = s"
  by (simp add: analytics_def analytics_quiet split: list.split)

lemma analytics_keeps: "analytics env ps r s = (resp, s') \<Longrightarrow> faults s = [] \<Longrightarrow> s' = s"
  using analytics_quiet'[of s env ps r] by simp

fun run_requests :: "'b handler \<Rightarrow> api_request list \<Rightarrow> 'b api \<Rightarrow> response list \<times> 'b api" where
  "run_requests h [] st = ([], st)"
| "run_requests h (r # rs) st =
     (case h r st of (resp, st') \<Rightarrow>
        (case run_requests h rs st' of (resps, st'') \<Rightarrow> (resp # resps, st'')))"

lemma requests_in_step:
  assumes "sql_contract (dp_env dp)" and "desc_sorts rl_Priority (dp_srt dp)"
    and "in_step st"
  shows "in_step (snd (run_requests (TokenAuth token (CORS (apiMux dp))) rs st))"
  using assms(3)
proof (induction rs arbitrary: st)
  case Nil
  then show ?case by simp
next
  case (Cons r rs)
  have mux: "in_step (snd (apiMux dp r st))"
    using Cons.prems handlers_in_step[OF Cons.prems assms(1,2)] getDomain_in_step[OF Cons.prems]
    by (auto simp: apiMux_def split: api_route.split prod.split
        dest!: analytics_keeps[OF _ in_step_faults[OF Cons.prems]])
  have step: "in_step (snd (TokenAuth token (CORS (apiMux dp)) r st))"
    using mux Cons.prems by (auto simp: TokenAuth_def CORS_def split: prod.split)
  obtain resp st' where h: "TokenAuth token (CORS (apiMux dp)) r st = (resp, st')" by fastforce
  from Cons.IH[of st'] step h show ?case by (auto split: prod.split)
qed

text \<open>C2: Whatever sequence of API requests is served, in the absence of database faults,
  the store stays sound and the engine answers every redirect request by what the store
  then holds, as long as it holds at most 100000 domains: each change is live as soon as
  its response is written, and a refused request changes nothing that is served.\<close>
theorem api_keeps_engine_in_step:
  assumes "sql_contract (dp_env dp)" and "desc_sorts rl_Priority (dp_srt dp)"
    and "in_step st"
  shows "in_step (snd (run_requests (TokenAuth token (CORS (apiMux dp))) rs st))"
  using assms by (rule requests_in_step)

definition demo_deps :: "string option deps" where
  "demo_deps = \<lparr>dp_s3 = ref_s3, dp_env = reference_env DialectSQLite, dp_srt = sort_desc rl_Priority\<rparr>"

definition demo_api :: "string option api" where
  "demo_api = reload demo_deps \<lparr>a_node = demo_node demo_db, a_syncer = True, a_bucket = None\<rparr>"

definition demo_call :: "string \<Rightarrow> string list \<Rightarrow> string \<Rightarrow> api_request" where
  "demo_call m ps body =
     \<lparr>ar_Method = m, ar_Path = [''api'', ''v1''] @ ps,
      ar_Query = (\<lambda>k. if k = ''token'' then ''secret'' else []), ar_Body = body, ar_Time = 63844798830 * second\<rparr>"

lemma demo_deps_ok:
  "sql_contract (dp_env demo_deps)" "desc_sorts rl_Priority (dp_srt demo_deps)"
  by (simp_all add: demo_deps_def reference_env_contract)

lemma demo_api_ok: "in_step demo_api" "a_store demo_api = demo_db"
proof -
  let ?st = "\<lparr>a_node = demo_node demo_db, a_syncer = True, a_bucket = None\<rparr> :: string option api"
  have g: "good (a_store ?st)" by (simp add: a_store_def demo_node_def good_def)
  show "in_step demo_api" unfolding demo_api_def by (rule reload_in_step(1)[OF demo_deps_ok g])
  show "a_store demo_api = demo_db"
    using reload_in_step(2)[OF demo_deps_ok g] by (simp add: demo_api_def a_store_def demo_node_def)
qed

theorem api_keeps_engine_in_step_witness:
  "in_step (snd (run_requests (TokenAuth ''secret'' (CORS (apiMux demo_deps)))
     [demo_call ''DELETE'' [''domains'', ''old.example''] [], demo_call ''GET'' [''export''] []] demo_api))"
  by (rule api_keeps_engine_in_step[OF demo_deps_ok demo_api_ok(1)])

section \<open>Creating\<close>

text \<open>What a create answers once the body is accepted, by the outcome of the insert.\<close>

lemma is_conflict_uniq: "sql_contract env \<Longrightarrow> is_conflict (ErrMsg (uniq_msg env))"
  by (auto simp: is_conflict_def sql_contract_def)

lemma createDomain_exists:
  assumes "in_step st" and "sql_contract (dp_env dp)"
    and "Option.bind (json_decode (ar_Body r)) decode_domain = Some d"
    and "d_Name d \<noteq> []" and "d_DefaultURL d \<noteq> []"
    and "find_domain (d_Name d) (a_store st) = Some x" and "createDomain dp r st = (resp, st')"
  shows "rs_Status resp = 409 \<and> view (a_store st') = view (a_store st)"
proof -
  let ?d = "d\<lparr>d_StatusCode := (if d_StatusCode d = 0 then 301 else d_StatusCode d), d_Enabled := True\<rparr>"
  have "CreateDomain (dp_env dp) ?d (a_store st) =
      (Inl (ErrMsg (uniq_msg (dp_env dp))), burn_dom_seq (dp_env dp) (a_store st))"
    using CreateDomain_Nil assms(1,6) by (simp add: in_step_def)
  with assms is_conflict_uniq[OF assms(2)] show ?thesis
    by (auto simp: createDomain_def writeError_def writeJSON_def Let_def)
qed

lemma createDomain_new:
  assumes "in_step st" and "sql_contract (dp_env dp)" and "desc_sorts rl_Priority (dp_srt dp)"
    and "Option.bind (json_decode (ar_Body r)) decode_domain = Some d"
    and "d_Name d \<noteq> []" and "d_DefaultURL d \<noteq> []"
    and "find_domain (d_Name d) (a_store st) = None" and "createDomain dp r st = (resp, st')"
  shows "rs_Status resp = 201 \<and>
    (\<exists>row. find_domain (d_Name d) (a_store st') = Some row \<and> resp = writeJSON 201 (encode_domain row)) \<and>
    view (a_store st') = (view (a_store st))(d_Name d \<mapsto>
      \<lparr>s_DefaultURL = d_DefaultURL d,
       s_StatusCode = (if d_StatusCode d = 0 then 301 else d_StatusCode d),
       s_Enabled = True, s_Rules = Map.empty\<rparr>)"
proof -
  have g: "good (a_store st)" using assms(1) by (simp add: in_step_def)
  let ?sc = "if d_StatusCode d = 0 then 301 else d_StatusCode d"
  let ?d = "d\<lparr>d_StatusCode := ?sc, d_Enabled := True\<rparr>"
  let ?s = "add_domain (dp_env dp) (d_Name d) (d_DefaultURL d) ?sc True (a_store st)"
  let ?row = "?d\<lparr>d_ID := dom_seq (a_store st), d_CreatedAt := db_now (a_store st),
      d_UpdatedAt := db_now (a_store st)\<rparr>"
  have c: "CreateDomain (dp_env dp) ?d (a_store st) = (Inr ?row, ?s)"
    using assms(7) by (simp add: CreateDomain_Nil[OF g])
  note fin = create_domain.succeeded[OF assms(1) c assms(2,3)]
  have "resp = writeJSON 201 (encode_domain ?row)" "a_store st' = ?s"
    using assms(4-6,8) c fin(2) by (auto simp: createDomain_def Let_def)
  moreover have "find_domain (d_Name d) ?s = Some ?row" by (simp add: add_domain_row[OF assms(7)])
  ultimately show ?thesis
    using view_add_domain[OF goodD(1)[OF g] assms(7)] by (simp add: writeJSON_def)
qed

lemma GetDomain_found:
  assumes "in_step st" and "find_domain n (a_store st) = Some d"
  shows "\<exists>rules. GetDomain env n (a_store st) =
    (Inr \<lparr>dr_Domain = d, dr_Rules = rules, dr_HitCount = 0\<rparr>, a_store st)"
  using assms(2) in_step_faults[OF assms(1)] by (simp add: GetDomain_def bindE_def ListRules_Nil)

lemma createRule_exists:
  assumes "in_step st" and "sql_contract (dp_env dp)"
    and "find_domain n (a_store st) = Some d"
    and "Option.bind (json_decode (ar_Body r)) decode_rule = Some rule"
    and "r_Path rule \<noteq> []" and "r_TargetURL rule \<noteq> []"
    and "find_rule (d_ID d) (r_Path rule) (a_store st) = Some old"
    and "createRule dp n r st = (resp, st')"
  shows "rs_Status resp = 409 \<and> view (a_store st') = view (a_store st)"
proof -
  have f: "faults (a_store st) = []" by (rule in_step_faults[OF assms(1)])
  let ?r = "rule\<lparr>r_StatusCode := (if r_StatusCode rule = 0 then 301 else r_StatusCode rule),
              r_DomainID := d_ID d, r_Enabled := True\<rparr>"
  have "CreateRule (dp_env dp) ?r (a_store st) =
      (Inl (ErrMsg (uniq_msg (dp_env dp))), burn_rule_seq (dp_env dp) (a_store st))"
    using f assms(7) by (simp add: CreateRule_def bindE_def sql_insert_rule_def)
  with assms(4-6,8) GetDomain_found[OF assms(1,3), of "dp_env dp"] is_conflict_uniq[OF assms(2)]
  show ?thesis by (auto simp: createRule_def writeError_def writeJSON_def Let_def)
qed

lemma createRule_new:
  assumes "in_step st" and "sql_contract (dp_env dp)" and "desc_sorts rl_Priority (dp_srt dp)"
    and "find_domain n (a_store st) = Some d"
    and "Option.bind (json_decode (ar_Body r)) decode_rule = Some rule"
    and "r_Path rule \<noteq> []" and "r_TargetURL rule \<noteq> []"
    and "find_rule (d_ID d) (r_Path rule) (a_store st) = None"
    and "createRule dp n r st = (resp, st')"
  shows "rs_Status resp = 201 \<and> view (a_store st') = (view (a_store st))(n \<mapsto>
    (site_of (a_store st) d)\<lparr>s_Rules := (s_Rules (site_of (a_store st) d))(r_Path rule \<mapsto>
      \<lparr>v_TargetURL = r_TargetURL rule,
       v_StatusCode = (if r_StatusCode rule = 0 then 301 else r_StatusCode rule),
       v_Priority = r_Priority rule, v_Enabled = True\<rparr>)\<rparr>)"
proof -
  have g: "good (a_store st)" and f: "faults (a_store st) = []"
    using assms(1) by (auto simp: in_step_def good_def)
  have mem: "d_ID d \<in> d_ID ` set (domains (a_store st))" using find_domain_Some[OF assms(4)] by auto
  let ?sc = "if r_StatusCode rule = 0 then 301 else r_StatusCode rule"
  let ?r = "rule\<lparr>r_StatusCode := ?sc, r_DomainID := d_ID d, r_Enabled := True\<rparr>"
  let ?s1 = "add_rule (dp_env dp) (d_ID d) (r_Path rule) (r_TargetURL rule) ?sc (r_Priority rule) True
      (a_store st)"
  have c: "CreateRule (dp_env dp) ?r (a_store st) = (Inr (?r\<lparr>r_ID := rule_seq (a_store st)\<rparr>), ?s1)"
    using f assms(8) mem by (simp add: CreateRule_def bindE_def sql_insert_rule_def)
  note fin = create_rule.succeeded[OF assms(1) c assms(2,3)]
  have "a_store st' = ?s1" "rs_Status resp = 201"
    using assms(5-7,9) GetDomain_found[OF assms(1,4), of "dp_env dp"] c fin(2)
    by (auto simp: createRule_def Let_def writeJSON_def)
  with view_add_rule[OF goodD(1)[OF g] assms(4,8)] show ?thesis by simp
qed

text \<open>The outcome of a create request without faults, by the first condition that holds.\<close>

text \<open>C20: Creating a domain: 400 for a body that is not a JSON object of the right types or
  that lacks the name or the target, 409 when the name exists, else 201 with the stored row;
  only the last changes the contents, adding an enabled site without rules whose status
  defaults to 301, whatever \<open>enabled\<close> and \<open>id\<close> the body gives.\<close>
theorem createDomain_outcomes:
  assumes "in_step st" and "sql_contract (dp_env dp)" and "desc_sorts rl_Priority (dp_srt dp)"
    and "createDomain dp r st = (resp, st')"
  shows "case Option.bind (json_decode (ar_Body r)) decode_domain of
      None \<Rightarrow> rs_Status resp = 400 \<and> st' = st
    | Some d \<Rightarrow>
        if d_Name d = [] \<or> d_DefaultURL d = [] then rs_Status resp = 400 \<and> st' = st
        else if view (a_store st) (d_Name d) \<noteq> None
          then rs_Status resp = 409 \<and> view (a_store st') = view (a_store st)
        else rs_Status resp = 201 \<and>
          (\<exists>row. find_domain (d_Name d) (a_store st') = Some row \<and>
            resp = writeJSON 201 (encode_domain row)) \<and>
          view (a_store st') = (view (a_store st))(d_Name d \<mapsto>
            \<lparr>s_DefaultURL = d_DefaultURL d,
             s_StatusCode = (if d_StatusCode d = 0 then 301 else d_StatusCode d),
             s_Enabled = True, s_Rules = Map.empty\<rparr>)"
proof (cases "Option.bind (json_decode (ar_Body r)) decode_domain")
  case None
  with assms(4) show ?thesis by (auto simp: createDomain_def writeError_def writeJSON_def)
next
  case (Some d)
  show ?thesis
  proof (cases "d_Name d = [] \<or> d_DefaultURL d = []")
    case True
    with Some assms(4) show ?thesis by (auto simp: createDomain_def writeError_def writeJSON_def)
  next
    case False
    with createDomain_exists[OF assms(1,2) Some _ _ _ assms(4)]
      createDomain_new[OF assms(1-3) Some _ _ _ assms(4)] Some
    show ?thesis by (cases "find_domain (d_Name d) (a_store st)") (simp_all add: view_def)
  qed
qed

definition demo_new_domain :: string where
  "demo_new_domain =
     CHR ''{'' # quote ''Name'' @ '':'' @ quote ''new.example'' @ '','' @ quote ''default_url'' @ '':'' @
       quote ''https://t.example'' @ '' }''"

lemma demo_new_domain_decoded:
  "Option.bind (json_decode demo_new_domain) decode_domain =
    Some (zero_domain\<lparr>d_Name := ''new.example'', d_DefaultURL := ''https://t.example''\<rparr>)"
  by code_simp

theorem createDomain_outcomes_witness:
  "case createDomain demo_deps (demo_call ''POST'' [''domains''] demo_new_domain) demo_api of
     (resp, st') \<Rightarrow> rs_Status resp = 201 \<and>
       map_option s_StatusCode (view (a_store st') ''new.example'') = Some 301"
proof -
  let ?r = "demo_call ''POST'' [''domains''] demo_new_domain"
  obtain resp st' where c: "createDomain demo_deps ?r demo_api = (resp, st')" by fastforce
  have "view demo_db ''new.example'' = None"
    by (simp add: view_def find_domain_def demo_defs)
  with createDomain_outcomes[OF demo_api_ok(1) demo_deps_ok c] c demo_new_domain_decoded demo_api_ok(2)
  show ?thesis by (auto simp: demo_call_def zero_domain_def)
qed

text \<open>C21: Creating a rule: 404 for an unknown domain, 400 for a bad body or a missing path or
  target, 409 when the domain has a rule for the path, else 201; only the last changes the
  contents, adding an enabled rule to that domain, whatever \<open>domain_id\<close> and \<open>enabled\<close> the
  body gives.\<close>
theorem createRule_outcomes:
  assumes "in_step st" and "sql_contract (dp_env dp)" and "desc_sorts rl_Priority (dp_srt dp)"
    and "createRule dp n r st = (resp, st')"
  shows "case view (a_store st) n of
      None \<Rightarrow> rs_Status resp = 404 \<and> st' = st
    | Some x \<Rightarrow>
        (case Option.bind (json_decode (ar_Body r)) decode_rule of
           None \<Rightarrow> rs_Status resp = 400 \<and> st' = st
         | Some rule \<Rightarrow>
             if r_Path rule = [] \<or> r_TargetURL rule = [] then rs_Status resp = 400 \<and> st' = st
             else if s_Rules x (r_Path rule) \<noteq> None
               then rs_Status resp = 409 \<and> view (a_store st') = view (a_store st)
             else rs_Status resp = 201 \<and> view (a_store st') = (view (a_store st))(n \<mapsto>
               x\<lparr>s_Rules := (s_Rules x)(r_Path rule \<mapsto>
                 \<lparr>v_TargetURL = r_TargetURL rule,
                  v_StatusCode = (if r_StatusCode rule = 0 then 301 else r_StatusCode rule),
                  v_Priority = r_Priority rule, v_Enabled = True\<rparr>)\<rparr>))"
proof (cases "find_domain n (a_store st)")
  case None
  have "GetDomain (dp_env dp) n (a_store st) = (Inl ErrNoRows, a_store st)"
    using None in_step_faults[OF assms(1)] by (simp add: GetDomain_def bindE_def)
  with assms(4) None show ?thesis
    by (auto simp: createRule_def view_def writeError_def writeJSON_def)
next
  case (Some d)
  then have x: "view (a_store st) n = Some (site_of (a_store st) d)" by (simp add: view_def)
  obtain rules where get: "GetDomain (dp_env dp) n (a_store st) =
      (Inr \<lparr>dr_Domain = d, dr_Rules = rules, dr_HitCount = 0\<rparr>, a_store st)"
    using GetDomain_found[OF assms(1) Some] by blast
  show ?thesis
  proof (cases "Option.bind (json_decode (ar_Body r)) decode_rule")
    case None
    with assms(4) get x show ?thesis by (auto simp: createRule_def writeError_def writeJSON_def)
  next
    case dec: (Some rule)
    show ?thesis
    proof (cases "r_Path rule = [] \<or> r_TargetURL rule = []")
      case True
      with assms(4) get x dec show ?thesis
        by (auto simp: createRule_def writeError_def writeJSON_def)
    next
      case False
      with createRule_exists[OF assms(1,2) Some dec _ _ _ assms(4)]
        createRule_new[OF assms(1-3) Some dec _ _ _ assms(4)] dec x
      show ?thesis
        by (cases "find_rule (d_ID d) (r_Path rule) (a_store st)") (simp_all add: site_of_def)
    qed
  qed
qed

definition demo_new_rule :: string where
  "demo_new_rule =
     CHR ''{'' # quote ''path'' @ '':'' @ quote ''/new'' @ '','' @ quote ''target_url'' @ '':'' @
       quote ''https://n.example'' @ '','' @ quote ''priority'' @ '': -7}''"

lemma demo_new_rule_decoded:
  "Option.bind (json_decode demo_new_rule) decode_rule =
    Some (zero_rule\<lparr>r_Path := ''/new'', r_TargetURL := ''https://n.example'', r_Priority := - 7\<rparr>)"
  by code_simp

theorem createRule_outcomes_witness:
  "case createRule demo_deps ''off.example''
      (demo_call ''POST'' [''domains'', ''off.example'', ''rules''] demo_new_rule) demo_api of
     (resp, st') \<Rightarrow> rs_Status resp = 201 \<and>
       (\<exists>x. view (a_store st') ''off.example'' = Some x \<and>
         map_option v_Priority (s_Rules x ''/new'') = Some (- 7))"
proof -
  let ?r = "demo_call ''POST'' [''domains'', ''off.example'', ''rules''] demo_new_rule"
  obtain resp st' where c: "createRule demo_deps ''off.example'' ?r demo_api = (resp, st')" by fastforce
  obtain x where x: "view demo_db ''off.example'' = Some x" "s_Rules x ''/new'' = None"
    by (auto simp: view_def find_domain_def site_of_def find_rule_def demo_defs)
  have body: "Option.bind (json_decode (ar_Body ?r)) decode_rule =
      Some (zero_rule\<lparr>r_Path := ''/new'', r_TargetURL := ''https://n.example'', r_Priority := - 7\<rparr>)"
    using demo_new_rule_decoded by (simp add: demo_call_def)
  from createRule_outcomes[OF demo_api_ok(1) demo_deps_ok c] demo_api_ok(2) x body c
  show ?thesis by (auto simp: zero_rule_def)
qed

section \<open>Updating\<close>

text \<open>C22: An update replaces all fields: the target, the status and the flag of the site become
  those of the body, and each of them that the body leaves out becomes zero; unlike a create
  it has no default status, and the rules stay. So when the body enables the domain and has no
  \<open>status_code\<close>, it is answered with success, and from then on each request for the domain
  that no rule matches makes the server panic instead of redirecting.\<close>
theorem updateDomain_zeroes_missing_fields:
  assumes "in_step st" and "sql_contract (dp_env dp)" and "desc_sorts rl_Priority (dp_srt dp)"
    and "length (domains (a_store st)) \<le> 100000"
    and "json_decode (ar_Body r) = Some (JObj ms)" and "decode_domain (JObj ms) = Some d"
    and "view (a_store st) n = Some x" and "updateDomain dp n r st = (resp, st')"
  shows "rs_Status resp = 200 \<and>
    view (a_store st') = (view (a_store st))(n \<mapsto>
      \<lparr>s_DefaultURL = if lacks ms ''default_url'' then [] else d_DefaultURL d,
       s_StatusCode = if lacks ms ''status_code'' then 0 else d_StatusCode d,
       s_Enabled = (\<not> lacks ms ''enabled'' \<and> d_Enabled d), s_Rules = s_Rules x\<rparr>) \<and>
    (\<forall>rq. d_Enabled d \<and> lacks ms ''status_code'' \<and> stripPort (rq_Host rq) = n \<and>
       (\<forall>p v. s_Rules x p = Some v \<and> v_Enabled v \<longrightarrow> \<not> matchPath p (rq_Path rq)) \<longrightarrow>
       fst (ServeHTTP (n_engine (a_node st')) rq) = Panic)"
proof -
  have f: "faults (a_store st) = []" by (rule in_step_faults[OF assms(1)])
  let ?s = "snd (sql_update_domain (dp_env dp) n (d_DefaultURL d) (d_StatusCode d) (d_Enabled d)
      (a_store st))"
  have u: "UpdateDomain (dp_env dp) n d (a_store st) = (Inr (), ?s)"
    using f by (simp add: UpdateDomain_def sql_update_domain_def)
  note fin = update_domain.succeeded[OF assms(1) u assms(2,3)]
  have resp: "rs_Status resp = 200" and st': "st' = publish dp (reload dp (set_store ?s st))"
    using assms(5,6,8) u by (auto simp: updateDomain_def writeJSON_def)
  have store: "a_store st' = ?s" using st' fin(2) by simp
  have zero: "lacks ms ''default_url'' \<Longrightarrow> d_DefaultURL d = []" "lacks ms ''status_code'' \<Longrightarrow> d_StatusCode d = 0"
    "lacks ms ''enabled'' \<Longrightarrow> \<not> d_Enabled d"
    using decode_domain_fields_lacks[of ms zero_domain d] assms(6)
    by (simp_all add: decode_domain_def decode_struct_def zero_domain_def)
  have vw: "view (a_store st') = (view (a_store st))(n \<mapsto>
      x\<lparr>s_DefaultURL := d_DefaultURL d, s_StatusCode := d_StatusCode d, s_Enabled := d_Enabled d\<rparr>)"
    using view_update_domain[of "dp_env dp" n "d_DefaultURL d" "d_StatusCode d" "d_Enabled d" "a_store st"]
      assms(7) by (simp add: store)
  have "length (domains (a_store st')) \<le> 100000"
    using assms(4) by (simp add: store sql_update_domain_def)
  then have serve: "serve_spec (view (a_store st')) (stripPort (rq_Host rq)) (rq_Path rq)
      (fst (ServeHTTP (n_engine (a_node st')) rq))" for rq
    using fin(1) st' by (simp add: in_step_def serves_def)
  have "fst (ServeHTTP (n_engine (a_node st')) rq) = Panic"
    if "d_Enabled d \<and> lacks ms ''status_code'' \<and> stripPort (rq_Host rq) = n \<and>
       (\<forall>p v. s_Rules x p = Some v \<and> v_Enabled v \<longrightarrow> \<not> matchPath p (rq_Path rq))" for rq
    using serve[of rq] that zero(2) by (auto simp: vw serve_spec_def http_Redirect_def)
  moreover have "x\<lparr>s_DefaultURL := d_DefaultURL d, s_StatusCode := d_StatusCode d, s_Enabled := d_Enabled d\<rparr> =
      \<lparr>s_DefaultURL = if lacks ms ''default_url'' then [] else d_DefaultURL d,
       s_StatusCode = if lacks ms ''status_code'' then 0 else d_StatusCode d,
       s_Enabled = (\<not> lacks ms ''enabled'' \<and> d_Enabled d), s_Rules = s_Rules x\<rparr>"
    using zero by (cases x) auto
  ultimately show ?thesis using resp vw by simp
qed

definition demo_put :: string where
  "demo_put =
     CHR ''{'' # quote ''default_url'' @ '':'' @ quote ''https://n.example'' @ '','' @
       quote ''enabled'' @ '': true}''"

definition demo_put_members :: "(string \<times> json) list" where
  "demo_put_members = [(''default_url'', JStr ''https://n.example''), (''enabled'', JBool True)]"

lemma demo_put_decoded:
  "json_decode demo_put = Some (JObj demo_put_members)"
  "decode_domain (JObj demo_put_members) =
    Some (zero_domain\<lparr>d_DefaultURL := ''https://n.example'', d_Enabled := True\<rparr>)"
  "lacks demo_put_members ''status_code''"
  by code_simp+

theorem updateDomain_zeroes_missing_fields_witness:
  "case updateDomain demo_deps ''old.example''
      (demo_call ''PUT'' [''domains'', ''old.example''] demo_put) demo_api of
     (resp, st') \<Rightarrow> rs_Status resp = 200 \<and>
       map_option s_StatusCode (view (a_store st') ''old.example'') = Some 0 \<and>
       fst (ServeHTTP (n_engine (a_node st')) (demo_request ''old.example'' ''/x'')) = Panic"
proof -
  let ?r = "demo_call ''PUT'' [''domains'', ''old.example''] demo_put"
  obtain resp st' where c: "updateDomain demo_deps ''old.example'' ?r demo_api = (resp, st')" by fastforce
  have body: "json_decode (ar_Body ?r) = Some (JObj demo_put_members)"
    using demo_put_decoded(1) by (simp add: demo_call_def)
  have len: "length (domains (a_store demo_api)) \<le> 100000"
    using demo_api_ok(2) by (simp add: demo_db_def)
  note v = demo_site[folded demo_api_ok(2)]
  have no: "\<not> matchPath ''/docs'' ''/x''" "\<not> matchPath ''/docs/api'' ''/x''" "\<not> matchPath ''/blog'' ''/x''"
    by (simp_all add: matchPath_def has_suffix_def has_prefix_def)
  from updateDomain_zeroes_missing_fields[OF demo_api_ok(1) demo_deps_ok len body demo_put_decoded(2) v c]
    c no demo_put_decoded(3)
  show ?thesis
    by (auto simp: zero_domain_def demo_request_def stripPort_def split: if_splits)
qed

end
