(* ===== verification/Go_Time_Props.thy ===== *)
theory Go_Time_Props
  imports Go_Time
begin

text \<open>
  The calendar is a bijection between day numbers and dates that keeps their order; hence
  formatted times of the years 0 to 9999 compare as texts as the times do, and parsing one
  gives it back to the second.
\<close>

section \<open>Day numbers and dates\<close>

lemma div_step: "0 < n \<Longrightarrow> (y :: int) div n = (y - 1) div n + (if y mod n = 0 then 1 else 0)"
proof -
  assume n: "0 < n"
  have y: "y = n * (y div n) + y mod n" by simp
  have r: "0 \<le> y mod n" "y mod n < n" using n by simp_all
  show ?thesis
  proof (cases "y mod n = 0")
    case True
    with y have "y - 1 = n * (y div n - 1) + (n - 1)" by (simp add: algebra_simps)
    from int_div_pos_eq[OF this] n have "(y - 1) div n = y div n - 1" by simp
    with True show ?thesis by simp
  next
    case False
    with y have "y - 1 = n * (y div n) + (y mod n - 1)" by simp
    from int_div_pos_eq[OF this] False r have "(y - 1) div n = y div n" by simp
    with False show ?thesis by simp
  qed
qed

lemma leap_cases: "y mod 400 = 0 \<Longrightarrow> y mod 100 = 0" "(y :: int) mod 100 = 0 \<Longrightarrow> y mod 4 = 0"
proof -
  show "y mod 400 = 0 \<Longrightarrow> y mod 100 = 0"
    unfolding mod_eq_0_iff_dvd by (rule dvd_trans[of 100 400]) simp_all
  show "y mod 100 = 0 \<Longrightarrow> y mod 4 = 0"
    unfolding mod_eq_0_iff_dvd by (rule dvd_trans[of 4 100]) simp_all
qed

lemma days_before_step: "days_before_year (y + 1) = days_before_year y + int (year_len y)"
proof -
  have d: "days_before_year (y + 1) = 365 * y + y div 4 - y div 100 + y div 400"
    by (simp add: days_before_year_def)
  have sum: "365 * y + A - B + C = 365 * (y - 1) + A' - B' + C' + (365 + p - q + r)"
    if "A = A' + p" "B = B' + q" "C = C' + r" for A A' B B' C C' p q r :: int
    using that by simp
  have len: "int (year_len y) = 365 + (if y mod 4 = 0 then 1 else 0) - (if y mod 100 = 0 then 1 else 0)
      + (if y mod 400 = 0 then 1 else 0)"
    unfolding year_len_def leap_def using leap_cases[of y]
    by (cases "y mod 4 = 0"; cases "y mod 100 = 0"; cases "y mod 400 = 0"; simp)
  show ?thesis
    unfolding d days_before_year_def[of y] len by (rule sum; rule div_step) simp_all
qed

lemma cycle_div:
  fixes c y :: int
  shows "(400 * c + y) div 400 = c + y div 400" "(400 * c + y) div 100 = 4 * c + y div 100"
    "(400 * c + y) div 4 = 100 * c + y div 4"
proof -
  have "400 * c + y = y + c * 400" "400 * c + y = y + (4 * c) * 100" "400 * c + y = y + (100 * c) * 4"
    by simp_all
  then show "(400 * c + y) div 400 = c + y div 400" "(400 * c + y) div 100 = 4 * c + y div 100"
    "(400 * c + y) div 4 = 100 * c + y div 4"
    by (metis div_mult_self1 zero_neq_numeral add.commute)+
qed

lemma days_before_cycle: "days_before_year (400 * c + y) = 146097 * c + days_before_year y"
proof -
  have "400 * c + y - 1 = 400 * c + (y - 1)" by simp
  then show ?thesis unfolding days_before_year_def by (simp only: cycle_div) simp
qed

lemma year_len_cycle: "year_len (400 * c + y) = year_len y"
proof -
  have "int (year_len (400 * c + y)) = int (year_len y)"
    using days_before_step[of "400 * c + y"] days_before_step[of y]
      days_before_cycle[of c y] days_before_cycle[of c "y + 1"] by (simp add: add.assoc)
  then show ?thesis by simp
qed

lemma year_of_spec:
  "year_of y d = (y', r) \<Longrightarrow> r < year_len y' \<and> days_before_year y' + int r = days_before_year y + int d"
proof (induction y d arbitrary: y' r rule: year_of.induct)
  case (1 y d)
  show ?case
  proof (cases "d < year_len y")
    case True
    with 1(2) show ?thesis by (simp add: year_of.simps)
  next
    case False
    with 1(2) have "year_of (y + 1) (d - year_len y) = (y', r)" by (simp add: year_of.simps)
    from 1(1)[OF False this] False show ?thesis by (simp add: days_before_step of_nat_diff)
  qed
qed

lemma month_of_spec:
  assumes "month_of ls m d = (m', k)" and "d < sum_list ls"
  shows "m \<le> m' \<and> m' < m + length ls \<and> k < ls ! (m' - m) \<and> sum_list (take (m' - m) ls) + k = d"
  using assms
proof (induction ls arbitrary: m d)
  case Nil
  then show ?case by simp
next
  case (Cons l ls)
  show ?case
  proof (cases "d < l")
    case True
    with Cons.prems show ?thesis by auto
  next
    case False
    with Cons.prems have "month_of ls (Suc m) (d - l) = (m', k)" "d - l < sum_list ls" by auto
    note IH = Cons.IH[OF this]
    then obtain j where "m' = Suc m + j" by (metis le_iff_add)
    with IH have "sum_list (take (m' - m) (l # ls)) + k = l + (d - l)" "k < (l # ls) ! (m' - m)"
      "m' < m + length (l # ls)" "m \<le> m'" by simp_all
    with False show ?thesis by simp
  qed
qed

lemma sum_month_lens: "sum_list (month_lens y) = year_len y"
  by (simp add: month_lens_def year_len_def)

lemma length_month_lens [simp]: "length (month_lens y) = 12"
  by (simp add: month_lens_def)

lemma month_lens_31: "l \<in> set (month_lens y) \<Longrightarrow> l \<le> 31"
  by (auto simp: month_lens_def split: if_splits)

lemma civil_spec:
  assumes "civil d = (y, m, k)"
  shows "1 \<le> m \<and> m \<le> 12 \<and> 1 \<le> k \<and> k \<le> month_lens y ! (m - 1) \<and> days_of y m k = d"
    and "days_before_year y \<le> d \<and> d < days_before_year (y + 1)"
proof -
  obtain y0 r where y0: "year_of 1 (nat (d mod 146097)) = (y0, r)" by fastforce
  note spec = year_of_spec[OF y0]
  have y: "y = 400 * (d div 146097) + y0" and mk: "month_of (month_lens y) 1 r = (m, k - 1)" "k \<noteq> 0"
    using assms y0 by (auto simp: civil_def Let_def split: prod.splits)
  have r: "r < year_len y" using spec by (simp add: y year_len_cycle)
  have b: "days_before_year y + int r = d"
  proof -
    have "days_before_year y = 146097 * (d div 146097) + days_before_year y0"
      unfolding y by (rule days_before_cycle)
    moreover have "days_before_year y0 + int r = d mod 146097"
      using spec by (simp add: days_before_year_def[of 1])
    ultimately show ?thesis using mult_div_mod_eq[of 146097 d] by linarith
  qed
  show "days_before_year y \<le> d \<and> d < days_before_year (y + 1)"
    using b r by (simp add: days_before_step)
  from month_of_spec[OF mk(1)] r sum_month_lens[of y]
  have m: "1 \<le> m" "m < 13" "k - 1 < month_lens y ! (m - 1)"
    "sum_list (take (m - 1) (month_lens y)) + (k - 1) = r" by simp_all
  with b mk(2) show "1 \<le> m \<and> m \<le> 12 \<and> 1 \<le> k \<and> k \<le> month_lens y ! (m - 1) \<and> days_of y m k = d"
    by (auto simp: days_of_def)
qed

lemma days_before_mono: "y \<le> y' \<Longrightarrow> days_before_year y \<le> days_before_year y'"
proof (induction "nat (y' - y)" arbitrary: y')
  case 0
  then show ?case by simp
next
  case (Suc n)
  then have "days_before_year y \<le> days_before_year (y' - 1)" by simp
  also have "\<dots> \<le> days_before_year y'" using days_before_step[of "y' - 1"] by simp
  finally show ?case .
qed

lemma sum_take_mono: "i \<le> j \<Longrightarrow> sum_list (take i (ls :: nat list)) \<le> sum_list (take j ls)"
  by (metis le_add1 le_iff_add sum_list_append take_add)

text \<open>Dates in the order of years, months and days.\<close>

definition date_less :: "int \<times> nat \<times> nat \<Rightarrow> int \<times> nat \<times> nat \<Rightarrow> bool" where
  "date_less a b \<longleftrightarrow>
     (case (a, b) of ((y, m, k), (y', m', k')) \<Rightarrow>
        y < y' \<or> y = y' \<and> (m < m' \<or> m = m' \<and> k < k'))"

lemma date_less_days:
  assumes "date_less (civil d) (civil d')"
  shows "d < d'"
proof -
  obtain y m k y' m' k' where c: "civil d = (y, m, k)" "civil d' = (y', m', k')" by (metis surj_pair)
  note s = civil_spec[OF c(1)] and s' = civil_spec[OF c(2)]
  consider "y < y'" | "y = y'" "m < m'" | "y = y'" "m = m'" "k < k'"
    using assms by (auto simp: date_less_def c)
  then show ?thesis
  proof cases
    case 1
    then have "days_before_year (y + 1) \<le> days_before_year y'" by (intro days_before_mono) simp
    with s(2) s'(2) show ?thesis by linarith
  next
    case 2
    let ?l = "month_lens y"
    have "take m ?l = take (m - 1) ?l @ [?l ! (m - 1)]"
      using s(1) take_Suc_conv_app_nth[of "m - 1" ?l] by (cases m) simp_all
    then have "sum_list (take (m - 1) ?l) + ?l ! (m - 1) \<le> sum_list (take (m' - 1) ?l)"
      using sum_take_mono[of m "m' - 1" ?l] 2 by simp
    with s(1) s'(1) 2 show ?thesis by (simp add: days_of_def)
  next
    case 3
    with s(1) s'(1) show ?thesis by (simp add: days_of_def)
  qed
qed

lemma civil_inject: "civil d = civil d' \<longleftrightarrow> d = d'"
  using civil_spec(1)[of d] civil_spec(1)[of d'] by (metis surj_pair)

lemma civil_less: "date_less (civil d) (civil d') \<longleftrightarrow> d < d'"
proof
  assume "d < d'"
  obtain y m k y' m' k' where c: "civil d = (y, m, k)" "civil d' = (y', m', k')" by (metis surj_pair)
  have "\<not> date_less (civil d') (civil d)" using date_less_days \<open>d < d'\<close> by fastforce
  moreover have "civil d \<noteq> civil d'" using civil_inject \<open>d < d'\<close> by simp
  ultimately show "date_less (civil d) (civil d')" by (auto simp: date_less_def c)
qed (rule date_less_days)

section \<open>Padded numbers as texts\<close>

fun fix_dec :: "nat \<Rightarrow> nat \<Rightarrow> string" where
  "fix_dec 0 n = []"
| "fix_dec (Suc w) n = fix_dec w (n div 10) @ [digit_char (n mod 10)]"

lemma length_fix_dec [simp]: "length (fix_dec w n) = w"
  by (induction w arbitrary: n) simp_all

lemma digit_char_0: "digit_char 0 = CHR ''0''"
  by code_simp

lemma fix_dec_zero: "fix_dec w 0 = replicate w (CHR ''0'')"
  by (induction w) (simp_all add: digit_char_0 replicate_append_same)

lemma pad_fix_dec: "0 < w \<Longrightarrow> n < 10 ^ w \<Longrightarrow> pad w n = fix_dec w n"
proof (induction w arbitrary: n)
  case 0
  then show ?case by simp
next
  case (Suc w)
  show ?case
  proof (cases "n < 10")
    case True
    then show ?thesis by (simp add: pad_def fix_dec_zero nat_dec.simps[of n])
  next
    case False
    then have "0 < w" using Suc.prems by (cases w) auto
    moreover have "n div 10 < 10 ^ w" using Suc.prems by (simp add: less_mult_imp_div_less)
    ultimately have "pad w (n div 10) = fix_dec w (n div 10)" by (rule Suc.IH)
    with False show ?thesis by (simp add: pad_def nat_dec.simps[of n])
  qed
qed

lemma digit_char_less: "a < 10 \<Longrightarrow> b < 10 \<Longrightarrow> digit_char a < digit_char b \<longleftrightarrow> a < b"
  by (simp add: less_char_def of_char_digit_char)

lemma append_less:
  "length xs = length ys \<Longrightarrow>
    ((xs :: 'a :: linorder list) @ us < ys @ vs) = (xs < ys \<or> xs = ys \<and> us < vs)"
  by (induction xs ys rule: list_induct2) auto

lemma digit_char_inject: "a < 10 \<Longrightarrow> b < 10 \<Longrightarrow> digit_char a = digit_char b \<longleftrightarrow> a = b"
  by (metis of_char_digit_char add_left_cancel)

lemma fix_dec_inject: "m < 10 ^ w \<Longrightarrow> n < 10 ^ w \<Longrightarrow> fix_dec w m = fix_dec w n \<longleftrightarrow> m = n"
proof (induction w arbitrary: m n)
  case (Suc w)
  then have "m div 10 < 10 ^ w" "n div 10 < 10 ^ w" by (simp_all add: less_mult_imp_div_less)
  with Suc.IH have "fix_dec (Suc w) m = fix_dec (Suc w) n \<longleftrightarrow> m div 10 = n div 10 \<and> m mod 10 = n mod 10"
    by (simp add: digit_char_inject)
  also have "\<dots> \<longleftrightarrow> m = n" by (metis div_mult_mod_eq)
  finally show ?case .
qed simp

lemma div_mod_less: "(m :: nat) < n \<longleftrightarrow> m div b < n div b \<or> m div b = n div b \<and> m mod b < n mod b"
  by (metis div_le_mono div_mult_mod_eq leD le_eq_less_or_eq linorder_neqE_nat nat_add_left_cancel_less)

lemma fix_dec_less: "m < 10 ^ w \<Longrightarrow> n < 10 ^ w \<Longrightarrow> fix_dec w m < fix_dec w n \<longleftrightarrow> m < n"
proof (induction w arbitrary: m n)
  case (Suc w)
  then have "m div 10 < 10 ^ w" "n div 10 < 10 ^ w" by (simp_all add: less_mult_imp_div_less)
  with Suc.IH[OF this] fix_dec_inject[OF this] show ?case
    by (simp add: append_less digit_char_less div_mod_less[of m n 10])
qed simp

lemma dec_val_fix_dec: "n < 10 ^ w \<Longrightarrow> dec_val 0 (fix_dec w n) = n"
proof (induction w arbitrary: n)
  case (Suc w)
  then have "n div 10 < 10 ^ w" by (simp add: less_mult_imp_div_less)
  with Suc.IH show ?case by (simp add: dec_val_append)
qed simp

lemma fix_dec_digits: "c \<in> set (fix_dec w n) \<Longrightarrow> is_digit c"
  by (induction w arbitrary: n) (auto simp del: of_char_mod_256)

section \<open>Times as texts\<close>

definition four_digit_year :: "time \<Rightarrow> bool" where
  "four_digit_year t \<longleftrightarrow> (let y = fst (civil (t div second div 86400)) in 0 \<le> y \<and> y \<le> 9999)"

lemma fmt_date_fix:
  assumes "civil d = (y, m, k)" and "0 \<le> y" and "y \<le> 9999"
  shows "fmt_date d = fix_dec 4 (nat y) @ ''-'' @ fix_dec 2 m @ ''-'' @ fix_dec 2 k"
    and "nat y < 10 ^ 4" and "m < 10 ^ 2" and "k < 10 ^ 2"
proof -
  note s = civil_spec(1)[OF assms(1)]
  have "month_lens y ! (m - 1) \<in> set (month_lens y)" using s by (intro nth_mem) auto
  with s month_lens_31 have "k \<le> 31" by fastforce
  then show b: "nat y < 10 ^ 4" "m < 10 ^ 2" "k < 10 ^ 2" using assms s by auto
  show "fmt_date d = fix_dec 4 (nat y) @ ''-'' @ fix_dec 2 m @ ''-'' @ fix_dec 2 k"
    using b assms by (simp add: fmt_date_def pad_year_def pad_fix_dec)
qed

lemma fmt_date_less:
  assumes "civil d = (y, m, k)" and "0 \<le> y" and "y \<le> 9999"
    and "civil d' = (y', m', k')" and "0 \<le> y'" and "y' \<le> 9999"
  shows "length (fmt_date d) = 10" and "fmt_date d < fmt_date d' \<longleftrightarrow> d < d'"
    and "fmt_date d = fmt_date d' \<longleftrightarrow> d = d'"
proof -
  note f = fmt_date_fix[OF assms(1-3)] and f' = fmt_date_fix[OF assms(4-6)]
  show "length (fmt_date d) = 10" by (simp add: f)
  have "fmt_date d < fmt_date d' \<longleftrightarrow> date_less (civil d) (civil d')"
    unfolding f f' using fix_dec_less[OF f(2) f'(2)] fix_dec_less[OF f(3) f'(3)] fix_dec_less[OF f(4) f'(4)]
      fix_dec_inject[OF f(2) f'(2)] fix_dec_inject[OF f(3) f'(3)] assms
    by (auto simp: append_less date_less_def)
  then show "fmt_date d < fmt_date d' \<longleftrightarrow> d < d'" by (simp add: civil_less)
  have "fmt_date d = fmt_date d' \<longleftrightarrow> civil d = civil d'"
    unfolding f f' using fix_dec_inject[OF f(2) f'(2)] fix_dec_inject[OF f(3) f'(3)]
      fix_dec_inject[OF f(4) f'(4)] assms by auto
  then show "fmt_date d = fmt_date d' \<longleftrightarrow> d = d'" by (simp add: civil_inject)
qed

lemma fmt_clock_fix:
  assumes "s < 86400"
  shows "fmt_clock s = fix_dec 2 (s div 3600) @ '':'' @ fix_dec 2 (s div 60 mod 60) @ '':'' @ fix_dec 2 (s mod 60)"
    and "s div 3600 < 10 ^ 2" and "s div 60 mod 60 < 10 ^ 2" and "s mod 60 < 10 ^ 2"
proof -
  show b: "s div 3600 < 10 ^ 2" "s div 60 mod 60 < 10 ^ 2" "s mod 60 < 10 ^ 2"
    using assms by (simp_all add: less_mult_imp_div_less order.strict_trans[OF mod_less_divisor])
  show "fmt_clock s = fix_dec 2 (s div 3600) @ '':'' @ fix_dec 2 (s div 60 mod 60) @ '':'' @ fix_dec 2 (s mod 60)"
    using b by (simp add: fmt_clock_def pad_fix_dec)
qed

lemma fmt_clock_less:
  assumes "s < 86400" and "s' < 86400"
  shows "fmt_clock s < fmt_clock s' \<longleftrightarrow> s < s'"
proof -
  note f = fmt_clock_fix[OF assms(1)] and f' = fmt_clock_fix[OF assms(2)]
  have d: "x div 60 div 60 = x div 3600" for x :: nat by (simp add: div_mult2_eq[symmetric])
  have "fmt_clock s < fmt_clock s' \<longleftrightarrow> s div 3600 < s' div 3600 \<or> s div 3600 = s' div 3600 \<and>
      (s div 60 mod 60 < s' div 60 mod 60 \<or> s div 60 mod 60 = s' div 60 mod 60 \<and> s mod 60 < s' mod 60)"
    unfolding f f' using fix_dec_less[OF f(2) f'(2)] fix_dec_less[OF f(3) f'(3)] fix_dec_less[OF f(4) f'(4)]
      fix_dec_inject[OF f(2) f'(2)] fix_dec_inject[OF f(3) f'(3)]
    by (auto simp: append_less)
  moreover have "s div 60 = s' div 60 \<longleftrightarrow> s div 3600 = s' div 3600 \<and> s div 60 mod 60 = s' div 60 mod 60"
    unfolding d[symmetric] by (metis div_mult_mod_eq)
  ultimately have "fmt_clock s < fmt_clock s' \<longleftrightarrow> s < s'"
    using div_mod_less[of s s' 60] div_mod_less[of "s div 60" "s' div 60" 60] unfolding d by argo
  then show ?thesis .
qed

lemma fmt_sqlite_order:
  assumes "four_digit_year t" and "four_digit_year u"
  shows "fmt_sqlite t < fmt_sqlite u \<longleftrightarrow> t div second < u div second"
proof -
  let ?s = "t div second" and ?r = "u div second"
  obtain y m k y' m' k' where c: "civil (?s div 86400) = (y, m, k)" "civil (?r div 86400) = (y', m', k')"
    by (metis surj_pair)
  with assms have "0 \<le> y" "y \<le> 9999" "0 \<le> y'" "y' \<le> 9999" by (simp_all add: four_digit_year_def)
  note d = fmt_date_less[OF c(1) this(1,2) c(2) this(3,4)] fmt_date_less(1)[OF c(2) this(3,4) c(1) this(1,2)]
  have b: "nat (?s mod 86400) < 86400" "nat (?r mod 86400) < 86400" by simp_all
  have "fmt_sqlite t < fmt_sqlite u \<longleftrightarrow>
      ?s div 86400 < ?r div 86400 \<or> ?s div 86400 = ?r div 86400 \<and> nat (?s mod 86400) < nat (?r mod 86400)"
    using d fmt_clock_less[OF b] by (simp add: fmt_sqlite_def Let_def append_less)
  also have "\<dots> \<longleftrightarrow> ?s < ?r"
  proof -
    have "?s = 86400 * (?s div 86400) + ?s mod 86400" "?r = 86400 * (?r div 86400) + ?r mod 86400" by simp_all
    moreover have "0 \<le> ?s mod 86400" "?s mod 86400 < 86400" "0 \<le> ?r mod 86400" "?r mod 86400 < 86400" by simp_all
    moreover have ord: "(a < b \<or> a = b \<and> nat p < nat q) = (86400 * a + p < 86400 * b + q)"
      if "0 \<le> p" "p < 86400" "0 \<le> q" "q < 86400" for a b p q :: int
      using that by (cases "a < b"; cases "a = b") auto
    ultimately show ?thesis by metis
  qed
  finally show ?thesis .
qed

lemma fmt_rfc3339_order:
  assumes "four_digit_year t" and "four_digit_year u"
  shows "fmt_rfc3339 t < fmt_rfc3339 u \<longleftrightarrow> t div second < u div second"
proof -
  let ?s = "t div second" and ?r = "u div second"
  obtain y m k y' m' k' where c: "civil (?s div 86400) = (y, m, k)" "civil (?r div 86400) = (y', m', k')"
    by (metis surj_pair)
  with assms have "0 \<le> y" "y \<le> 9999" "0 \<le> y'" "y' \<le> 9999" by (simp_all add: four_digit_year_def)
  note d = fmt_date_less(1)[OF c(1) this(1,2) c(2) this(3,4)] fmt_date_less(1)[OF c(2) this(3,4) c(1) this(1,2)]
  have len: "length (fmt_clock n) = 8" if "n < 86400" for n
    unfolding fmt_clock_fix(1)[OF that] by simp
  have "nat (?s mod 86400) < 86400" "nat (?r mod 86400) < 86400" by simp_all
  note b = len[OF this(1)] len[OF this(2)]
  have "fmt_rfc3339 t < fmt_rfc3339 u \<longleftrightarrow> fmt_sqlite t < fmt_sqlite u"
    using d b by (simp add: fmt_rfc3339_def fmt_sqlite_def Let_def append_less)
  with fmt_sqlite_order[OF assms] show ?thesis by simp
qed

section \<open>Parsing what was formatted\<close>

lemma fix_dec_2: "n < 100 \<Longrightarrow> fix_dec 2 n = [digit_char (n div 10), digit_char (n mod 10)]"
  by (simp add: numeral_2_eq_2)

lemma getnum_fix: "n < 100 \<Longrightarrow> getnum fixed (fix_dec 2 n @ rest) = Some (n, rest)"
  by (simp add: getnum_def fix_dec_2)

lemma getyear_fix: "n < 10 ^ 4 \<Longrightarrow> getyear (fix_dec 4 n @ rest) = Some (n, rest)"
  using fix_dec_digits[of _ 4 n] dec_val_fix_dec[of n 4] by (simp add: getyear_def)

lemma literal_char [simp]: "literal [c] (c # rest) = Some rest"
  by (simp add: literal_def has_prefix_def)

lemma getdate_fmt:
  assumes "civil d = (y, m, k)" and "0 \<le> y" and "y \<le> 9999"
  shows "getdate (fmt_date d @ rest) = Some (d, rest)"
proof -
  note f = fmt_date_fix[OF assms] and s = civil_spec(1)[OF assms(1)]
  have "fmt_date d @ rest =
      fix_dec 4 (nat y) @ CHR ''-'' # fix_dec 2 m @ CHR ''-'' # fix_dec 2 k @ rest"
    by (simp add: f)
  moreover have "m < 100" "k < 100" using f by simp_all
  moreover have "days_of y m k = d" "\<not> (m < 1 \<or> 12 < m)" "\<not> (k < 1 \<or> month_lens y ! (m - 1) < k)"
    "int (nat y) = y" using s assms(2) by auto
  ultimately show ?thesis
    by (simp only: getdate_def getyear_fix[OF f(2)] literal_char getnum_fix bind.bind_lunit
        prod.case if_False)
qed

lemma getclock_fmt:
  assumes "s < 86400"
  shows "getclock (fmt_clock s) = Some (int s * second, [])"
proof -
  note f = fmt_clock_fix[OF assms]
  have h: "s div 3600 < 100" "s div 60 mod 60 < 100" "s mod 60 < 100" using f by simp_all
  have "s div 3600 < 24" using assms by (simp add: less_mult_imp_div_less)
  moreover have "3600 * (s div 3600) + 60 * (s div 60 mod 60) + s mod 60 = s"
  proof -
    have "3600 * h + 60 * mi + sc = s" if "h * 60 + mi = x" "x * 60 + sc = s" for h mi sc x :: nat
      using that by simp
    moreover have "s div 3600 * 60 + s div 60 mod 60 = s div 60"
      using div_mult_mod_eq[of "s div 60" 60] by (simp add: div_mult2_eq[symmetric])
    ultimately show ?thesis using div_mult_mod_eq[of s 60] by blast
  qed
  moreover have "getnum True (fix_dec 2 (s mod 60)) = Some (s mod 60, [])"
    using getnum_fix[OF h(3), of True "[]"] by simp
  moreover have "\<not> 60 \<le> s mod 60" "\<not> 60 \<le> s div 60 mod 60" by (simp_all add: not_le)
  ultimately show ?thesis
    unfolding f by (simp add: getclock_def getnum_fix[OF h(1)] getnum_fix[OF h(2)] getfrac_def)
qed

lemma digit_not_space: "d < 10 \<Longrightarrow> digit_char d \<noteq> CHR '' ''"
proof
  assume "d < 10" and "digit_char d = CHR '' ''"
  then have "is_digit (CHR '' '')" by (metis is_digit_digit_char)
  then show False by (simp add: is_digit_def)
qed

lemma skip_space_clock:
  assumes "s < 86400"
  shows "skip_space ('' '' @ fmt_clock s) = Some (fmt_clock s)"
proof -
  note f = fmt_clock_fix[OF assms]
  have "s div 3600 < 100" using f(2) by simp
  then have "\<exists>rest. fmt_clock s = digit_char (s div 3600 div 10) # rest"
    unfolding f(1) using fix_dec_2[of "s div 3600"] by simp
  moreover have "s div 3600 div 10 < 10" using \<open>s div 3600 < 100\<close> by simp
  ultimately show ?thesis using digit_not_space by (auto simp: skip_space_def)
qed

lemma parse_fmt_sqlite:
  assumes "four_digit_year t"
  shows "parse_sqlite (fmt_sqlite t) = Some (t - t mod second)"
proof -
  let ?s = "t div second"
  obtain y m k where c: "civil (?s div 86400) = (y, m, k)" by (metis surj_pair)
  with assms have y: "0 \<le> y" "y \<le> 9999" by (simp_all add: four_digit_year_def)
  have n: "nat (?s mod 86400) < 86400" by simp
  note sp = skip_space_clock[OF n]
  have "?s div 86400 * day + (?s mod 86400) * second = ?s * second"
  proof -
    have "?s div 86400 * day = ?s div 86400 * 86400 * second" by (simp add: day_def hour_def)
    then show ?thesis by (metis distrib_right div_mult_mod_eq)
  qed
  also have "\<dots> = t - t mod second" by (simp add: minus_mod_eq_div_mult)
  finally have "?s div 86400 * day + (?s mod 86400) * second = t - t mod second" .
  then show ?thesis
    using sp getclock_fmt[OF n]
    by (simp add: parse_sqlite_def fmt_sqlite_def Let_def getdate_fmt[OF c y])
qed

text \<open>C36: Times of the years 0 to 9999, formatted as SQLite stores them, compare as texts
  exactly as the times compare to the second, so the text comparisons in the queries on
  \<open>request_log\<close> and \<open>domain_stats\<close> are chronological; and \<open>mustParseTime\<close> gives such a text
  back as the time it was made from, to the second.\<close>
theorem sqlite_time_texts:
  assumes "four_digit_year t" and "four_digit_year u"
  shows "(TimeFmt DialectSQLite t \<le> TimeFmt DialectSQLite u \<longleftrightarrow> t div second \<le> u div second) \<and>
    mustParseTime now (TimeFmt DialectSQLite t) = t - t mod second"
  using fmt_sqlite_order[OF assms(2,1)] parse_fmt_sqlite[OF assms(1)]
  by (simp add: TimeFmt_def mustParseTime_def flip: linorder_not_less)

theorem sqlite_time_texts_witness:
  "mustParseTime 0 (TimeFmt DialectSQLite (63844793430 * second)) = 63844793430 * second"
proof -
  have "four_digit_year (63844793430 * second)" by (simp add: four_digit_year_def second_def) code_simp
  from sqlite_time_texts[OF this this] show ?thesis by simp
qed

end
