(* ===== verification/Store_Logs_Props.thy ===== *)
theory Store_Logs_Props
  imports Store_Logs Go_Time_Props
begin

text \<open>
  The log and its rollup: a batch is inserted whole or not at all, the rollup of an hour
  counts exactly the entries of that hour, and what the text comparisons of SQLite do to
  timestamps in another format.
\<close>

section \<open>Batches\<close>

definition rows_of :: "timestamp \<Rightarrow> request_log_entry list \<Rightarrow> log_row list" where
  "rows_of t entries = map (\<lambda>e. \<lparr>lr_entry = e, lr_created_at = t\<rparr>) entries"

definition same_but_log :: "db \<Rightarrow> db \<Rightarrow> bool" where
  "same_but_log s s' \<longleftrightarrow>
     domains s' = domains s \<and> redirect_rules s' = redirect_rules s \<and>
     domain_stats s' = domain_stats s \<and> db_now s' = db_now s"

lemma transaction_success:
  assumes "transaction env body s = (Inr x, s')"
  obtains s0 s1 where "same_tables s s0" "body s0 = (Inr x, s1)" "same_tables s1 s'"
    "nocut s \<Longrightarrow> nocut s0"
proof -
  obtain r0 s0 where b: "exec (retE ()) s = (r0, s0)" by fastforce
  have t0: "same_tables s s0" using exec_retE_tables[of s "()"] b by simp
  obtain r1 s1 where r1: "body s0 = (r1, s1)" by fastforce
  obtain r2 s2 where r2: "exec (retE ()) s1 = (r2, s2)" by fastforce
  from assms b r1 r2 have "r1 = Inr x" "s' = s2"
    by (cases r0; cases r1; cases r2; auto simp: transaction_def bindE_def)+
  moreover have "same_tables s1 s2" using exec_retE_tables[of s1 "()"] r2 by simp
  moreover have "nocut s0" if "nocut s"
    using transparentD(1)[OF transparent_exec[OF blind_retE] that, of "()"] b by simp
  ultimately show thesis using that t0 r1 by blast
qed

lemma insert_logs_loop:
  "for_each (\<lambda>e. exec (sql_insert_log e)) entries s = (Inr u, s') \<Longrightarrow>
    request_log s' = request_log s @ rows_of (db_now s) entries \<and> same_but_log s s'"
proof (induction entries arbitrary: s)
  case Nil
  then show ?case by (simp add: rows_of_def same_but_log_def)
next
  case (Cons e es)
  obtain r s1 where e: "exec (sql_insert_log e) s = (r, s1)" by fastforce
  with Cons.prems have r: "for_each (\<lambda>e. exec (sql_insert_log e)) es s1 = (Inr u, s')" "\<not> isl r"
    by (cases r; simp add: bindE_def)+
  from e r(2) have "s1 = snd (sql_insert_log e (snd (next_fault s)))"
    by (cases rule: exec_cases) auto
  then have "request_log s1 = request_log s @ rows_of (db_now s) [e] \<and> same_but_log s s1"
    by (simp add: sql_insert_log_def rows_of_def same_but_log_def)
  with Cons.IH[OF r(1)] show ?case by (auto simp: rows_of_def same_but_log_def)
qed

lemma BatchInsertLogs_success:
  assumes "BatchInsertLogs env entries s = (Inr u, s')"
  shows "request_log s' = request_log s @ rows_of (db_now s) entries \<and> same_but_log s s'"
proof (cases "entries = []")
  case True
  with assms show ?thesis by (simp add: BatchInsertLogs_def rows_of_def same_but_log_def)
next
  case False
  with assms obtain s0 s1 where s: "same_tables s s0" "same_tables s1 s'"
    and b: "bindE (exec (retE ())) (\<lambda>_. for_each (\<lambda>e. exec (sql_insert_log e)) entries) s0 = (Inr u, s1)"
    by (auto simp: BatchInsertLogs_def elim: transaction_success)
  obtain r s2 where p: "exec (retE ()) s0 = (r, s2)" by fastforce
  with exec_retE_tables[of s0 "()"] have t: "same_tables s0 s2" by simp
  from b p have "for_each (\<lambda>e. exec (sql_insert_log e)) entries s2 = (Inr u, s1)"
    by (cases r) (simp_all add: bindE_def)
  from insert_logs_loop[OF this] s t show ?thesis
    by (auto simp: same_but_log_def same_tables_def)
qed

lemma BatchInsertLogs_error:
  "BatchInsertLogs env entries s = (Inl e, s') \<Longrightarrow> same_tables s s'"
  by (auto simp: BatchInsertLogs_def intro: transaction_error split: if_splits)

section \<open>The statistics of an hour\<close>

definition stat_of :: "db \<Rightarrow> string \<times> string \<Rightarrow> stat_row option" where
  "stat_of s k = List.find (\<lambda>r. stat_key r = k) (domain_stats s)"

definition stat_counts :: "db \<Rightarrow> string \<times> string \<Rightarrow> (int \<times> int) option" where
  "stat_counts s k = map_option (\<lambda>r. (st_hit_count r, st_unique_ips r)) (stat_of s k)"

lemma stat_of_upsert:
  "stat_of (snd (sql_upsert_stat new s)) k = (if k = stat_key new then Some new else stat_of s k)"
proof (cases "stat_key new \<in> stat_key ` set (domain_stats s)")
  case True
  have "List.find (\<lambda>r. stat_key r = k) (map (\<lambda>r. if stat_key r = stat_key new then new else r) rs) =
      (if k = stat_key new then (if stat_key new \<in> stat_key ` set rs then Some new else None)
       else List.find (\<lambda>r. stat_key r = k) rs)" for rs
    by (induction rs) auto
  with True show ?thesis by (simp add: stat_of_def sql_upsert_stat_def)
next
  case False
  then have "List.find (\<lambda>r. stat_key r = stat_key new) (domain_stats s) = None"
    by (simp add: find_key_None)
  with False show ?thesis
    by (auto simp: stat_of_def sql_upsert_stat_def find_append split: option.split)
qed

lemma query_state: "snd (query rows s) = snd (next_fault s)"
  by (auto simp: query_def split: fault.splits prod.splits)

lemma top_lists_tables:
  "same_tables s (snd (getTopPaths env name lo hi s))"
  "same_tables s (snd (getTopReferers env name lo hi s))"
proof -
  have "snd (query_or_empty rows s) = snd (next_fault s)" for rows
    using query_state[of rows s] by (auto simp: query_or_empty_def split: sum.splits prod.splits)
  then show "same_tables s (snd (getTopPaths env name lo hi s))"
    "same_tables s (snd (getTopReferers env name lo hi s))"
    by (simp_all add: getTopPaths_def getTopReferers_def)
qed

lemma rollup_row_success:
  assumes "rollup_row env lo hi (name, hits, ips) s = (Inr u, s')"
  shows "request_log s' = request_log s \<and>
    stat_counts s' k = (if k = (name, lo) then Some (hits, ips) else stat_counts s k)"
proof -
  obtain tp s1 where p: "getTopPaths env name lo hi s = (tp, s1)" by fastforce
  obtain tr s2 where r: "getTopReferers env name lo hi s1 = (tr, s2)" by fastforce
  have "same_tables s s1" "same_tables s1 s2"
    using p r top_lists_tables[of s] top_lists_tables[of s1] by (metis snd_conv)+
  then have t: "same_tables s s2" by (rule same_tables_trans)
  let ?new = "\<lparr>st_domain = name, st_bucket = lo, st_hit_count = hits, st_unique_ips = ips,
    st_top_paths = tp, st_top_referers = tr\<rparr>"
  from assms p r have "exec (sql_upsert_stat ?new) s2 = (Inr u, s')" by (simp add: rollup_row_def)
  then have s': "s' = snd (sql_upsert_stat ?new (snd (next_fault s2)))"
    by (cases rule: exec_cases) auto
  have "stat_of (snd (next_fault s2)) k = stat_of s k" using t by (simp add: stat_of_def same_tables_def)
  then have "stat_of s' k = (if k = (name, lo) then Some ?new else stat_of s k)"
    unfolding s' by (simp add: stat_of_upsert stat_key_def)
  moreover have "request_log s' = request_log s"
    using t unfolding s' by (simp add: sql_upsert_stat_def same_tables_def)
  ultimately show ?thesis by (simp add: stat_counts_def)
qed

lemma rollup_loop:
  "for_each (rollup_row env lo hi) rows s = (Inr u, s') \<Longrightarrow> distinct (map fst rows) \<Longrightarrow>
    request_log s' = request_log s \<and>
    stat_counts s' (name, b) =
      (case (if b = lo then map_of rows name else None) of Some c \<Rightarrow> Some c
       | None \<Rightarrow> stat_counts s (name, b))"
proof (induction rows arbitrary: s)
  case Nil
  then show ?case by simp
next
  case (Cons row rows)
  obtain n h i where row: "row = (n, h, i)" by (cases row)
  obtain r s1 where e: "rollup_row env lo hi row s = (r, s1)" by fastforce
  with Cons.prems(1) have rest: "for_each (rollup_row env lo hi) rows s1 = (Inr u, s')" "\<not> isl r"
    by (cases r; simp add: bindE_def)+
  then obtain v where "r = Inr v" by (cases r) auto
  with e row have "rollup_row env lo hi (n, h, i) s = (Inr v, s1)" by simp
  note one = rollup_row_success[OF this, of "(name, b)"]
  have "map_of rows n = None" using Cons.prems(2) row by (simp add: map_of_eq_None_iff)
  with Cons.IH[OF rest(1)] Cons.prems(2) one row show ?case
    by (auto split: option.splits)
qed

lemma map_of_rollup_rows:
  "map_of (rollup_rows env lo hi s) name =
    (if log_of env name lo hi s = [] then None
     else Some (int (length (log_of env name lo hi s)), unique_ips (log_of env name lo hi s)))"
proof -
  let ?ks = "remdups (map (l_Domain \<circ> lr_entry) (filter (in_window env lo hi) (request_log s)))"
  have "map_of (map (\<lambda>n. (n, f n)) ks) name = (if name \<in> set ks then Some (f name) else None)"
    for f :: "string \<Rightarrow> int \<times> int" and ks
    by (induction ks) auto
  moreover have "name \<in> set ?ks \<longleftrightarrow> log_of env name lo hi s \<noteq> []"
    by (auto simp: log_of_def filter_empty_conv)
  ultimately show ?thesis by (simp add: rollup_rows_def)
qed

lemma map_of_take_distinct:
  assumes "distinct (map fst xs)"
  shows "map_of (take n xs) k = None \<or> map_of (take n xs) k = map_of xs k"
proof -
  have "map_of xs = map_of (drop n xs) ++ map_of (take n xs)"
    by (metis append_take_drop_id map_of_append)
  then show ?thesis by (cases "map_of (take n xs) k") (simp_all add: map_add_def)
qed

lemma query_rows:
  assumes "query rows s = (Inr (rs, er), s')"
  shows "s' = snd (next_fault s) \<and> (\<exists>n. rs = take n (rows s')) \<and> (nocut s \<longrightarrow> rs = rows s')"
proof -
  obtain f x where f: "next_fault s = (f, x)" by fastforce
  show ?thesis
  proof (cases f)
    case NoFault
    with assms f show ?thesis by (auto simp: query_def intro: exI[of _ "length (rows x)"])
  next
    case (Cut n m)
    with nocut_not_Cut[of s n m] f have "\<not> nocut s" by auto
    with Cut assms f show ?thesis by (auto simp: query_def)
  qed (use assms f in \<open>simp add: query_def\<close>)
qed

text \<open>A rollup that succeeds has counted each domain of the hour or, when its loop over the
  rows was cut short, left it as it was.\<close>

lemma RunRollup_success:
  assumes "RunRollup env t s = (Inr u, s')"
    and lo: "lo = TimeFmt (env_dialect env) (trunc_hour t)"
    and hi: "hi = TimeFmt (env_dialect env) (trunc_hour t + hour)"
  defines "counted name \<equiv> (if log_of env name lo hi s = [] then None
     else Some (int (length (log_of env name lo hi s)), unique_ips (log_of env name lo hi s)))"
  shows "request_log s' = request_log s \<and>
    (b = lo \<and> counted name \<noteq> None \<and> stat_counts s' (name, b) = counted name \<or>
     \<not> (nocut s \<and> b = lo \<and> counted name \<noteq> None) \<and> stat_counts s' (name, b) = stat_counts s (name, b))"
proof -
  obtain q s1 where q1: "query (rollup_rows env lo hi) s = (q, s1)" by fastforce
  with assms(1) obtain rows er where rows: "q = Inr (rows, er)"
    by (cases q) (auto simp: RunRollup_def Let_def bindE_def lo hi)
  note qr = query_rows[OF q1[unfolded rows]]
  have tab: "request_log s1 = request_log s" "domain_stats s1 = domain_stats s" using qr by simp_all
  then have rr: "rollup_rows env lo hi s1 = rollup_rows env lo hi s"
    by (simp add: rollup_rows_def log_of_def)
  have "\<exists>n. rows = take n (rollup_rows env lo hi s)"
    and nc: "nocut s \<longrightarrow> rows = rollup_rows env lo hi s" using qr unfolding rr by blast+
  then obtain n where r: "rows = take n (rollup_rows env lo hi s)" by blast
  have "transaction env (for_each (rollup_row env lo hi) rows) s1 = (Inr u, s')"
    using assms(1) q1 rows by (simp add: RunRollup_def Let_def bindE_def lo hi)
  then obtain s2 s3 where t: "same_tables s1 s2" "same_tables s3 s'"
    and l: "for_each (rollup_row env lo hi) rows s2 = (Inr u, s3)"
    by (rule transaction_success) blast
  have dist: "distinct (map fst (rollup_rows env lo hi s))" by (simp add: rollup_rows_def comp_def)
  then have "distinct (map fst rows)" by (simp add: r distinct_take flip: take_map)
  note loop = rollup_loop[OF l this, of name b]
  have m: "map_of (rollup_rows env lo hi s) name = counted name"
    by (simp add: map_of_rollup_rows counted_def)
  have sc: "stat_counts s2 k = stat_counts s k" "stat_counts s' k = stat_counts s3 k" for k
    using t tab by (simp_all add: same_tables_def stat_counts_def stat_of_def)
  have st: "request_log s' = request_log s"
    "stat_counts s' (name, b) = (case if b = lo then map_of rows name else None of
       Some c \<Rightarrow> Some c | None \<Rightarrow> stat_counts s (name, b))"
    using loop[unfolded sc(1)] t tab sc(2) by (simp_all add: same_tables_def)
  from map_of_take_distinct[OF dist, of n name] m r
  have "map_of rows name = None \<or> map_of rows name = counted name" by simp
  moreover have "nocut s \<Longrightarrow> map_of rows name = counted name" using nc m by simp
  ultimately show ?thesis using st
    by (cases "b = lo"; cases "nocut s"; cases "counted name") (auto split: option.splits)
qed

lemma RunRollup_error:
  assumes "RunRollup env t s = (Inl e, s')"
  shows "same_tables s s'"
proof -
  let ?lo = "TimeFmt (env_dialect env) (trunc_hour t)" and ?hi = "TimeFmt (env_dialect env) (trunc_hour t + hour)"
  obtain q s1 where q1: "query (rollup_rows env ?lo ?hi) s = (q, s1)" by fastforce
  have s1: "same_tables s s1"
    using query_state[of "rollup_rows env ?lo ?hi" s] q1 by (metis same_tables_next snd_conv)
  show ?thesis
  proof (cases q)
    case (Inl er)
    with assms q1 s1 show ?thesis by (simp add: RunRollup_def Let_def bindE_def)
  next
    case (Inr p)
    with assms q1 have "transaction env (for_each (rollup_row env ?lo ?hi) (fst p)) s1 = (Inl e, s')"
      by (cases p) (simp add: RunRollup_def Let_def bindE_def)
    from transaction_error[OF this] s1 show ?thesis by (rule same_tables_trans[rotated])
  qed
qed

section \<open>Hours as texts\<close>

lemma second_dvd_trunc: "trunc_hour t = (t div hour) * 3600 * second"
  by (simp add: trunc_hour_def hour_def minus_mod_eq_mult_div)

definition sqlite_env :: "sqlenv \<Rightarrow> bool" where
  "sqlite_env env \<longleftrightarrow> env_dialect env = DialectSQLite \<and> ts_le env = (\<le>)"

text \<open>
  What the rollup relies on: \<open>created c\<close> is the value a row inserted at the time \<open>c\<close> gets from
  the column's default, and the database compares it with the text of a whole second as times
  compare. On SQLite, where both are texts, this is a fact about the layout; on PostgreSQL it
  is the documented comparison of \<open>timestamptz\<close> values.
\<close>

definition compares_times :: "sqlenv \<Rightarrow> (time \<Rightarrow> timestamp) \<Rightarrow> bool" where
  "compares_times env created \<longleftrightarrow>
     (\<forall>u c. four_digit_year u \<longrightarrow> u mod second = 0 \<longrightarrow> four_digit_year c \<longrightarrow>
        (ts_le env (TimeFmt (env_dialect env) u) (created c) \<longleftrightarrow> u \<le> c))"

lemma whole_second_le:
  assumes "u mod second = 0"
  shows "u div second \<le> c div second \<longleftrightarrow> u \<le> c"
proof -
  have s: "0 < second" by (simp add: second_def)
  from assms have u: "u = u div second * second" by (simp add: minus_mod_eq_div_mult[symmetric])
  have "u div second \<le> c div second \<longleftrightarrow> u div second * second \<le> c"
  proof
    assume "u div second \<le> c div second"
    then have "u div second * second \<le> c div second * second" using s by (intro mult_right_mono) simp_all
    also have "\<dots> \<le> c" using s by (simp add: minus_mod_eq_div_mult[symmetric])
    finally show "u div second * second \<le> c" .
  next
    assume "u div second * second \<le> c"
    then show "u div second \<le> c div second" using u s zdiv_mono1 by metis
  qed
  with u show ?thesis by simp
qed

lemma sqlite_compares: "sqlite_env env \<Longrightarrow> compares_times env fmt_sqlite"
  using fmt_sqlite_order whole_second_le
  by (auto simp: compares_times_def sqlite_env_def TimeFmt_def simp flip: linorder_not_less)

text \<open>PostgreSQL's comparison can be instantiated by the one of the RFC 3339 texts.\<close>

lemma postgres_compares: "compares_times (reference_env DialectPostgres) fmt_rfc3339"
  using fmt_rfc3339_order whole_second_le
  by (auto simp: compares_times_def TimeFmt_def simp flip: linorder_not_less)

lemma trunc_hour_iff:
  "trunc_hour t \<le> c \<and> \<not> trunc_hour t + hour \<le> c \<longleftrightarrow> trunc_hour c = trunc_hour t"
proof -
  have h: "0 < hour" by (simp add: hour_def second_def)
  have "trunc_hour x = (x div hour) * hour" for x by (simp add: trunc_hour_def minus_mod_eq_div_mult)
  moreover have "(t div hour) * hour \<le> c \<and> c < (t div hour) * hour + hour \<longleftrightarrow> c div hour = t div hour"
    by (auto simp: hour_def second_def)
  ultimately show ?thesis using h by (simp add: not_le)
qed

text \<open>A log whose entries came at given times.\<close>

definition logged_at :: "(time \<Rightarrow> timestamp) \<Rightarrow> (request_log_entry \<times> time) list \<Rightarrow> log_row list" where
  "logged_at created hits = map (\<lambda>(e, c). \<lparr>lr_entry = e, lr_created_at = created c\<rparr>) hits"

definition hits_in_hour :: "string \<Rightarrow> time \<Rightarrow> (request_log_entry \<times> time) list \<Rightarrow> request_log_entry list" where
  "hits_in_hour name t hits =
     map fst (filter (\<lambda>(e, c). l_Domain e = name \<and> trunc_hour c = trunc_hour t) hits)"

lemma log_of_hour:
  assumes "compares_times env created" and "request_log s = logged_at created hits"
    and "\<forall>(e, c) \<in> set hits. four_digit_year c"
    and "four_digit_year (trunc_hour t)" and "four_digit_year (trunc_hour t + hour)"
  shows "map lr_entry (log_of env name (TimeFmt (env_dialect env) (trunc_hour t))
      (TimeFmt (env_dialect env) (trunc_hour t + hour)) s) = hits_in_hour name t hits"
proof -
  let ?in = "in_window env (TimeFmt (env_dialect env) (trunc_hour t))
    (TimeFmt (env_dialect env) (trunc_hour t + hour))"
  have "trunc_hour t mod second = 0" "(trunc_hour t + hour) mod second = 0"
    by (simp_all add: second_dvd_trunc hour_def second_def)
  with assms(1,4,5) have "?in \<lparr>lr_entry = e, lr_created_at = created c\<rparr> \<longleftrightarrow> trunc_hour c = trunc_hour t"
    if "four_digit_year c" for e c
    using trunc_hour_iff[of t c] that by (simp add: in_window_def compares_times_def)
  then have "filter (\<lambda>x. l_Domain (fst x) = name \<and> ?in \<lparr>lr_entry = fst x, lr_created_at = created (snd x)\<rparr>) hits
      = filter (\<lambda>x. l_Domain (fst x) = name \<and> trunc_hour (snd x) = trunc_hour t) hits"
    using assms(3) by (intro filter_cong) auto
  then show ?thesis
    by (simp add: log_of_def assms(2) logged_at_def filter_map comp_def hits_in_hour_def case_prod_unfold)
qed

text \<open>C37: On either database a rollup that succeeds, and whose loop over the rows is not cut
  short by a connection error (\<open>nocut\<close>; the code does not look at \<open>rows.Err\<close>), stores, for
  every domain with entries in the hour of its argument, exactly their number and the number
  of their distinct client addresses in the bucket of that hour. Under any faults it changes
  no other bucket, and not the log, and a bucket of the hour holds either those exact counts or
  what it held before. It depends only on the log, so a repeated rollup after late entries
  corrects the bucket.\<close>
theorem rollup_counts_the_hour:
  assumes "compares_times env created" and "RunRollup env t s = (Inr u, s')"
    and "request_log s = logged_at created hits" and "\<forall>(e, c) \<in> set hits. four_digit_year c"
    and "four_digit_year (trunc_hour t)" and "four_digit_year (trunc_hour t + hour)"
  shows "request_log s' = request_log s \<and>
    (let hs = hits_in_hour name t hits; new = Some (int (length hs), int (card (l_ClientIP ` set hs))) in
     if b = TimeFmt (env_dialect env) (trunc_hour t) \<and> hs \<noteq> []
     then stat_counts s' (name, b) = new \<or>
       \<not> nocut s \<and> stat_counts s' (name, b) = stat_counts s (name, b)
     else stat_counts s' (name, b) = stat_counts s (name, b))"
proof -
  let ?lo = "TimeFmt (env_dialect env) (trunc_hour t)" and ?hi = "TimeFmt (env_dialect env) (trunc_hour t + hour)"
  let ?log = "log_of env name ?lo ?hi s"
  note log = log_of_hour[OF assms(1,3-6), of name]
  have l: "length (hits_in_hour name t hits) = length ?log" "hits_in_hour name t hits = [] \<longleftrightarrow> ?log = []"
    using log by (metis length_map, metis map_is_Nil_conv)
  have c: "int (card (l_ClientIP ` set (hits_in_hour name t hits))) = unique_ips ?log"
    unfolding unique_ips_def by (simp add: length_remdups_card_conv image_comp flip: log)
  show ?thesis
    using RunRollup_success[OF assms(2) refl refl, of b name] unfolding Let_def l c
    by (cases "?log = []"; cases "b = ?lo") auto
qed

text \<open>C38: A time window given in RFC 3339, the format the API documents and the UI sends,
  loses its first day on SQLite: the texts of the stored buckets of that day have a blank
  where the argument has a \<open>T\<close>, and compare below it, whatever the time of the day.\<close>
theorem rfc3339_since_loses_first_day:
  assumes "sqlite_env env" and "sql_contract env" and "faults s = []"
    and "0 \<le> fst (civil d)" and "fst (civil d) \<le> 9999"
    and "\<forall>r \<in> set (domain_stats s). \<exists>u. st_bucket r = fmt_sqlite u \<and> u div second div 86400 = d"
  shows "AnalyticsSummary env (fmt_date d @ CHR ''T'' # rest) limit s = (Inr [], s)"
proof -
  obtain y m k where "civil d = (y, m, k)" by (metis surj_pair)
  have "\<not> ts_le env (fmt_date d @ CHR ''T'' # rest) (st_bucket r)" if r: "r \<in> set (domain_stats s)" for r
  proof -
    from assms(6) r obtain u where u: "st_bucket r = fmt_sqlite u" "u div second div 86400 = d" by blast
    have "(CHR '' '' :: char) < CHR ''T''" by code_simp
    then have "fmt_sqlite u < fmt_date d @ CHR ''T'' # rest"
      using append_less[of "fmt_date d" "fmt_date d"] by (simp add: fmt_sqlite_def Let_def u(2))
    with assms(1) u(1) show ?thesis by (simp add: sqlite_env_def)
  qed
  then have "filter (\<lambda>r. ts_le env (fmt_date d @ CHR ''T'' # rest) (st_bucket r)) (domain_stats s) = []"
    by (simp add: filter_empty_conv)
  moreover have "ord_count env [] = []"
    using desc_sorts_mset[of snd "ord_count env" "[]"] assms(2) by (simp add: sql_contract_def)
  ultimately show ?thesis using assms(3) by (simp add: AnalyticsSummary_def group_sum_def)
qed

text \<open>A top list holds exact counts and nothing more frequent is left out: each listed
  path comes with the number of its entries in the window, paths are listed once, in
  descending order, as many as the limit allows, and no path outside the list has more
  entries than one inside.\<close>
lemma top_paths_are_top:
  assumes "sql_contract env" and "faults s = []"
    and "AnalyticsDomainPaths env name since limit s = (Inr rs, s')"
  defines "hits p \<equiv> length (filter (\<lambda>r. l_Path (lr_entry r) = p \<and> l_Domain (lr_entry r) = name \<and>
      ts_le env since (lr_created_at r)) (request_log s))"
  shows "s' = s \<and> distinct (map fst rs) \<and> length rs \<le> default_limit limit \<and>
    (\<forall>(p, n) \<in> set rs. n = int (hits p) \<and> 0 < n) \<and>
    (\<forall>p. p \<notin> fst ` set rs \<longrightarrow> 0 < hits p \<longrightarrow>
      length rs = default_limit limit \<and> (\<forall>(q, n) \<in> set rs. int (hits p) \<le> n))"
proof -
  let ?W = "filter (\<lambda>r. l_Domain (lr_entry r) = name \<and> ts_le env since (lr_created_at r)) (request_log s)"
  let ?g = "group_count (l_Path \<circ> lr_entry) ?W"
  let ?o = "ord_count env ?g"
  have ds: "desc_sorts snd (ord_count env)" using assms(1) by (simp add: sql_contract_def)
  have rs: "rs = take (default_limit limit) ?o" "s' = s"
    using assms(2,3) by (auto simp: AnalyticsDomainPaths_def)
  have count: "length (filter (\<lambda>r. (l_Path \<circ> lr_entry) r = p) ?W) = hits p" for p
    unfolding hits_def by (simp add: conj_commute conj_left_commute comp_def)
  have g: "?g = map (\<lambda>p. (p, int (hits p))) (remdups (map (l_Path \<circ> lr_entry) ?W))"
    unfolding group_count_def count ..
  have pos: "p \<in> (l_Path \<circ> lr_entry) ` set ?W \<longleftrightarrow> 0 < hits p" for p
    unfolding count[symmetric] by (auto simp: filter_empty_conv)
  have set_o: "set ?o = {(p, int (hits p)) | p. 0 < hits p}"
    unfolding desc_sorts_set[OF ds] g using pos by (auto simp: image_iff)
  have "distinct (map fst ?g)" unfolding g by (simp add: comp_def)
  then have dist: "distinct (map fst ?o)"
    using mset_eq_imp_distinct_iff[of "map fst ?o" "map fst ?g"] desc_sorts_mset[OF ds, of ?g] by simp
  have split: "?o = rs @ drop (default_limit limit) ?o" by (simp add: rs)
  have "sorted (map (\<lambda>x. Desc (snd x)) ?o)" by (rule desc_sorts_sorted[OF ds])
  then have ord: "snd b \<le> snd a" if "a \<in> set rs" "b \<in> set (drop (default_limit limit) ?o)" for a b
    using that by (subst (asm) split) (auto simp: sorted_append less_eq_desc_def)
  have len: "length rs = default_limit limit" if "drop (default_limit limit) ?o \<noteq> []"
    using that by (simp add: rs)
  have sub: "set rs \<subseteq> set ?o" unfolding rs by (rule set_take_subset)
  have "length rs = default_limit limit \<and> (\<forall>(q, n) \<in> set rs. int (hits p) \<le> n)"
    if "p \<notin> fst ` set rs" "0 < hits p" for p
  proof -
    have "(p, int (hits p)) \<in> set ?o" using that(2) set_o by blast
    then have "(p, int (hits p)) \<in> set rs \<union> set (drop (default_limit limit) ?o)"
      by (subst (asm) split) simp
    with that(1) have p: "(p, int (hits p)) \<in> set (drop (default_limit limit) ?o)" by force
    with len ord[OF _ p] show ?thesis by fastforce
  qed
  moreover have "distinct (map fst rs)" using dist by (simp add: rs take_map[symmetric])
  ultimately show ?thesis using sub set_o rs by auto
qed

definition demo_log_entry :: "string \<Rightarrow> request_log_entry" where
  "demo_log_entry path = \<lparr>l_Domain = ''old.example'', l_Path = path, l_Query = [], l_Status = 301,
     l_TargetURL = ''https://new.example'', l_ClientIP = ''10.0.0.1'', l_UserAgent = [], l_Referer = []\<rparr>"

text \<open>10:20:30 and 10:59:59 on 29 February 2024.\<close>

definition demo_hits :: "(request_log_entry \<times> time) list" where
  "demo_hits = [(demo_log_entry ''/a'', 63844798830 * second), (demo_log_entry ''/b'', 63844801199 * second)]"

definition demo_log_db :: db where
  "demo_log_db = demo_db\<lparr>request_log := logged_at fmt_sqlite demo_hits\<rparr>"

definition demo_pg_log_db :: db where
  "demo_pg_log_db = demo_db\<lparr>request_log := logged_at fmt_rfc3339 demo_hits\<rparr>"

lemma demo_hits_times:
  "four_digit_year (63844798830 * second)" "four_digit_year (63844801199 * second)"
  "four_digit_year (trunc_hour (63844798830 * second))"
  "four_digit_year (trunc_hour (63844798830 * second) + hour)"
  "trunc_hour (63844801199 * second) = trunc_hour (63844798830 * second)"
  by code_simp+

lemma sqlite_reference: "sqlite_env (reference_env DialectSQLite)"
  by (simp add: sqlite_env_def)

lemma RunRollup_Nil:
  assumes "faults s = []"
  shows "\<exists>s'. RunRollup env t s = (Inr (), s')"
proof -
  let ?lo = "TimeFmt (env_dialect env) (trunc_hour t)" and ?hi = "TimeFmt (env_dialect env) (trunc_hour t + hour)"
  have "\<exists>x'. for_each (rollup_row env ?lo ?hi) rows x = (Inr (), x') \<and> faults x' = []"
    if "faults x = []" for rows x
    using that
  proof (induction rows arbitrary: x)
    case (Cons row rows)
    obtain n h i where "row = (n, h, i)" by (cases row)
    with Cons.prems have "\<exists>y. rollup_row env ?lo ?hi row x = (Inr (), y) \<and> faults y = []"
      by (simp add: rollup_row_def getTopPaths_def getTopReferers_def query_or_empty_def sql_upsert_stat_def)
    with Cons.IH show ?case by (auto simp: bindE_def)
  qed simp
  from this[OF assms, of "rollup_rows env ?lo ?hi s"] obtain x'
    where "for_each (rollup_row env ?lo ?hi) (rollup_rows env ?lo ?hi s) s = (Inr (), x')" "faults x' = []"
    by blast
  with transaction_Nil[where body = "for_each (rollup_row env ?lo ?hi) (rollup_rows env ?lo ?hi s)",
      OF assms] assms show ?thesis
    by (simp add: RunRollup_def Let_def bindE_def)
qed

text \<open>On both databases: two entries from one client in the hour.\<close>

theorem rollup_counts_the_hour_witness:
  "(\<exists>s'. RunRollup (reference_env DialectSQLite) (63844798830 * second) demo_log_db = (Inr (), s') \<and>
     stat_counts s' (''old.example'', fmt_sqlite (trunc_hour (63844798830 * second))) = Some (2, 1)) \<and>
   (\<exists>s'. RunRollup (reference_env DialectPostgres) (63844798830 * second) demo_pg_log_db = (Inr (), s') \<and>
     stat_counts s' (''old.example'', fmt_rfc3339 (trunc_hour (63844798830 * second))) = Some (2, 1))"
proof -
  let ?t = "63844798830 * second"
  have nf: "faults demo_log_db = []" "faults demo_pg_log_db = []"
    by (simp_all add: demo_log_db_def demo_pg_log_db_def)
  then have nc: "nocut demo_log_db" "nocut demo_pg_log_db" by (simp_all add: nocut_def)
  have log: "request_log demo_log_db = logged_at fmt_sqlite demo_hits"
    "request_log demo_pg_log_db = logged_at fmt_rfc3339 demo_hits"
    by (simp_all add: demo_log_db_def demo_pg_log_db_def)
  have years: "\<forall>(e, c) \<in> set demo_hits. four_digit_year c" using demo_hits_times by (simp add: demo_hits_def)
  obtain s1 s2 where r: "RunRollup (reference_env DialectSQLite) ?t demo_log_db = (Inr (), s1)"
    "RunRollup (reference_env DialectPostgres) ?t demo_pg_log_db = (Inr (), s2)"
    using RunRollup_Nil[OF nf(1)] RunRollup_Nil[OF nf(2)] by blast
  have h: "hits_in_hour ''old.example'' ?t demo_hits = [demo_log_entry ''/a'', demo_log_entry ''/b'']"
    using demo_hits_times(5) by (simp add: hits_in_hour_def demo_hits_def demo_log_entry_def)
  have ips: "card (l_ClientIP ` {demo_log_entry ''/a'', demo_log_entry ''/b''}) = 1"
    by (simp add: demo_log_entry_def)
  from rollup_counts_the_hour[OF sqlite_compares[OF sqlite_reference] r(1) log(1) years demo_hits_times(3,4),
      of "''old.example''" "fmt_sqlite (trunc_hour ?t)"] h nc ips
  have "stat_counts s1 (''old.example'', fmt_sqlite (trunc_hour ?t)) = Some (2, 1)"
    by (simp add: Let_def TimeFmt_def)
  moreover from rollup_counts_the_hour[OF postgres_compares r(2) log(2) years demo_hits_times(3,4),
      of "''old.example''" "fmt_rfc3339 (trunc_hour ?t)"] h nc ips
  have "stat_counts s2 (''old.example'', fmt_rfc3339 (trunc_hour ?t)) = Some (2, 1)"
    by (simp add: Let_def TimeFmt_def)
  ultimately show ?thesis using r by blast
qed

theorem rfc3339_since_loses_first_day_witness:
  "AnalyticsSummary (reference_env DialectSQLite) (fmt_date 738944 @ ''T00:00:00Z'') 0
     (demo_db\<lparr>domain_stats := [\<lparr>st_domain = ''old.example'', st_bucket = fmt_sqlite (63844798830 * second),
        st_hit_count = 7, st_unique_ips = 1, st_top_paths = [], st_top_referers = []\<rparr>]\<rparr>)
   = (Inr [], demo_db\<lparr>domain_stats := [\<lparr>st_domain = ''old.example'', st_bucket = fmt_sqlite (63844798830 * second),
        st_hit_count = 7, st_unique_ips = 1, st_top_paths = [], st_top_referers = []\<rparr>]\<rparr>)"
proof (rule rfc3339_since_loses_first_day[OF sqlite_reference reference_env_contract])
  show "0 \<le> fst (civil 738944)" "fst (civil 738944) \<le> 9999" by code_simp+
qed (auto simp: second_def intro!: exI[of _ "63844798830 * second"])

theorem top_paths_are_top_witness:
  "\<exists>rs. AnalyticsDomainPaths (reference_env DialectSQLite) ''old.example'' [] 1 demo_log_db = (Inr rs, demo_log_db) \<and>
    distinct (map fst rs) \<and> length rs \<le> 1"
proof -
  have nf: "faults demo_log_db = []" by (simp add: demo_log_db_def)
  obtain rs where r: "AnalyticsDomainPaths (reference_env DialectSQLite) ''old.example'' [] 1 demo_log_db
      = (Inr rs, demo_log_db)"
    using nf by (simp add: AnalyticsDomainPaths_def)
  from top_paths_are_top[OF reference_env_contract nf r] r show ?thesis by (simp add: default_limit_def)
qed

end
