(* ===== verification/Api_Analytics_Props.thy ===== *)
theory Api_Analytics_Props
  imports Api_Props Store_Logs_Props
begin

text \<open>
  The analytics reports as the API answers them.
\<close>

section \<open>The exported text\<close>

text \<open>What a column of the export is called and what it holds of a logged request.\<close>

definition named_columns :: "log_row \<Rightarrow> (string \<times> string) list" where
  "named_columns row =
     (let e = lr_entry row in
      [(''client_ip'', l_ClientIP e), (''created_at'', lr_created_at row), (''domain'', l_Domain e),
       (''path'', l_Path e), (''query'', l_Query e), (''referer'', l_Referer e),
       (''status_code'', int_dec (l_Status e)), (''target_url'', l_TargetURL e),
       (''user_agent'', l_UserAgent e)])"

text \<open>C12: whatever bytes the logged requests held (commas, quotes and line breaks included),
  a reader of RFC 4180 gets from the CSV export a header of distinct names and one record per
  exported row, in order and of the length of the header; and what a record has under the
  name of a column is the value that the logged request has for that name.\<close>
theorem csv_export_round_trip:
  assumes "ar_Query r ''format'' = ''csv''"
    and "AnalyticsExport env (since_or 7 env r) s = (Inr rows, s')"
  shows "\<exists>resp header records. analyticsExport env r s = (resp, s') \<and> rs_Status resp = 200 \<and>
    csv_parse (rs_Body resp) = header # records \<and> distinct header \<and>
    list_all2 (\<lambda>record row. length record = length header \<and>
      map_of (zip header record) = map_of (named_columns row)) records rows"
proof -
  have "[] \<notin> set (export_headers # map export_record rows)"
    by (auto simp: export_headers_def export_record_def Let_def)
  note parsed = csv_round_trip[OF this]
  have "map_of (zip export_headers (export_record row)) = map_of (named_columns row)" for row
    by (rule ext) (simp add: export_headers_def export_record_def named_columns_def Let_def)
  then have "list_all2 (\<lambda>record row. length record = length export_headers \<and>
      map_of (zip export_headers record) = map_of (named_columns row)) (map export_record rows) rows"
    by (simp add: list_all2_map1 list_all2_same export_headers_def export_record_def Let_def)
  moreover have "distinct export_headers" by (simp add: export_headers_def)
  ultimately show ?thesis
    using parsed assms by (simp add: analyticsExport_def answer_rows_def csv_response_def)
qed

text \<open>A logged path that holds a quote, a comma and a line break.\<close>

definition demo_export :: db where
  "demo_export = demo_log_db\<lparr>request_log :=
     [\<lparr>lr_entry = demo_log_entry ([CHR 0x22] @ '',/x'' @ [CHR 0x0A]), lr_created_at = ''2024-02-29 12:00:30''\<rparr>]\<rparr>"

definition demo_export_call :: api_request where
  "demo_export_call = (demo_call ''GET'' [''analytics'', ''export''] [])
     \<lparr>ar_Query := (\<lambda>k. if k = ''format'' then ''csv'' else if k = ''since'' then ''2024-02-29 00:00:00'' else [])\<rparr>"

theorem csv_export_round_trip_witness:
  "\<exists>resp header record. analyticsExport (reference_env DialectSQLite) demo_export_call demo_export
      = (resp, demo_export) \<and> csv_parse (rs_Body resp) = [header, record] \<and>
    map_of (zip header record) ''path'' = Some ([CHR 0x22] @ '',/x'' @ [CHR 0x0A])"
proof -
  let ?env = "reference_env DialectSQLite"
  have nf: "faults demo_export = []" by (simp add: demo_export_def demo_log_db_def)
  have f: "ar_Query demo_export_call ''format'' = ''csv''" by (simp add: demo_export_call_def)
  obtain row where row: "request_log demo_export = [row]"
    "l_Path (lr_entry row) = [CHR 0x22] @ '',/x'' @ [CHR 0x0A]" "lr_created_at row = ''2024-02-29 12:00:30''"
    by (simp add: demo_export_def demo_log_entry_def)
  have q: "AnalyticsExport ?env (since_or 7 ?env demo_export_call) demo_export = (Inr [row], demo_export)"
  proof -
    have "''2024-02-29 00:00:00'' \<le> (''2024-02-29 12:00:30'' :: string)" by code_simp
    with row(1,3) nf show ?thesis
      by (simp add: AnalyticsExport_def since_or_def demo_export_call_def Let_def reference_env_def)
  qed
  from csv_export_round_trip[OF f q] obtain resp header fields where
    "analyticsExport ?env demo_export_call demo_export = (resp, demo_export)"
    "csv_parse (rs_Body resp) = [header, fields]"
    "map_of (zip header fields) = map_of (named_columns row)"
    by (auto simp: list_all2_Cons2)
  with row show ?thesis by (auto simp: named_columns_def Let_def)
qed

end
