(* ===== verification/Pg_Storage.thy ===== *)
theory Pg_Storage
  imports Store_Query Json_Text "HOL-Library.Word"
begin

text \<open>
  \<open>internal/certs/pg_storage.go\<close>: the certificate storage in the table \<open>cert_store\<close>, its
  advisory locks, and the interface a key-value storage offers to its client.
\<close>

section \<open>The table\<close>

record cert_row =
  cr_key :: string
  cr_value :: string
  cr_updated_at :: timestamp

text \<open>As for the other tables, the environment decides which statements fail.\<close>

record cert_db =
  cert_store :: "cert_row list"
  cert_now :: timestamp
  cert_faults :: "fault list"

text \<open>\<open>fs.ErrNotExist\<close>, or an error of the database.\<close>

datatype storage_error = ErrNotExist | DbError go_error

definition next_cert_fault :: "cert_db \<Rightarrow> fault \<times> cert_db" where
  "next_cert_fault s =
     (case cert_faults s of [] \<Rightarrow> (NoFault, s) | f # fs \<Rightarrow> (f, s\<lparr>cert_faults := fs\<rparr>))"

definition pg_exec :: "(cert_db \<Rightarrow> cert_db) \<Rightarrow> cert_db \<Rightarrow> storage_error option \<times> cert_db" where
  "pg_exec st s =
     (case next_cert_fault s of
        (NoFault, s') \<Rightarrow> (None, st s')
      | (Fail m, s') \<Rightarrow> (Some (DbError (ErrMsg m)), s')
      | (Cut n m, s') \<Rightarrow> (Some (DbError (ErrMsg m)), s'))"

definition pg_row :: "(cert_db \<Rightarrow> 'r option) \<Rightarrow> cert_db \<Rightarrow> (go_error + 'r) \<times> cert_db" where
  "pg_row row s =
     (case next_cert_fault s of
        (NoFault, s') \<Rightarrow> ((case row s' of None \<Rightarrow> Inl ErrNoRows | Some r \<Rightarrow> Inr r), s')
      | (Fail m, s') \<Rightarrow> (Inl (ErrMsg m), s')
      | (Cut n m, s') \<Rightarrow> (Inl (ErrMsg m), s'))"

definition find_cert :: "string \<Rightarrow> cert_db \<Rightarrow> cert_row option" where
  "find_cert key s = List.find (\<lambda>r. cr_key r = key) (cert_store s)"

section \<open>The operations\<close>

definition sql_put_cert :: "string \<Rightarrow> string \<Rightarrow> cert_db \<Rightarrow> cert_db" where
  "sql_put_cert key val s =
     s\<lparr>cert_store :=
         (if find_cert key s = None
          then cert_store s @ [\<lparr>cr_key = key, cr_value = val, cr_updated_at = cert_now s\<rparr>]
          else map (\<lambda>r. if cr_key r = key then r\<lparr>cr_value := val, cr_updated_at := cert_now s\<rparr>
                        else r) (cert_store s))\<rparr>"

definition Store :: "string \<Rightarrow> string \<Rightarrow> cert_db \<Rightarrow> storage_error option \<times> cert_db" where
  "Store key val = pg_exec (sql_put_cert key val)"

definition Load :: "string \<Rightarrow> cert_db \<Rightarrow> (storage_error + string) \<times> cert_db" where
  "Load key s =
     (case pg_row (find_cert key) s of
        (Inl e, s') \<Rightarrow> (Inl (if e = ErrNoRows then ErrNotExist else DbError e), s')
      | (Inr r, s') \<Rightarrow> (Inr (cr_value r), s'))"

definition Delete :: "string \<Rightarrow> cert_db \<Rightarrow> storage_error option \<times> cert_db" where
  "Delete key = pg_exec (\<lambda>s. s\<lparr>cert_store := filter (\<lambda>r. cr_key r \<noteq> key) (cert_store s)\<rparr>)"

definition Exists :: "string \<Rightarrow> cert_db \<Rightarrow> bool \<times> cert_db" where
  "Exists key s = (case pg_row (find_cert key) s of (r, s') \<Rightarrow> (\<not> isl r, s'))"

record key_info =
  ki_Key :: string
  ki_Modified :: timestamp
  ki_Size :: int
  ki_IsTerminal :: bool

definition Stat :: "string \<Rightarrow> cert_db \<Rightarrow> (storage_error + key_info) \<times> cert_db" where
  "Stat key s =
     (case pg_row (find_cert key) s of
        (Inl e, s') \<Rightarrow> (Inl (if e = ErrNoRows then ErrNotExist else DbError e), s')
      | (Inr r, s') \<Rightarrow>
          (Inr \<lparr>ki_Key = key, ki_Modified = cr_updated_at r, ki_Size = int (length (cr_value r)),
                ki_IsTerminal = \<not> has_suffix key ''/''\<rparr>, s'))"

text \<open>The body of the loop of \<open>List\<close>, on the keys gathered so far.\<close>

definition list_key :: "string \<Rightarrow> bool \<Rightarrow> string list \<Rightarrow> string \<Rightarrow> string list" where
  "list_key pre recursive keys key =
     (if recursive then keys @ [key]
      else
        (let suf = trim_prefix key pre in
         case index_byte (CHR ''/'') suf of
           None \<Rightarrow> keys @ [key]
         | Some i \<Rightarrow>
             (let dir = pre @ take (Suc i) suf in
              if keys = [] \<or> last keys \<noteq> dir then keys @ [dir] else keys)))"

definition cert_keys_like :: "sqlenv \<Rightarrow> string \<Rightarrow> cert_db \<Rightarrow> string list" where
  "cert_keys_like env pre s =
     sort_rel (collate env)
       (filter (\<lambda>k. like DialectPostgres (pre @ ''%'') k) (map cr_key (cert_store s)))"

text \<open>With the rows read so far and \<open>rows.Err()\<close>.\<close>

definition ListKeys ::
  "sqlenv \<Rightarrow> string \<Rightarrow> bool \<Rightarrow> cert_db \<Rightarrow> (string list \<times> storage_error option) \<times> cert_db" where
  "ListKeys env pre recursive s =
     (case next_cert_fault s of
        (NoFault, s') \<Rightarrow>
          ((foldl (list_key pre recursive) [] (cert_keys_like env pre s'), None), s')
      | (Fail m, s') \<Rightarrow> (([], Some (DbError (ErrMsg m))), s')
      | (Cut n m, s') \<Rightarrow>
          ((foldl (list_key pre recursive) [] (take n (cert_keys_like env pre s')),
            Some (DbError (ErrMsg m))), s'))"

section \<open>Lock keys\<close>

definition lock_hash :: "nat list \<Rightarrow> 64 word" where
  "lock_hash cs = foldl (\<lambda>h c. h * 31 + word_of_nat c) 0 cs"

definition lockKey :: "string \<Rightarrow> 64 word" where
  "lockKey name =
     (let h = lock_hash (map rune_value (runes name)) in if sint h < 0 then - h else h)"

text \<open>
  Advisory locks belong to a session. \<open>ExecContext\<close> runs on whichever connection the pool
  hands out, which is the argument \<open>c\<close> here; the database is a parameter.
\<close>

record 'l advisory =
  adv_lock :: "nat \<Rightarrow> 64 word \<Rightarrow> 'l \<Rightarrow> 'l option"
  adv_unlock :: "nat \<Rightarrow> 64 word \<Rightarrow> 'l \<Rightarrow> 'l"

definition Lock :: "'l advisory \<Rightarrow> nat \<Rightarrow> string \<Rightarrow> 'l \<Rightarrow> 'l option" where
  "Lock adv c name = adv_lock adv c (lockKey name)"

definition Unlock :: "'l advisory \<Rightarrow> nat \<Rightarrow> string \<Rightarrow> 'l \<Rightarrow> 'l" where
  "Unlock adv c name = adv_unlock adv c (lockKey name)"

text \<open>
  The documented behaviour of PostgreSQL: a lock is held by one session, which may take it
  again and must release it as often; a request of another session waits (\<open>None\<close>); a release
  by a session that does not hold the lock only warns.
\<close>

definition advisory_contract ::
  "'l advisory \<Rightarrow> ('l \<Rightarrow> 64 word \<Rightarrow> (nat \<times> nat) option) \<Rightarrow> bool" where
  "advisory_contract adv holder \<longleftrightarrow>
     (\<forall>c k l. holder l k = None \<longrightarrow>
        (\<exists>l'. adv_lock adv c k l = Some l' \<and> holder l' = (holder l)(k \<mapsto> (c, 1)))) \<and>
     (\<forall>c k l n. holder l k = Some (c, n) \<longrightarrow>
        (\<exists>l'. adv_lock adv c k l = Some l' \<and> holder l' = (holder l)(k \<mapsto> (c, Suc n)))) \<and>
     (\<forall>c k l d n. holder l k = Some (d, n) \<and> d \<noteq> c \<longrightarrow>
        adv_lock adv c k l = None \<and> holder (adv_unlock adv c k l) = holder l) \<and>
     (\<forall>c k l. holder l k = None \<longrightarrow> holder (adv_unlock adv c k l) = holder l) \<and>
     (\<forall>c k l. holder l k = Some (c, 1) \<longrightarrow>
        holder (adv_unlock adv c k l) = (holder l)(k := None)) \<and>
     (\<forall>c k l n. 0 < n \<and> holder l k = Some (c, Suc n) \<longrightarrow>
        holder (adv_unlock adv c k l) = (holder l)(k \<mapsto> (c, n)))"

definition ref_advisory :: "(64 word \<Rightarrow> (nat \<times> nat) option) advisory" where
  "ref_advisory =
     \<lparr>adv_lock = (\<lambda>c k l. case l k of None \<Rightarrow> Some (l(k \<mapsto> (c, 1)))
        | Some (d, n) \<Rightarrow> if d = c then Some (l(k \<mapsto> (c, Suc n))) else None),
      adv_unlock = (\<lambda>c k l. case l k of None \<Rightarrow> l
        | Some (d, n) \<Rightarrow> if d \<noteq> c then l else if n \<le> 1 then l(k := None) else l(k \<mapsto> (c, n - 1)))\<rparr>"

lemma ref_advisory_contract: "advisory_contract ref_advisory (\<lambda>l. l)"
  by (auto simp: advisory_contract_def ref_advisory_def)

section \<open>The table as a map\<close>

definition cert_wf :: "cert_db \<Rightarrow> bool" where
  "cert_wf s \<longleftrightarrow> distinct (map cr_key (cert_store s))"

definition kv :: "cert_db \<Rightarrow> string \<rightharpoonup> string" where
  "kv s k = map_option cr_value (find_cert k s)"

lemma next_cert_fault_sel:
  assumes "next_cert_fault s = (f, s')"
  shows "cert_store s' = cert_store s" and "kv s' = kv s" and "cert_wf s' = cert_wf s"
  using assms
  by (auto simp: next_cert_fault_def kv_def[abs_def] find_cert_def cert_wf_def split: list.splits)

lemma next_cert_fault_Nil [simp]: "cert_faults s = [] \<Longrightarrow> next_cert_fault s = (NoFault, s)"
  by (simp add: next_cert_fault_def)

text \<open>An \<open>Exec\<close> either runs its statement and succeeds, or fails and changes nothing.\<close>

lemma pg_exec_cases:
  assumes "pg_exec st s = (r, s')"
  obtains (ok) s1 where "r = None" "s' = st s1" "cert_store s1 = cert_store s"
  | (failed) e where "r = Some (DbError e)" "cert_store s' = cert_store s"
proof -
  obtain f s1 where f: "next_cert_fault s = (f, s1)" by fastforce
  note same = next_cert_fault_sel(1)[OF f]
  show thesis
  proof (cases f)
    case NoFault
    with f same assms show ?thesis by (intro ok[of s1]) (simp_all add: pg_exec_def)
  next
    case (Fail m)
    with f same assms show ?thesis by (intro failed[of "ErrMsg m"]) (simp_all add: pg_exec_def)
  next
    case (Cut n m)
    with f same assms show ?thesis by (intro failed[of "ErrMsg m"]) (simp_all add: pg_exec_def)
  qed
qed

lemma pg_row_cases:
  assumes "pg_row row s = (r, s')"
  obtains (row) x where "r = Inr x" "row s' = Some x" "cert_store s' = cert_store s"
  | (none) "r = Inl ErrNoRows" "row s' = None" "cert_store s' = cert_store s"
  | (failed) m where "r = Inl (ErrMsg m)" "cert_store s' = cert_store s"
proof -
  obtain f s1 where f: "next_cert_fault s = (f, s1)" by fastforce
  note same = next_cert_fault_sel(1)[OF f]
  show thesis
  proof (cases f)
    case NoFault
    show ?thesis
    proof (cases "row s1")
      case None
      with NoFault f same assms show ?thesis by (intro none) (simp_all add: pg_row_def)
    next
      case (Some x)
      with NoFault f same assms show ?thesis by (intro row[of x]) (simp_all add: pg_row_def)
    qed
  next
    case (Fail m)
    with f same assms show ?thesis by (intro failed[of m]) (simp_all add: pg_row_def)
  next
    case (Cut n m)
    with f same assms show ?thesis by (intro failed[of m]) (simp_all add: pg_row_def)
  qed
qed

lemma cert_store_determines:
  assumes "cert_store s' = cert_store s"
  shows "kv s' = kv s" and "cert_wf s' = cert_wf s" and "find_cert k s' = find_cert k s"
  using assms by (auto simp: kv_def[abs_def] find_cert_def cert_wf_def)

lemma find_map_same_key:
  "List.find (\<lambda>r. cr_key r = k) (map (\<lambda>r. if cr_key r = key then f r else r) rs) =
   map_option (\<lambda>r. if cr_key r = key then f r else r) (List.find (\<lambda>r. cr_key r = k) rs)"
  if "\<And>r. cr_key (f r) = cr_key r"
  using that by (induction rs) auto

lemma kv_put: "kv (sql_put_cert key val s) = (kv s)(key \<mapsto> val)"
proof (rule ext)
  fix k
  let ?rs = "cert_store s" and ?find = "List.find (\<lambda>r. cr_key r = k)"
  let ?set = "\<lambda>r. r\<lparr>cr_value := val, cr_updated_at := cert_now s\<rparr>"
  show "kv (sql_put_cert key val s) k = ((kv s)(key \<mapsto> val)) k"
  proof (cases "find_cert key s")
    case None
    then have "List.find (\<lambda>r. cr_key r = key) ?rs = None" by (simp add: find_cert_def)
    with None show ?thesis
      by (cases "k = key"; cases "?find ?rs")
        (simp_all add: kv_def sql_put_cert_def find_cert_def find_append)
  next
    case (Some r)
    have "find_cert k (sql_put_cert key val s)
        = map_option (\<lambda>r. if cr_key r = key then ?set r else r) (find_cert k s)"
      using Some find_map_same_key[of ?set k key ?rs] by (simp add: sql_put_cert_def find_cert_def)
    moreover have "cr_key x = k" if "find_cert k s = Some x" for x
      using find_Some_D[OF that[unfolded find_cert_def]] by simp
    ultimately show ?thesis using Some
      by (cases "k = key"; cases "find_cert k s") (simp_all add: kv_def)
  qed
qed

lemma wf_put:
  assumes "cert_wf s"
  shows "cert_wf (sql_put_cert key val s)"
proof (cases "find_cert key s")
  case None
  then have "key \<notin> cr_key ` set (cert_store s)" by (auto simp: find_cert_def find_None_iff)
  with None assms show ?thesis by (simp add: cert_wf_def sql_put_cert_def)
next
  case (Some r)
  have "map cr_key (map (\<lambda>r. if cr_key r = key then r\<lparr>cr_value := val, cr_updated_at := cert_now s\<rparr>
      else r) rs) = map cr_key rs" for rs :: "cert_row list"
    by (induction rs) auto
  with Some assms show ?thesis by (simp add: cert_wf_def sql_put_cert_def del: map_map)
qed

lemma kv_delete:
  "kv (s\<lparr>cert_store := filter (\<lambda>r. cr_key r \<noteq> key) (cert_store s)\<rparr>) = (kv s)(key := None)"
proof (rule ext)
  fix k
  have "List.find (\<lambda>r. cr_key r = k) (filter (\<lambda>r. cr_key r \<noteq> key) rs) =
      (if k = key then None else List.find (\<lambda>r. cr_key r = k) rs)" for rs
    by (induction rs) auto
  note del = this[of "cert_store s"]
  show "kv (s\<lparr>cert_store := filter (\<lambda>r. cr_key r \<noteq> key) (cert_store s)\<rparr>) k = ((kv s)(key := None)) k"
    unfolding kv_def find_cert_def using del by (cases "k = key") (simp_all del: fun_upd_apply add: fun_upd_apply)
qed

end
