(* ===== verification/Pg_Storage_Props.thy ===== *)
theory Pg_Storage_Props
  imports Pg_Storage
begin

text \<open>
  The certificate storage refines a map from keys to values, also when statements fail, and
  what its listing of a directory holds.
\<close>

section \<open>A key-value storage, abstractly\<close>

datatype ('k, 'v) kv_op = StoreOp 'k 'v | LoadOp 'k | DeleteOp 'k | ExistsOp 'k

datatype 'v kv_res = Done | Value 'v | Absent | Found bool | Failed

fun kv_exec :: "('k, 'v) kv_op \<Rightarrow> ('k \<rightharpoonup> 'v) \<Rightarrow> 'v kv_res \<times> ('k \<rightharpoonup> 'v)" where
  "kv_exec (StoreOp k v) m = (Done, m(k \<mapsto> v))"
| "kv_exec (LoadOp k) m = ((case m k of None \<Rightarrow> Absent | Some v \<Rightarrow> Value v), m)"
| "kv_exec (DeleteOp k) m = (Done, m(k := None))"
| "kv_exec (ExistsOp k) m = (Found (m k \<noteq> None), m)"

fun kv_all :: "('k, 'v) kv_op list \<Rightarrow> ('k \<rightharpoonup> 'v) \<Rightarrow> 'v kv_res list \<times> ('k \<rightharpoonup> 'v)" where
  "kv_all [] m = ([], m)"
| "kv_all (x # xs) m =
     (case kv_exec x m of (r, m1) \<Rightarrow> (case kv_all xs m1 of (rs, m2) \<Rightarrow> (r # rs, m2)))"

text \<open>What a failing call reports: \<open>Exists\<close> has no error result and says no.\<close>

fun fail_res :: "('k, 'v) kv_op \<Rightarrow> 'v kv_res" where
  "fail_res (ExistsOp k) = Found False"
| "fail_res _ = Failed"

text \<open>A run in which any call may fail, and a failed call changes nothing.\<close>

inductive kv_run ::
  "('k, 'v) kv_op list \<Rightarrow> ('k \<rightharpoonup> 'v) \<Rightarrow> 'v kv_res list \<Rightarrow> ('k \<rightharpoonup> 'v) \<Rightarrow> bool" where
  finished: "kv_run [] m [] m"
| succeeds: "kv_exec x m = (r, m1) \<Longrightarrow> kv_run xs m1 rs m2 \<Longrightarrow> kv_run (x # xs) m (r # rs) m2"
| fails: "kv_run xs m rs m2 \<Longrightarrow> kv_run (x # xs) m (fail_res x # rs) m2"

inductive_cases kv_run_ConsE: "kv_run (x # xs) m rs m2"

text \<open>The calls of a client on a storage given by its four operations.\<close>

fun kv_call ::
  "('k \<Rightarrow> 'v \<Rightarrow> 's \<Rightarrow> 'e option \<times> 's) \<Rightarrow> ('k \<Rightarrow> 's \<Rightarrow> ('e + 'v) \<times> 's) \<Rightarrow> ('k \<Rightarrow> 's \<Rightarrow> 'e option \<times> 's) \<Rightarrow>
   ('k \<Rightarrow> 's \<Rightarrow> bool \<times> 's) \<Rightarrow> 'e \<Rightarrow> ('k, 'v) kv_op \<Rightarrow> 's \<Rightarrow> 'v kv_res \<times> 's" where
  "kv_call put get del has absent (StoreOp k v) s =
     (case put k v s of (r, s') \<Rightarrow> (if r = None then Done else Failed, s'))"
| "kv_call put get del has absent (LoadOp k) s =
     (case get k s of (r, s') \<Rightarrow>
        ((case r of Inl e \<Rightarrow> if e = absent then Absent else Failed | Inr v \<Rightarrow> Value v), s'))"
| "kv_call put get del has absent (DeleteOp k) s =
     (case del k s of (r, s') \<Rightarrow> (if r = None then Done else Failed, s'))"
| "kv_call put get del has absent (ExistsOp k) s =
     (case has k s of (b, s') \<Rightarrow> (Found b, s'))"

fun kv_calls :: "(('k, 'v) kv_op \<Rightarrow> 's \<Rightarrow> 'v kv_res \<times> 's) \<Rightarrow> ('k, 'v) kv_op list \<Rightarrow> 's \<Rightarrow>
    'v kv_res list \<times> 's" where
  "kv_calls call [] s = ([], s)"
| "kv_calls call (x # xs) s =
     (case call x s of (r, s1) \<Rightarrow> (case kv_calls call xs s1 of (rs, s2) \<Rightarrow> (r # rs, s2)))"

locale kv_storage =
  fixes put :: "'k \<Rightarrow> 'v \<Rightarrow> 's \<Rightarrow> 'e option \<times> 's"
    and get :: "'k \<Rightarrow> 's \<Rightarrow> ('e + 'v) \<times> 's"
    and del :: "'k \<Rightarrow> 's \<Rightarrow> 'e option \<times> 's"
    and has :: "'k \<Rightarrow> 's \<Rightarrow> bool \<times> 's"
    and absent :: 'e
    and ok :: "'s \<Rightarrow> bool"
    and calm :: "'s \<Rightarrow> bool"
    and contents :: "'s \<Rightarrow> 'k \<rightharpoonup> 'v"
  assumes put_law: "ok s \<Longrightarrow> put k v s = (r, s') \<Longrightarrow>
      ok s' \<and> contents s' = (if r = None then (contents s)(k \<mapsto> v) else contents s) \<and>
      (calm s \<longrightarrow> calm s' \<and> r = None)"
    and get_law: "ok s \<Longrightarrow> get k s = (g, s') \<Longrightarrow>
      ok s' \<and> contents s' = contents s \<and> (\<forall>v. g = Inr v \<longrightarrow> contents s k = Some v) \<and>
      (g = Inl absent \<longrightarrow> contents s k = None) \<and>
      (calm s \<longrightarrow> calm s' \<and> (\<forall>e. g = Inl e \<longrightarrow> e = absent))"
    and del_law: "ok s \<Longrightarrow> del k s = (r, s') \<Longrightarrow>
      ok s' \<and> contents s' = (if r = None then (contents s)(k := None) else contents s) \<and>
      (calm s \<longrightarrow> calm s' \<and> r = None)"
    and has_law: "ok s \<Longrightarrow> has k s = (b, s') \<Longrightarrow>
      ok s' \<and> contents s' = contents s \<and> (b \<longrightarrow> contents s k \<noteq> None) \<and>
      (calm s \<longrightarrow> calm s' \<and> b = (contents s k \<noteq> None))"
begin

lemma call_refines:
  assumes ok: "ok s" and c: "kv_call put get del has absent x s = (r, s')"
  shows "ok s' \<and> (kv_exec x (contents s) = (r, contents s') \<or>
      r = fail_res x \<and> contents s' = contents s) \<and>
    (calm s \<longrightarrow> calm s' \<and> kv_exec x (contents s) = (r, contents s'))"
proof (cases x)
  case (StoreOp k v)
  obtain a t where "put k v s = (a, t)" by fastforce
  with c StoreOp put_law[OF ok this] show ?thesis by auto
next
  case (LoadOp k)
  obtain g t where g: "get k s = (g, t)" by fastforce
  note law = get_law[OF ok g]
  show ?thesis
  proof (cases g)
    case (Inl e)
    with c LoadOp g law show ?thesis by (cases "e = absent") auto
  next
    case (Inr v)
    with c LoadOp g law show ?thesis by auto
  qed
next
  case (DeleteOp k)
  obtain a t where "del k s = (a, t)" by fastforce
  with c DeleteOp del_law[OF ok this] show ?thesis by auto
next
  case (ExistsOp k)
  obtain b t where "has k s = (b, t)" by fastforce
  with c ExistsOp has_law[OF ok this] show ?thesis by auto
qed

lemma calls_refine:
  assumes "ok s" and "kv_calls (kv_call put get del has absent) xs s = (rs, s')"
  shows "ok s' \<and> kv_run xs (contents s) rs (contents s') \<and>
    (calm s \<longrightarrow> kv_all xs (contents s) = (rs, contents s'))"
  using assms
proof (induction xs arbitrary: s rs s')
  case Nil
  then show ?case by (auto intro: kv_run.finished)
next
  case (Cons x xs)
  obtain r s1 where c: "kv_call put get del has absent x s = (r, s1)" by fastforce
  obtain rs' s2 where cs: "kv_calls (kv_call put get del has absent) xs s1 = (rs', s2)" by fastforce
  note one = call_refines[OF Cons.prems(1) c]
  with Cons.IH[OF _ cs] Cons.prems(2) c cs
  have rest: "ok s'" "kv_run xs (contents s1) rs' (contents s')" "rs = r # rs'"
    "calm s1 \<longrightarrow> kv_all xs (contents s1) = (rs', contents s')" by auto
  from one rest have "kv_run (x # xs) (contents s) rs (contents s')"
    by (metis kv_run.succeeds kv_run.fails)
  with one rest show ?case by auto
qed

end

text \<open>The table meets the interface.\<close>

lemma calm_exec: "cert_faults s = [] \<Longrightarrow> pg_exec st s = (None, st s)"
  by (simp add: pg_exec_def)

lemma calm_row: "cert_faults s = [] \<Longrightarrow>
  pg_row row s = ((case row s of None \<Rightarrow> Inl ErrNoRows | Some r \<Rightarrow> Inr r), s)"
  by (simp add: pg_row_def)

interpretation pg: kv_storage Store Load Delete Exists ErrNotExist cert_wf
  "\<lambda>s. cert_faults s = []" kv
proof unfold_locales
  fix s s' :: cert_db and k v :: string and r
  assume wf: "cert_wf s" and e: "Store k v s = (r, s')"
  have "cert_faults (sql_put_cert k v s) = cert_faults s" by (simp add: sql_put_cert_def)
  with e have calm: "cert_faults s = [] \<longrightarrow> cert_faults s' = [] \<and> r = None"
    by (auto simp: Store_def calm_exec)
  from e show "cert_wf s' \<and> kv s' = (if r = None then (kv s)(k \<mapsto> v) else kv s) \<and>
      (cert_faults s = [] \<longrightarrow> cert_faults s' = [] \<and> r = None)"
    unfolding Store_def
  proof (cases rule: pg_exec_cases)
    case (ok s1)
    with cert_store_determines[OF ok(3)] wf calm show ?thesis by (simp add: kv_put wf_put)
  next
    case (failed e)
    with cert_store_determines[OF failed(2)] wf calm show ?thesis by simp
  qed
next
  fix s s' :: cert_db and k :: string and g
  assume wf: "cert_wf s" and e: "Load k s = (g, s')"
  obtain r s1 where row: "pg_row (find_cert k) s = (r, s1)" by fastforce
  note pr = row
  with e have s1: "s' = s1" by (auto simp: Load_def split: sum.splits)
  have calm: "cert_faults s = [] \<longrightarrow> cert_faults s1 = []" using row by (auto simp: calm_row)
  from row show "cert_wf s' \<and> kv s' = kv s \<and> (\<forall>v. g = Inr v \<longrightarrow> kv s k = Some v) \<and>
      (g = Inl ErrNotExist \<longrightarrow> kv s k = None) \<and>
      (cert_faults s = [] \<longrightarrow> cert_faults s' = [] \<and> (\<forall>e. g = Inl e \<longrightarrow> e = ErrNotExist))"
  proof (cases rule: pg_row_cases)
    case (row x)
    with e pr s1 calm wf cert_store_determines[OF row(3)] show ?thesis
      by (auto simp: Load_def kv_def)
  next
    case none
    with e pr s1 calm wf cert_store_determines[OF none(3)] show ?thesis
      by (auto simp: Load_def kv_def)
  next
    case (failed m)
    have "cert_faults s \<noteq> []" using failed(1) pr by (auto simp: calm_row split: option.splits)
    with failed e pr s1 wf cert_store_determines[OF failed(2)] show ?thesis
      by (auto simp: Load_def)
  qed
next
  fix s s' :: cert_db and k :: string and r
  assume wf: "cert_wf s" and e: "Delete k s = (r, s')"
  then have calm: "cert_faults s = [] \<longrightarrow> cert_faults s' = [] \<and> r = None"
    by (auto simp: Delete_def calm_exec)
  have wfd: "cert_wf t \<Longrightarrow> cert_wf (t\<lparr>cert_store := filter P (cert_store t)\<rparr>)" for t P
    by (simp add: cert_wf_def distinct_map_filter)
  from e show "cert_wf s' \<and> kv s' = (if r = None then (kv s)(k := None) else kv s) \<and>
      (cert_faults s = [] \<longrightarrow> cert_faults s' = [] \<and> r = None)"
    unfolding Delete_def
  proof (cases rule: pg_exec_cases)
    case (ok s1)
    with cert_store_determines[OF ok(3)] wf calm wfd[of s1] kv_delete[of k s1] show ?thesis by simp
  next
    case (failed e)
    with cert_store_determines[OF failed(2)] wf calm show ?thesis by simp
  qed
next
  fix s s' :: cert_db and k :: string and b
  assume wf: "cert_wf s" and e: "Exists k s = (b, s')"
  obtain r s1 where row: "pg_row (find_cert k) s = (r, s1)" by fastforce
  with e have s1: "s' = s1" "b = (\<not> isl r)" by (auto simp: Exists_def)
  have calm: "cert_faults s = [] \<longrightarrow> cert_faults s' = [] \<and> b = (kv s k \<noteq> None)"
    using row s1 by (auto simp: calm_row kv_def split: option.splits)
  from row show "cert_wf s' \<and> kv s' = kv s \<and> (b \<longrightarrow> kv s k \<noteq> None) \<and>
      (cert_faults s = [] \<longrightarrow> cert_faults s' = [] \<and> b = (kv s k \<noteq> None))"
  proof (cases rule: pg_row_cases)
    case (row x)
    with wf calm s1 cert_store_determines[OF row(3)] show ?thesis by (auto simp: kv_def)
  next
    case none
    with wf calm s1 cert_store_determines[OF none(3)] show ?thesis by auto
  next
    case (failed m)
    with wf calm s1 cert_store_determines[OF failed(2)] show ?thesis by auto
  qed
qed

abbreviation cert_calls :: "(string, string) kv_op list \<Rightarrow> cert_db \<Rightarrow> string kv_res list \<times> cert_db" where
  "cert_calls \<equiv> kv_calls (kv_call Store Load Delete Exists ErrNotExist)"


text \<open>C29: The certificate storage refines a map from keys to values: whichever statements
  fail, a run of calls answers as that map does except that a failing call reports a failure
  (\<open>Exists\<close>, which has no error result, reports absence) and changes nothing; without
  failures the answers are exactly the map's.\<close>
theorem storage_refines_map:
  assumes "cert_wf s" and "cert_calls xs s = (rs, s')"
  shows "cert_wf s' \<and> kv_run xs (kv s) rs (kv s') \<and>
    (cert_faults s = [] \<longrightarrow> kv_all xs (kv s) = (rs, kv s'))"
  by (rule pg.calls_refine[OF assms])

definition demo_certs :: "fault list \<Rightarrow> cert_db" where
  "demo_certs fs = \<lparr>cert_store = [\<lparr>cr_key = ''a/1'', cr_value = ''pem'', cr_updated_at = ''t0''\<rparr>],
     cert_now = ''t1'', cert_faults = fs\<rparr>"

theorem storage_refines_map_witness:
  "\<exists>s'. cert_calls [StoreOp ''a/2'' ''key'', LoadOp ''a/2'', ExistsOp ''a/1'', LoadOp ''b'']
      (demo_certs [NoFault, NoFault, Fail ''gone'']) =
      ([Done, Value ''key'', Found False, Absent], s') \<and>
    kv s' = [''a/1'' \<mapsto> ''pem'', ''a/2'' \<mapsto> ''key''] \<and>
    kv_run [StoreOp ''a/2'' ''key'', LoadOp ''a/2'', ExistsOp ''a/1'', LoadOp ''b'']
      [''a/1'' \<mapsto> ''pem''] [Done, Value ''key'', Found False, Absent]
      [''a/1'' \<mapsto> ''pem'', ''a/2'' \<mapsto> ''key'']"
proof -
  let ?ops = "[StoreOp ''a/2'' ''key'', LoadOp ''a/2'', ExistsOp ''a/1'', LoadOp ''b'']"
  let ?s = "demo_certs [NoFault, NoFault, Fail ''gone'']"
  have wf: "cert_wf ?s" by (simp add: cert_wf_def demo_certs_def)
  have kv: "kv ?s = [''a/1'' \<mapsto> ''pem'']" by (auto simp: kv_def find_cert_def demo_certs_def)
  obtain s' where c: "cert_calls ?ops ?s = ([Done, Value ''key'', Found False, Absent], s')"
    and st: "cert_store s' = [\<lparr>cr_key = ''a/1'', cr_value = ''pem'', cr_updated_at = ''t0''\<rparr>,
      \<lparr>cr_key = ''a/2'', cr_value = ''key'', cr_updated_at = ''t1''\<rparr>]"
    by (simp add: Store_def Load_def Exists_def pg_exec_def pg_row_def next_cert_fault_def
        sql_put_cert_def find_cert_def demo_certs_def)
  from st have "kv s' = [''a/1'' \<mapsto> ''pem'', ''a/2'' \<mapsto> ''key'']"
    by (auto simp: kv_def find_cert_def)
  with storage_refines_map[OF wf c] kv c show ?thesis by auto
qed

section \<open>The listing\<close>

fun first_level :: "string \<Rightarrow> string" where
  "first_level [] = []"
| "first_level (c # cs) = c # (if c = CHR ''/'' then [] else first_level cs)"

lemma first_level_index: "(case index_byte (CHR ''/'') r of None \<Rightarrow> r | Some i \<Rightarrow> take (Suc i) r) = first_level r"
  by (induction r) (auto split: option.splits)

lemma first_level_mono: "r \<le> t \<Longrightarrow> first_level r \<le> first_level t"
proof (induction r arbitrary: t)
  case Nil
  then show ?case by simp
next
  case (Cons c cs)
  then obtain d ds where "t = d # ds" by (cases t) auto
  with Cons show ?case by auto
qed

lemma first_level_slash: "CHR ''/'' \<notin> set r \<Longrightarrow> first_level r = r"
  by (induction r) auto

lemma first_level_dir: "CHR ''/'' \<in> set r \<Longrightarrow> CHR ''/'' \<in> set (first_level r)"
  by (induction r) auto

definition entry_of :: "string \<Rightarrow> string \<Rightarrow> string" where
  "entry_of p k = p @ first_level (drop (length p) k)"

lemma list_key_entry:
  assumes "prefix p k"
    and "CHR ''/'' \<notin> set (drop (length p) k) \<Longrightarrow> \<not> (keys \<noteq> [] \<and> last keys = k)"
  shows "list_key p False keys k =
    (if keys \<noteq> [] \<and> last keys = entry_of p k then keys else keys @ [entry_of p k])"
proof -
  obtain r where k: "k = p @ r" using assms(1) by (auto simp: prefix_def)
  then have t: "trim_prefix k p = r" by (simp add: trim_prefix_def has_prefix_iff)
  show ?thesis
  proof (cases "index_byte (CHR ''/'') r")
    case None
    then have "first_level r = r" "CHR ''/'' \<notin> set r" by (simp_all add: index_byte_None first_level_slash)
    with None t assms(2) show ?thesis by (simp add: list_key_def entry_of_def k)
  next
    case (Some i)
    with first_level_index[of r] have "first_level r = take (Suc i) r" by simp
    with Some t show ?thesis by (simp add: list_key_def entry_of_def k)
  qed
qed

lemma remdups_adj_snoc: "remdups_adj (xs @ [x]) =
    (if xs \<noteq> [] \<and> last xs = x then remdups_adj xs else remdups_adj xs @ [x])"
  by (induction xs rule: remdups_adj.induct) auto

lemma list_keys_fold:
  assumes "\<forall>k \<in> set ks. prefix p k" and "distinct ks"
  shows "foldl (list_key p False) [] ks = remdups_adj (map (entry_of p) ks)"
  using assms
proof (induction ks rule: rev_induct)
  case Nil
  then show ?case by simp
next
  case (snoc k ks)
  let ?l = "remdups_adj (map (entry_of p) ks)"
  obtain r where k: "k = p @ r" using snoc.prems by (auto simp: prefix_def)
  have "\<not> (?l \<noteq> [] \<and> last ?l = k)" if plain: "CHR ''/'' \<notin> set (drop (length p) k)"
  proof
    assume "?l \<noteq> [] \<and> last ?l = k"
    then have "k \<in> entry_of p ` set ks" by (metis last_in_set remdups_adj_set set_map)
    then obtain k' where k': "k' \<in> set ks" "k = entry_of p k'" by auto
    obtain r' where r: "k' = p @ r'" using k'(1) snoc.prems by (auto simp: prefix_def)
    with k k' have "r = first_level r'" by (simp add: entry_of_def)
    with plain k have "CHR ''/'' \<notin> set r'" using first_level_dir[of r'] by auto
    with k' r have "k = k'" by (simp add: entry_of_def first_level_slash)
    with k' snoc.prems show False by simp
  qed
  with list_key_entry[of p k ?l] snoc show ?case
    by (cases "ks = []") (simp_all add: remdups_adj_snoc last_map)
qed

lemma list_keys_recursive: "foldl (list_key p True) keys ks = keys @ ks"
  by (induction ks arbitrary: keys) (simp_all add: list_key_def)

lemma distinct_remdups_sorted: "sorted (xs :: 'a :: linorder list) \<Longrightarrow> distinct (remdups_adj xs)"
proof (induction xs rule: remdups_adj.induct)
  case (3 x y xs)
  show ?case
  proof (cases "x = y")
    case False
    with 3 have "distinct (remdups_adj (y # xs))" by simp
    moreover have "x \<notin> set (y # xs)" using 3(3) False by fastforce
    ultimately show ?thesis using False by simp
  qed (use 3 in simp)
qed auto

lemma entries_sorted:
  assumes "sorted ks" and "\<forall>k \<in> set ks. prefix p k"
  shows "sorted (map (entry_of p) ks)"
proof -
  have "entry_of p k \<le> entry_of p k'" if k: "k \<in> set ks" "k' \<in> set ks" "k \<le> k'" for k k'
  proof -
    obtain r r' where "k = p @ r" "k' = p @ r'" using k(1,2) assms(2) by (meson prefixE)
    moreover have "p @ a \<le> p @ b \<longleftrightarrow> a \<le> b" for a b by (induction p) auto
    ultimately show ?thesis using k(3) by (simp add: entry_of_def first_level_mono)
  qed
  with assms(1) show ?thesis by (auto simp: sorted_map intro: sorted_wrt_mono_rel[of ks "(\<le>)"])
qed

lemma like_prefix:
  "list_all (plain_char DialectPostgres) p \<Longrightarrow> like DialectPostgres (p @ ''%'') t \<longleftrightarrow> prefix p t"
  by (auto simp: like_plain like_percent list_all2_like fold_case_def prefix_def)

lemma cert_keys_like_props:
  assumes "sql_contract env" and "cert_wf s" and "list_all (plain_char DialectPostgres) p"
  shows "set (cert_keys_like env p s) = {k. kv s k \<noteq> None \<and> prefix p k}"
    and "distinct (cert_keys_like env p s)"
    and "sorted_wrt (collate env) (cert_keys_like env p s)"
proof -
  have dom: "kv s k \<noteq> None \<longleftrightarrow> k \<in> cr_key ` set (cert_store s)" for k
    by (auto simp: kv_def find_cert_def find_None_iff)
  show "set (cert_keys_like env p s) = {k. kv s k \<noteq> None \<and> prefix p k}"
    unfolding dom by (auto simp: cert_keys_like_def like_prefix[OF assms(3)])
  show "distinct (cert_keys_like env p s)"
    unfolding cert_keys_like_def mset_eq_imp_distinct_iff[OF mset_sort_rel]
    using assms(2) by (simp add: cert_wf_def)
  show "sorted_wrt (collate env) (cert_keys_like env p s)"
    unfolding cert_keys_like_def
    by (rule sorted_sort_rel) (use assms(1) in \<open>auto simp: sql_contract_def\<close>)
qed

lemma strictly_sorted: "sorted xs \<Longrightarrow> distinct xs \<Longrightarrow> sorted_wrt (<) (xs :: 'a :: linorder list)"
  by (simp add: strict_sorted_iff)

lemma sorted_remdups_adj: "sorted xs \<Longrightarrow> sorted (remdups_adj (xs :: 'a :: linorder list))"
  by (induction xs rule: remdups_adj.induct) auto

text \<open>C30: A recursive listing holds exactly the keys of the storage with the given prefix, each
  once and in key order. One that is not recursive holds for them, in the same order, the
  entries at the level of the prefix: a key without a further slash, or its directory, of
  which neighbours that are equal are listed once. When the collation is bytewise, the entries
  too are each listed once and in order. The prefix must not hold a wildcard of \<open>LIKE\<close>,
  which the code does not escape.\<close>
theorem listing_is_exact:
  assumes "sql_contract env" and "cert_wf s" and "cert_faults s = []"
    and "list_all (plain_char DialectPostgres) p"
    and "ListKeys env p recursive s = ((keys, e), s')"
  shows "e = None \<and> s' = s \<and>
    set keys = (if recursive then id else entry_of p) ` {k. kv s k \<noteq> None \<and> prefix p k} \<and>
    (\<exists>ks. distinct ks \<and> sorted_wrt (collate env) ks \<and> set ks = {k. kv s k \<noteq> None \<and> prefix p k} \<and>
       keys = (if recursive then ks else remdups_adj (map (entry_of p) ks))) \<and>
    (collate env = (\<le>) \<longrightarrow> sorted_wrt (<) keys)"
proof -
  let ?ks = "cert_keys_like env p s"
  note ks = cert_keys_like_props[OF assms(1,2,4)]
  have k: "keys = foldl (list_key p recursive) [] ?ks" "e = None" "s' = s"
    using assms(3,5) by (auto simp: ListKeys_def)
  have pre: "\<forall>k \<in> set ?ks. prefix p k" using ks(1) by simp
  have keys: "keys = (if recursive then ?ks else remdups_adj (map (entry_of p) ?ks))"
    by (simp add: k(1) list_keys_recursive list_keys_fold[OF pre ks(2)])
  have "sorted_wrt (<) keys" if "collate env = (\<le>)"
  proof -
    have "sorted ?ks" using ks(3) that by simp
    note es = entries_sorted[OF this pre]
    have "sorted_wrt (<) (remdups_adj (map (entry_of p) ?ks))"
      by (rule strictly_sorted[OF sorted_remdups_adj[OF es] distinct_remdups_sorted[OF es]])
    with strictly_sorted[OF \<open>sorted ?ks\<close> ks(2)] show ?thesis by (simp add: keys)
  qed
  moreover have "set keys = (if recursive then id else entry_of p) ` {k. kv s k \<noteq> None \<and> prefix p k}"
    unfolding ks(1)[symmetric] by (simp add: keys)
  ultimately show ?thesis using k(2,3) ks keys by blast
qed

text \<open>A storage with a key at the level of a prefix and a directory of two.\<close>

definition demo_tree :: cert_db where
  "demo_tree = \<lparr>cert_store = map (\<lambda>k. \<lparr>cr_key = k, cr_value = ''pem'', cr_updated_at = ''t0''\<rparr>)
       [''a/d/y'', ''b'', ''a/d/x'', ''a/c''], cert_now = ''t1'', cert_faults = []\<rparr>"

theorem listing_is_exact_witness:
  "ListKeys (reference_env DialectPostgres) ''a/'' False demo_tree = (([''a/c'', ''a/d/''], None), demo_tree)"
proof -
  let ?env = "reference_env DialectPostgres"
  have wf: "cert_wf demo_tree" and nf: "cert_faults demo_tree = []"
    and pl: "list_all (plain_char DialectPostgres) ''a/''"
    by (simp_all add: cert_wf_def demo_tree_def plain_char_def)
  obtain keys e s' where l: "ListKeys ?env ''a/'' False demo_tree = ((keys, e), s')"
    by (metis prod.collapse)
  have keys_of: "cr_key ` set (cert_store demo_tree) = {''a/d/y'', ''b'', ''a/d/x'', ''a/c''}"
    by (simp add: demo_tree_def)
  have "kv demo_tree k \<noteq> None \<longleftrightarrow> k \<in> {''a/d/y'', ''b'', ''a/d/x'', ''a/c''}" for k
    unfolding keys_of[symmetric] by (auto simp: kv_def find_cert_def find_None_iff)
  moreover have "(k \<in> {''a/d/y'', ''b'', ''a/d/x'', ''a/c''} \<and> prefix ''a/'' k) =
      (k \<in> {''a/d/y'', ''a/d/x'', ''a/c''})" for k by auto
  ultimately have under: "{k. kv demo_tree k \<noteq> None \<and> prefix ''a/'' k} = {''a/d/y'', ''a/d/x'', ''a/c''}"
    by (simp only: Collect_mem_eq)
  have entries: "entry_of ''a/'' ` {''a/d/y'', ''a/d/x'', ''a/c''} = set [''a/c'', ''a/d/'']"
    by (simp add: entry_of_def insert_commute)
  note le = listing_is_exact[OF reference_env_contract wf nf pl l, unfolded under if_False entries]
  then have e: "e = None" "s' = demo_tree" and "set keys = set [''a/c'', ''a/d/'']"
    by (blast, blast, blast)
  moreover have "sorted_wrt (<) keys" using le by (simp only: reference_env_sel simp_thms)
  moreover have "sorted_wrt (<) [''a/c'', ''a/d/'' :: string]" by code_simp
  ultimately have "keys = [''a/c'', ''a/d/'']" by (metis strict_sorted_equal)
  with l e show ?thesis by simp
qed

end
