(* ===== verification/Pg_Locks.thy ===== *)
theory Pg_Locks
  imports Pg_Storage
begin

text \<open>
  The advisory locks of \<open>internal/certs/pg_storage.go\<close>: the range and the collisions of the
  lock keys, and what the locks exclude.
\<close>

section \<open>Lock keys\<close>

text \<open>The hash as a polynomial, before wrap-around.\<close>

fun poly_hash :: "nat \<Rightarrow> nat list \<Rightarrow> nat" where
  "poly_hash h [] = h"
| "poly_hash h (c # cs) = poly_hash (h * 31 + c) cs"

lemma lock_hash_poly: "foldl (\<lambda>h c. h * 31 + word_of_nat c) (word_of_nat h) cs
    = (word_of_nat (poly_hash h cs) :: 64 word)"
  proof (induction cs arbitrary: h)
  case Nil
  show ?case by simp
next
  case (Cons c cs)
  from Cons[of "h * 31 + c"] show ?case by simp
qed

lemma lock_hash_eq: "lock_hash cs = word_of_nat (poly_hash 0 cs)"
  using lock_hash_poly[of 0 cs] by (simp add: lock_hash_def)

lemma poly_hash_append: "poly_hash h (xs @ ys) = poly_hash (poly_hash h xs) ys"
  by (induction xs arbitrary: h) simp_all

lemma poly_hash_le: "\<forall>c \<in> set cs. c < 128 \<Longrightarrow> poly_hash h cs + 5 \<le> (h + 5) * 31 ^ length cs"
proof (induction cs arbitrary: h)
  case Nil
  then show ?case by simp
next
  case (Cons c cs)
  then have "poly_hash (h * 31 + c) cs + 5 \<le> (h * 31 + c + 5) * 31 ^ length cs" by simp
  also have "\<dots> \<le> ((h + 5) * 31) * 31 ^ length cs" using Cons.prems by (intro mult_right_mono) auto
  finally show ?case by (simp add: mult.assoc distrib_right)
qed

definition ascii :: "string \<Rightarrow> bool" where
  "ascii s \<longleftrightarrow> (\<forall>c \<in> set s. (of_char c :: nat) < 128)"

lemma runes_ascii: "ascii s \<Longrightarrow> map rune_value (runes s) = map of_char s"
proof (induction s)
  case Nil
  then show ?case by simp
next
  case (Cons c cs)
  then have "utf8_width (c # cs) = 1" "utf8_width [c] = 1" by (auto simp: ascii_def)
  with Cons show ?case by (simp add: ascii_def rune_value_def)
qed

lemma sint_range64: "- (2 ^ 63) \<le> sint (h :: 64 word)" "sint (h :: 64 word) < 2 ^ 63"
  using sint_greater_eq[of h] sint_lt[of h] by simp_all

lemma sint_of_int64: "- (2 ^ 63) \<le> x \<Longrightarrow> x < 2 ^ 63 \<Longrightarrow> sint (word_of_int x :: 64 word) = x"
  using sint_sbintrunc'[where 'a = 64, of x] signed_take_bit_int_eq_self[of 63 x] by simp

lemma sint_neg64:
  fixes h :: "64 word"
  assumes "sint h < 0" and "sint h \<noteq> - (2 ^ 63)"
  shows "sint (- h) = - sint h"
proof -
  have "- h = word_of_int (- sint h)" by simp
  moreover have "sint (word_of_int (- sint h) :: 64 word) = - sint h"
    using assms sint_range64[of h] by (intro sint_of_int64) auto
  ultimately show ?thesis by metis
qed

lemma lockKey_nonneg: "0 \<le> sint (lockKey name) \<or> sint (lockKey name) = - (2 ^ 63)"
proof -
  define h where "h = lock_hash (map rune_value (runes name))"
  show ?thesis
  proof (cases "sint h < 0")
    case False
    then show ?thesis by (simp add: lockKey_def h_def[symmetric])
  next
    case True
    show ?thesis
    proof (cases "sint h = - (2 ^ 63)")
      case True
      have "h = word_of_int (sint h)" by simp
      with True have "h = word_of_int (- (2 ^ 63))" by metis
      then have h: "h = 9223372036854775808" by simp
      have "- h = h" by (simp add: h)
      then have "lockKey name = h" by (simp only: lockKey_def h_def[symmetric] Let_def if_cancel)
      with True show ?thesis by simp
    next
      case False
      with True sint_neg64[of h] show ?thesis by (simp add: lockKey_def h_def[symmetric])
    qed
  qed
qed

lemma lockKey_short:
  assumes "ascii name" and "length name \<le> 12"
  shows "unat (lockKey name) = poly_hash 0 (map of_char name)"
proof -
  let ?p = "poly_hash 0 (map of_char name)"
  have "?p + 5 \<le> 5 * 31 ^ length name"
    using poly_hash_le[of "map of_char name" 0] assms(1) by (simp add: ascii_def)
  also have "\<dots> \<le> 5 * 31 ^ (12::nat)" using assms(2) by (intro mult_left_mono power_increasing) auto
  finally have p: "?p < 2 ^ 63" by simp
  let ?h = "lock_hash (map rune_value (runes name))"
  have h: "?h = word_of_nat ?p" by (simp add: lock_hash_eq runes_ascii[OF assms(1)])
  have "sint (word_of_int (int ?p) :: 64 word) = int ?p" using p by (intro sint_of_int64) auto
  then have "\<not> sint ?h < 0" by (simp add: h)
  then have "lockKey name = word_of_nat ?p" by (simp add: lockKey_def h)
  moreover have "unat (word_of_nat ?p :: 64 word) = ?p" using p by (simp add: unat_of_nat)
  ultimately show ?thesis by metis
qed

lemma lockKey_collision:
  assumes "ascii u" and "ascii v"
  shows "lockKey (u @ ''Aa'' @ v) = lockKey (u @ ''BB'' @ v)"
proof -
  have a: "ascii (u @ ''Aa'' @ v)" "ascii (u @ ''BB'' @ v)" using assms by (auto simp: ascii_def)
  have "poly_hash h (map of_char ''Aa'') = poly_hash h (map of_char ''BB'')" for h by simp
  then have "lock_hash (map of_char (u @ ''Aa'' @ v)) = lock_hash (map of_char (u @ ''BB'' @ v))"
    by (simp add: lock_hash_eq poly_hash_append)
  then show ?thesis unfolding lockKey_def runes_ascii[OF a(1)] runes_ascii[OF a(2)] by simp
qed

text \<open>The key of the lowest hash is its own negation.\<close>

lemma lockKey_minimum: "sint (lockKey [CHR 0x0B, CHR 0x16, CHR 0x00, CHR 0x03, CHR 0x12, CHR 0x09, CHR 0x05, CHR 0x11, CHR 0x12, CHR 0x0A, CHR 0x04, CHR 0x03, CHR 0x08]) = - (2 ^ 63)"
proof -
  let ?m = "[CHR 0x0B, CHR 0x16, CHR 0x00, CHR 0x03, CHR 0x12, CHR 0x09, CHR 0x05, CHR 0x11, CHR 0x12, CHR 0x0A, CHR 0x04, CHR 0x03, CHR 0x08]"
  have a: "ascii ?m" by (simp add: ascii_def)
  have h: "lock_hash (map of_char ?m) = 9223372036854775808" by (simp add: lock_hash_eq)
  have "lockKey ?m = 9223372036854775808"
    unfolding lockKey_def runes_ascii[OF a] h by simp
  then show ?thesis by simp
qed

text \<open>C31: The lock keys. Every key is non-negative except one, the lowest 64-bit integer,
  which \<open>-h\<close> leaves as it is and which some name reaches. Up to 12 ASCII bytes the key is the
  polynomial in 31 of the bytes, without wrap-around. Different names can share a key: \<open>Aa\<close>
  and \<open>BB\<close> are interchangeable anywhere in a name.\<close>
theorem lockKey_bounds:
  assumes "ascii u" and "ascii v" and "ascii name" and "length name \<le> 12"
  shows "(0 \<le> sint (lockKey any) \<or> sint (lockKey any) = - (2 ^ 63)) \<and>
    (\<exists>low. sint (lockKey low) = - (2 ^ 63)) \<and>
    unat (lockKey name) = poly_hash 0 (map of_char name) \<and>
    lockKey (u @ ''Aa'' @ v) = lockKey (u @ ''BB'' @ v)"
  using lockKey_nonneg lockKey_minimum lockKey_short[OF assms(3,4)] lockKey_collision[OF assms(1,2)]
  by blast

theorem lockKey_bounds_witness:
  "unat (lockKey ''issue'') = poly_hash 0 (map of_char ''issue'') \<and>
   lockKey ''cert_Aa.example'' = lockKey ''cert_BB.example''"
proof -
  have a: "ascii ''cert_''" "ascii ''.example''" "ascii ''issue''" by (simp_all add: ascii_def)
  from lockKey_bounds[OF a] show ?thesis by simp
qed

section \<open>What the locks exclude\<close>

text \<open>The calls of all processes in the order in which the database answers them, each with the
  connection that the pool of its process chose. A run in which a call waits has no end.\<close>

datatype lock_call = Acquire nat string | Release nat string

fun lock_run :: "'l advisory \<Rightarrow> lock_call list \<Rightarrow> 'l \<Rightarrow> 'l option" where
  "lock_run adv [] l = Some l"
| "lock_run adv (Acquire c name # calls) l =
     (case Lock adv c name l of None \<Rightarrow> None | Some l' \<Rightarrow> lock_run adv calls l')"
| "lock_run adv (Release c name # calls) l = lock_run adv calls (Unlock adv c name l)"

lemma advisory_contractD:
  assumes "advisory_contract adv holder"
  shows advisory_free: "holder l k = None \<Longrightarrow>
      \<exists>l'. adv_lock adv c k l = Some l' \<and> holder l' = (holder l)(k \<mapsto> (c, 1))"
    and advisory_again: "holder l k = Some (c, n) \<Longrightarrow>
      \<exists>l'. adv_lock adv c k l = Some l' \<and> holder l' = (holder l)(k \<mapsto> (c, Suc n))"
    and advisory_wait: "holder l k = Some (d, n) \<Longrightarrow> d \<noteq> c \<Longrightarrow> adv_lock adv c k l = None"
    and advisory_warn: "holder l k = Some (d, n) \<Longrightarrow> d \<noteq> c \<Longrightarrow>
      holder (adv_unlock adv c k l) = holder l"
    and advisory_nothing: "holder l k = None \<Longrightarrow> holder (adv_unlock adv c k l) = holder l"
    and advisory_last: "holder l k = Some (c, 1) \<Longrightarrow>
      holder (adv_unlock adv c k l) = (holder l)(k := None)"
    and advisory_release: "holder l k = Some (c, Suc n) \<Longrightarrow> 0 < n \<Longrightarrow>
      holder (adv_unlock adv c k l) = (holder l)(k \<mapsto> (c, n))"
  using assms unfolding advisory_contract_def by (elim conjE; metis)+

text \<open>Locks are only counted while they are held.\<close>

definition counted :: "('l \<Rightarrow> 64 word \<Rightarrow> (nat \<times> nat) option) \<Rightarrow> 'l \<Rightarrow> bool" where
  "counted holder l \<longleftrightarrow> (\<forall>k c n. holder l k = Some (c, n) \<longrightarrow> 0 < n)"

lemma Lock_effect:
  assumes "advisory_contract adv holder" and "Lock adv c name l = Some l'"
  shows "(\<exists>n. holder l' = (holder l)(lockKey name \<mapsto> (c, Suc n))) \<and>
    (case holder l (lockKey name) of None \<Rightarrow> True | Some (d, n) \<Rightarrow> d = c)"
proof (cases "holder l (lockKey name)")
  case None
  with advisory_free[OF assms(1) None, of c] assms(2) show ?thesis by (auto simp: Lock_def)
next
  case (Some h)
  obtain d n where h: "h = (d, n)" by fastforce
  with Some assms advisory_wait[OF assms(1), of l "lockKey name" d n c] have "d = c"
    by (auto simp: Lock_def)
  with Some h assms(2) advisory_again[OF assms(1), of l "lockKey name" c n] show ?thesis
    by (auto simp: Lock_def)
qed

lemma Unlock_effect:
  assumes "advisory_contract adv holder" and "counted holder l"
  shows "(\<forall>k. (k \<noteq> lockKey name \<or> (\<forall>n. holder l k \<noteq> Some (c, n))) \<longrightarrow>
      holder (Unlock adv c name l) k = holder l k) \<and> counted holder (Unlock adv c name l)"
proof (cases "holder l (lockKey name)")
  case None
  with advisory_nothing[OF assms(1) None, of c] assms(2) show ?thesis
    by (simp add: Unlock_def counted_def)
next
  case (Some h)
  obtain d n where h: "h = (d, n)" by fastforce
  show ?thesis
  proof (cases "d = c")
    case False
    with Some h advisory_warn[OF assms(1), of l _ d n c] assms(2) show ?thesis
      by (simp add: Unlock_def counted_def)
  next
    case True
    from assms(2) Some h have "0 < n" by (simp add: counted_def)
    then consider "n = 1" | m where "n = Suc m" "0 < m" by (cases n) auto
    then have "holder (Unlock adv c name l) = (holder l)(lockKey name := None) \<or>
        (\<exists>m > 0. holder (Unlock adv c name l) = (holder l)(lockKey name \<mapsto> (c, m)))"
      using Some h True advisory_last[OF assms(1)] advisory_release[OF assms(1)]
      by cases (auto simp: Unlock_def)
    with Some h True assms(2) show ?thesis by (auto simp: counted_def split: if_splits)
  qed
qed

lemma still_held:
  assumes "advisory_contract adv holder" and "lock_run adv calls l = Some l'"
    and "counted holder l" and "holder l k = Some (c, n)"
    and "\<forall>name. Release c name \<in> set calls \<longrightarrow> lockKey name \<noteq> k"
  shows "\<exists>n'. holder l' k = Some (c, n')"
  using assms(2-5)
proof (induction calls arbitrary: l n)
  case Nil
  then show ?case by simp
next
  case (Cons call calls)
  show ?case
  proof (cases call)
    case (Acquire d name)
    with Cons.prems obtain l1 where l1: "Lock adv d name l = Some l1" "lock_run adv calls l1 = Some l'"
      by (auto split: option.splits)
    from Lock_effect[OF assms(1) l1(1)] obtain m where m: "holder l1 = (holder l)(lockKey name \<mapsto> (d, Suc m))"
      and own: "case holder l (lockKey name) of None \<Rightarrow> True | Some (e, n) \<Rightarrow> e = d" by blast
    have "counted holder l1" using Cons.prems(2) m by (auto simp: counted_def)
    moreover have "\<exists>n1. holder l1 k = Some (c, n1)" using Cons.prems(3) m own by auto
    ultimately show ?thesis using Cons.IH[OF l1(2)] Cons.prems(4) by auto
  next
    case (Release d name)
    note u = Unlock_effect[OF assms(1) Cons.prems(2), of name d]
    have "k \<noteq> lockKey name \<or> (\<forall>n. holder l k \<noteq> Some (d, n))"
      using Cons.prems(3,4) Release by auto
    with u have "holder (Unlock adv d name l) k = holder l k" by blast
    then have "holder (Unlock adv d name l) k = Some (c, n)" using Cons.prems(3) by simp
    with Cons.IH[of "Unlock adv d name l" n] u Cons.prems(1,4) Release show ?thesis by auto
  qed
qed

text \<open>C32: An advisory lock belongs to the connection that took it, not to the caller. Once a
  \<open>Lock\<close> has succeeded on a connection, let any calls of any processes follow, such as the
  holder's own \<open>Unlock\<close> on another connection of its pool. As long as none of them releases a
  name of this key on this very connection, a \<open>Lock\<close> for such a name waits on every other
  connection. It succeeds on this one, so that two callers whose pool gives them the same
  connection are both let in.\<close>
theorem advisory_locks_per_session:
  assumes "advisory_contract adv holder" and "counted holder l"
    and "lock_run adv (Acquire c name # calls) l = Some l'"
    and "\<forall>other. Release c other \<in> set calls \<longrightarrow> lockKey other \<noteq> lockKey name"
    and "lockKey name' = lockKey name"
  shows "(Lock adv d name' l' = None) = (d \<noteq> c)"
proof -
  from assms(3) obtain l1 where l1: "Lock adv c name l = Some l1" "lock_run adv calls l1 = Some l'"
    by (auto split: option.splits)
  from Lock_effect[OF assms(1) l1(1)] obtain m where
    m: "holder l1 = (holder l)(lockKey name \<mapsto> (c, Suc m))" by blast
  have "counted holder l1" using assms(2) m by (auto simp: counted_def)
  from still_held[OF assms(1) l1(2) this _ assms(4)] m obtain n where
    "holder l' (lockKey name) = Some (c, n)" by auto
  with advisory_wait[OF assms(1), of l' "lockKey name" c n d]
    advisory_again[OF assms(1), of l' "lockKey name" c n] assms(5)
  show ?thesis by (auto simp: Lock_def)
qed

theorem advisory_locks_per_session_witness:
  "\<exists>l'. lock_run ref_advisory [Acquire 1 ''issue'', Release 2 ''issue''] Map.empty = Some l' \<and>
     Lock ref_advisory 3 ''issue'' l' = None \<and> Lock ref_advisory 1 ''issue'' l' \<noteq> None"
proof -
  have c: "counted (\<lambda>l. l) (Map.empty :: 64 word \<Rightarrow> (nat \<times> nat) option)" by (simp add: counted_def)
  obtain l' where l': "lock_run ref_advisory [Acquire 1 ''issue'', Release 2 ''issue''] Map.empty = Some l'"
    by (simp add: Lock_def Unlock_def ref_advisory_def)
  from advisory_locks_per_session[OF ref_advisory_contract c l', of "''issue''" 3]
    advisory_locks_per_session[OF ref_advisory_contract c l', of "''issue''" 1] l'
  show ?thesis by simp
qed

end
