(* ===== verification/Beacon.thy ===== *)
theory Beacon
  imports Chan Store_Base Json_Text
begin

text \<open>
  \<open>internal/beacon/beacon.go\<close>: the URL a log entry is encoded in and the workers that send
  it. The HTTP client is outside: a worker's request is a step that takes any time and
  whose outcome is ignored.
\<close>

section \<open>\<open>url.PathEscape\<close>\<close>

definition hex_upper :: "nat \<Rightarrow> char" where
  "hex_upper d = (if d < 10 then char_of (48 + d) else char_of (55 + d))"

text \<open>The bytes that stay: letters, digits, \<open>-_.~\<close> and \<open>$&+=:@\<close>.\<close>

definition path_safe :: "char \<Rightarrow> bool" where
  "path_safe c \<longleftrightarrow>
     (let n = of_char c :: nat in
      48 \<le> n \<and> n \<le> 57 \<or> 65 \<le> n \<and> n \<le> 90 \<or> 97 \<le> n \<and> n \<le> 122 \<or>
      n \<in> {45, 95, 46, 126, 36, 38, 43, 61, 58, 64})"

definition escape_byte :: "char \<Rightarrow> string" where
  "escape_byte c =
     (if path_safe c then [c]
      else [CHR ''%'', hex_upper (of_char c div 16), hex_upper (of_char c mod 16)])"

definition PathEscape :: "string \<Rightarrow> string" where
  "PathEscape s = concat (map escape_byte s)"

section \<open>Sending\<close>

definition truncate_ua :: "string \<Rightarrow> string" where
  "truncate_ua ua = (if length ua > 200 then take 200 ua else ua)"

definition beacon_url :: "string \<Rightarrow> request_log_entry \<Rightarrow> string" where
  "beacon_url ep e =
     ep @ ''/'' @ PathEscape (l_Domain e) @ ''/'' @ int_dec (l_Status e) @ ''/'' @
     PathEscape (l_Path e) @ ''/'' @ PathEscape (l_TargetURL e) @ ''/'' @
     PathEscape (l_ClientIP e) @ ''/'' @ PathEscape (truncate_ua (l_UserAgent e)) @ ''/'' @
     PathEscape (l_Referer e) @ ''/'' @ PathEscape (l_Query e)"

section \<open>The workers\<close>

text \<open>A worker waits in its \<open>select\<close>, is in the HTTP request for an entry, or has returned.\<close>

datatype worker = Waiting | Requesting request_log_entry | Returned

record sender =
  sn_endpoint :: string
  sn_ch :: "request_log_entry chan"
  sn_done :: bool
  sn_workers :: "worker list"
  sn_sent :: "string list"

definition NewSender :: "string \<Rightarrow> nat \<Rightarrow> sender" where
  "NewSender ep bufSize =
     \<lparr>sn_endpoint = ep, sn_ch = make_chan bufSize, sn_done = False, sn_workers = [], sn_sent = []\<rparr>"

text \<open>\<open>Start\<close> launches four workers, \<open>Stop\<close> closes \<open>done\<close>.\<close>

definition Start_beacon :: "sender \<Rightarrow> sender" where
  "Start_beacon s = s\<lparr>sn_workers := replicate 4 Waiting\<rparr>"

definition Stop_beacon :: "sender \<Rightarrow> sender" where
  "Stop_beacon s = s\<lparr>sn_done := True\<rparr>"

text \<open>The engine's send, with the entries the channel accepted.\<close>

definition offer_beacon :: "request_log_entry \<Rightarrow> sender \<Rightarrow> bool \<times> sender" where
  "offer_beacon e s = (case try_send e (sn_ch s) of (ok, c) \<Rightarrow> (ok, s\<lparr>sn_ch := c\<rparr>))"

text \<open>
  The steps of the workers. A \<open>select\<close> with both cases ready takes either. The channel is
  never closed in this program, so a receive always has a value.
\<close>

inductive worker_step :: "sender \<Rightarrow> sender \<Rightarrow> bool" where
  receive: "i < length (sn_workers s) \<Longrightarrow> sn_workers s ! i = Waiting \<Longrightarrow>
     try_recv (sn_ch s) = Some (e, c) \<Longrightarrow>
     worker_step s (s\<lparr>sn_ch := c, sn_workers := (sn_workers s)[i := Requesting e]\<rparr>)"
| send: "i < length (sn_workers s) \<Longrightarrow> sn_workers s ! i = Requesting e \<Longrightarrow>
     worker_step s (s\<lparr>sn_sent := sn_sent s @ [beacon_url (sn_endpoint s) e],
                      sn_workers := (sn_workers s)[i := Waiting]\<rparr>)"
| stop: "i < length (sn_workers s) \<Longrightarrow> sn_workers s ! i = Waiting \<Longrightarrow> sn_done s \<Longrightarrow>
     worker_step s (s\<lparr>sn_workers := (sn_workers s)[i := Returned]\<rparr>)"

text \<open>The sender among its environment, with the list of the accepted entries.\<close>

inductive beacon_run :: "string \<Rightarrow> nat \<Rightarrow> request_log_entry list \<Rightarrow> sender \<Rightarrow> bool" for ep n where
  created: "beacon_run ep n [] (Start_beacon (NewSender ep n))"
| offered: "beacon_run ep n acc s \<Longrightarrow> offer_beacon e s = (True, s') \<Longrightarrow> beacon_run ep n (acc @ [e]) s'"
| dropped: "beacon_run ep n acc s \<Longrightarrow> offer_beacon e s = (False, s') \<Longrightarrow> beacon_run ep n acc s'"
| worked: "beacon_run ep n acc s \<Longrightarrow> worker_step s s' \<Longrightarrow> beacon_run ep n acc s'"
| stopped: "beacon_run ep n acc s \<Longrightarrow> beacon_run ep n acc (Stop_beacon s)"

inductive_cases worker_stepE: "worker_step s s'"

end
