(* ===== verification/Beacon_Props.thy ===== *)
theory Beacon_Props
  imports Beacon "HOL-Library.Multiset"
begin

text \<open>
  A beacon URL decodes to the fields of its entry, and the workers send each accepted entry
  at most once, each one exactly once as long as they are not stopped.
\<close>

section \<open>Decoding a beacon URL\<close>

definition unhex_upper :: "char \<Rightarrow> nat" where
  "unhex_upper c = (let n = of_char c in if n < 65 then n - 48 else n - 55)"

fun path_unescape :: "string \<Rightarrow> string" where
  "path_unescape (c # h # l # s) =
     (if c = CHR ''%'' then char_of (16 * unhex_upper h + unhex_upper l) # path_unescape s
      else c # path_unescape (h # l # s))"
| "path_unescape s = s"

lemma unhex_hex: "d < 16 \<Longrightarrow> unhex_upper (hex_upper d) = d"
  by (auto simp: unhex_upper_def hex_upper_def Let_def)

lemma byte_split: "char_of (16 * (of_char c div 16) + of_char c mod 16 :: nat) = c"
  by simp

lemma nibble: "of_char (c :: char) div 16 < (16 :: nat)"
  by (rule less_mult_imp_div_less) simp

lemma path_unescape_safe: "c \<noteq> CHR ''%'' \<Longrightarrow> path_unescape (c # s) = c # path_unescape s"
  by (cases s; cases "tl s") auto

lemma percent_unsafe: "path_safe c \<Longrightarrow> c \<noteq> CHR ''%''" "path_safe c \<Longrightarrow> c \<noteq> CHR ''/''"
  by (auto simp: path_safe_def Let_def)

lemma unescape_escape_byte: "path_unescape (escape_byte c @ s) = c # path_unescape s"
proof (cases "path_safe c")
  case True
  then show ?thesis by (simp add: escape_byte_def path_unescape_safe percent_unsafe)
next
  case False
  with nibble[of c] show ?thesis by (simp add: escape_byte_def unhex_hex del: of_char_mod_256)
qed

lemma unescape_PathEscape: "path_unescape (PathEscape s) = s"
  by (induction s) (simp_all add: PathEscape_def unescape_escape_byte)

lemma hex_upper_slash:
  assumes "d < 16"
  shows "hex_upper d \<noteq> CHR ''/''"
proof
  assume "hex_upper d = CHR ''/''"
  then have "(of_char (hex_upper d) :: nat) = of_char (CHR ''/'')" by simp
  with assms show False by (simp add: hex_upper_def split: if_splits)
qed

lemma escape_byte_slash: "CHR ''/'' \<notin> set (escape_byte c)"
proof -
  have "of_char c mod 16 < (16 :: nat)" by simp
  with nibble[of c] show ?thesis using hex_upper_slash[of "of_char c div 16"] hex_upper_slash[of "of_char c mod 16"]
    percent_unsafe(2)[of c] by (auto simp: escape_byte_def)
qed

lemma PathEscape_slash: "CHR ''/'' \<notin> set (PathEscape s)"
  by (induction s) (simp_all add: PathEscape_def escape_byte_slash)


lemma int_dec_slash: "CHR ''/'' \<notin> set (int_dec i)"
proof -
  have "\<not> is_digit (CHR ''/'')" by (simp add: is_digit_def)
  then have "CHR ''/'' \<notin> set (nat_dec n)" for n using nat_dec_digits by blast
  then show ?thesis by (simp add: int_dec_def)
qed

text \<open>What the collector recovers from a URL: the fields after the endpoint.\<close>

definition beacon_fields :: "request_log_entry \<Rightarrow> string list" where
  "beacon_fields e =
     [l_Domain e, int_dec (l_Status e), l_Path e, l_TargetURL e, l_ClientIP e,
      truncate_ua (l_UserAgent e), l_Referer e, l_Query e]"

lemma beacon_url_join:
  "beacon_url ep e = ep @ CHR ''/'' # join_on (CHR ''/'')
     [PathEscape (l_Domain e), int_dec (l_Status e), PathEscape (l_Path e),
      PathEscape (l_TargetURL e), PathEscape (l_ClientIP e),
      PathEscape (truncate_ua (l_UserAgent e)), PathEscape (l_Referer e), PathEscape (l_Query e)]"
  by (simp add: beacon_url_def)

lemma path_unescape_plain: "CHR ''%'' \<notin> set s \<Longrightarrow> path_unescape s = s"
  by (induction s) (auto simp: path_unescape_safe)

lemma unescape_int_dec: "path_unescape (int_dec i) = int_dec i"
proof -
  have "CHR ''%'' \<notin> set (nat_dec n)" for n
    using nat_dec_digits[of "CHR ''%''" n] by (auto simp: is_digit_def)
  then have "CHR ''%'' \<notin> set (int_dec i)" by (simp add: int_dec_def)
  then show ?thesis by (rule path_unescape_plain)
qed

text \<open>C34: A beacon URL decodes to its log entry: the part after the endpoint has exactly
  eight segments, which unescape to the fields of the entry in order, the user agent cut to
  200 bytes. So entries with the same URL agree on all of these fields.\<close>
theorem beacon_url_round_trip:
  "\<exists>rest. beacon_url ep e = ep @ CHR ''/'' # rest \<and>
     map path_unescape (split_on (CHR ''/'') rest) = beacon_fields e \<and>
     (\<forall>e'. beacon_url ep e = beacon_url ep e' \<longleftrightarrow> beacon_fields e = beacon_fields e')"
proof -
  define segs where "segs x = [PathEscape (l_Domain x), int_dec (l_Status x), PathEscape (l_Path x),
      PathEscape (l_TargetURL x), PathEscape (l_ClientIP x),
      PathEscape (truncate_ua (l_UserAgent x)), PathEscape (l_Referer x), PathEscape (l_Query x)]"
    for x :: request_log_entry
  have split: "split_on (CHR ''/'') (join_on (CHR ''/'') (segs x)) = segs x" for x
    by (rule split_join) (simp_all add: segs_def PathEscape_slash int_dec_slash)
  have fields: "map path_unescape (segs x) = beacon_fields x" for x
    by (simp add: segs_def beacon_fields_def unescape_PathEscape unescape_int_dec)
  have url: "beacon_url ep x = ep @ CHR ''/'' # join_on (CHR ''/'') (segs x)" for x
    unfolding beacon_url_join segs_def ..
  have same: "segs x = segs y" if "beacon_fields x = beacon_fields y" for x y
    using that by (simp add: segs_def beacon_fields_def)
  have "beacon_url ep e = beacon_url ep e' \<longleftrightarrow> beacon_fields e = beacon_fields e'" for e'
  proof
    assume "beacon_url ep e = beacon_url ep e'"
    then have "join_on (CHR ''/'') (segs e) = join_on (CHR ''/'') (segs e')" unfolding url by simp
    then have "segs e = segs e'" by (metis split)
    then show "beacon_fields e = beacon_fields e'" by (metis fields)
  next
    assume "beacon_fields e = beacon_fields e'"
    then have "segs e = segs e'" by (rule same)
    then show "beacon_url ep e = beacon_url ep e'" by (simp only: url)
  qed
  with url[of e] split[of e] fields[of e] show ?thesis by (intro exI[of _ "join_on (CHR ''/'') (segs e)"]) simp
qed

section \<open>The workers\<close>

fun in_flight :: "worker list \<Rightarrow> request_log_entry list" where
  "in_flight [] = []"
| "in_flight (Requesting e # ws) = e # in_flight ws"
| "in_flight (w # ws) = in_flight ws"

lemma in_flight_append [simp]: "in_flight (us @ ws) = in_flight us @ in_flight ws"
  by (induction us rule: in_flight.induct) simp_all

lemma in_flight_replicate [simp]:
  "in_flight (replicate n Waiting) = []" "in_flight (replicate n Returned) = []"
  by (induction n) simp_all

lemma in_flight_update:
  assumes "i < length ws"
  shows "mset (in_flight (ws[i := w])) + mset (in_flight [ws ! i]) = mset (in_flight ws) + mset (in_flight [w])"
proof -
  have "ws = take i ws @ ws ! i # drop (Suc i) ws" using assms by (rule id_take_nth_drop)
  then have "mset (in_flight ws) = mset (in_flight (take i ws)) + mset (in_flight [ws ! i]) +
      mset (in_flight (drop (Suc i) ws))"
    by (metis append_Cons append_Nil in_flight_append mset_append add.assoc)
  moreover have "mset (in_flight (ws[i := w])) = mset (in_flight (take i ws)) + mset (in_flight [w]) +
      mset (in_flight (drop (Suc i) ws))"
    by (metis append_Cons append_Nil in_flight_append mset_append add.assoc upd_conv_take_nth_drop[OF assms])
  ultimately show ?thesis by simp
qed

definition beacon_balanced :: "string \<Rightarrow> nat \<Rightarrow> request_log_entry list \<Rightarrow> sender \<Rightarrow> bool" where
  "beacon_balanced ep n acc s \<longleftrightarrow>
     sn_endpoint s = ep \<and> ch_cap (sn_ch s) = n \<and> chan_ok (sn_ch s) \<and> length (sn_workers s) = 4 \<and>
     (Returned \<in> set (sn_workers s) \<longrightarrow> sn_done s) \<and>
     image_mset (beacon_url ep) (mset acc) = mset (sn_sent s) +
       image_mset (beacon_url ep) (mset (in_flight (sn_workers s)) + mset (ch_buf (sn_ch s)))"

lemma balanced_worker_step:
  assumes "worker_step s s'" and "beacon_balanced ep n acc s"
  shows "beacon_balanced ep n acc s'"
  using assms(1)
proof cases
  case (receive i e c)
  note r = gochan.recv_Some[OF _ receive(4)]
  have "chan_ok (sn_ch s)" using assms(2) by (simp add: beacon_balanced_def)
  note r = r[OF this]
  from in_flight_update[OF receive(2), of "Requesting e"]
  have "mset (in_flight ((sn_workers s)[i := Requesting e])) = add_mset e (mset (in_flight (sn_workers s)))"
    by (simp add: receive(3))
  with r receive(1) assms(2) show ?thesis
    by (auto simp: beacon_balanced_def dest: set_update_subset_insert[THEN subsetD])
next
  case (send i e)
  from in_flight_update[OF send(2), of Waiting]
  have "mset (in_flight (sn_workers s)) = add_mset e (mset (in_flight ((sn_workers s)[i := Waiting])))"
    by (simp add: send(3))
  with send(1) assms(2) show ?thesis
    by (auto simp: beacon_balanced_def dest: set_update_subset_insert[THEN subsetD])
next
  case (stop i)
  from in_flight_update[OF stop(2), of Returned]
  have "mset (in_flight ((sn_workers s)[i := Returned])) = mset (in_flight (sn_workers s))"
    by (simp add: stop(3))
  with stop(1,4) assms(2) show ?thesis by (simp add: beacon_balanced_def)
qed

lemma beacon_run_balanced: "beacon_run ep n acc s \<Longrightarrow> beacon_balanced ep n acc s"
proof (induction rule: beacon_run.induct)
  case created
  show ?case by (simp add: beacon_balanced_def Start_beacon_def NewSender_def)
next
  case (offered acc s e s')
  then have ok: "chan_ok (sn_ch s)" by (simp add: beacon_balanced_def)
  obtain b c where c: "try_send e (sn_ch s) = (b, c)" by fastforce
  with offered(2) have "b" "s' = s\<lparr>sn_ch := c\<rparr>" by (auto simp: offer_beacon_def)
  with gochan.send_contents[OF ok, of e] gochan.send_ok[OF ok, of e] gochan.send_room[OF ok, of e] c
    offered.IH show ?case by (simp add: beacon_balanced_def)
next
  case (dropped acc s e s')
  then have ok: "chan_ok (sn_ch s)" by (simp add: beacon_balanced_def)
  obtain b c where c: "try_send e (sn_ch s) = (b, c)" by fastforce
  with dropped(2) have "\<not> b" "s' = s\<lparr>sn_ch := c\<rparr>" by (auto simp: offer_beacon_def)
  with gochan.send_contents[OF ok, of e] gochan.send_ok[OF ok, of e] gochan.send_room[OF ok, of e] c
    dropped.IH show ?case by (simp add: beacon_balanced_def)
next
  case (worked acc s s')
  then show ?case by (blast intro: balanced_worker_step)
next
  case (stopped acc s)
  then show ?case by (simp add: beacon_balanced_def Stop_beacon_def)
qed

text \<open>Every step of a worker uses up some of the pending work.\<close>

fun live :: "worker list \<Rightarrow> nat" where
  "live [] = 0"
| "live (w # ws) = (if w = Returned then 0 else 1) + live ws"

definition pending :: "sender \<Rightarrow> nat" where
  "pending s = 2 * length (ch_buf (sn_ch s)) + length (in_flight (sn_workers s)) + live (sn_workers s)"

lemma live_update:
  "i < length ws \<Longrightarrow> live (ws[i := w]) + (if ws ! i = Returned then 0 else 1) =
    live ws + (if w = Returned then 0 else 1)"
proof (induction ws arbitrary: i)
  case Nil
  then show ?case by simp
next
  case (Cons v vs)
  show ?case
  proof (cases i)
    case (Suc k)
    with Cons.prems Cons.IH[of k] show ?thesis by simp
  qed simp
qed

lemma length_in_flight_update:
  "i < length ws \<Longrightarrow> length (in_flight (ws[i := w])) + length (in_flight [ws ! i]) =
    length (in_flight ws) + length (in_flight [w])"
  using arg_cong[OF in_flight_update, of i ws size w] by simp

lemma worker_step_pending: "worker_step s s' \<Longrightarrow> chan_ok (sn_ch s) \<Longrightarrow> pending s' < pending s"
proof (induction rule: worker_step.induct)
  case (receive i s e c)
  from gochan.recv_Some[OF receive(4,3)] live_update[OF receive(1), of "Requesting e"]
    length_in_flight_update[OF receive(1), of "Requesting e"] receive(2)
  show ?case by (simp add: pending_def)
next
  case (send i s e)
  from live_update[OF send(1), of Waiting] length_in_flight_update[OF send(1), of Waiting] send(2)
  show ?case by (simp add: pending_def)
next
  case (stop i s)
  from live_update[OF stop(1), of Returned] length_in_flight_update[OF stop(1), of Returned] stop(2)
  show ?case by (simp add: pending_def)
qed

lemma in_flight_Nil: "in_flight ws = [] \<longleftrightarrow> (\<forall>w \<in> set ws. \<forall>e. w \<noteq> Requesting e)"
  by (induction ws rule: in_flight.induct) auto

lemma idle_workers:
  assumes "beacon_balanced ep n acc s" and "\<not> sn_done s" and "\<nexists>t. worker_step s t"
  shows "ch_buf (sn_ch s) = [] \<and> in_flight (sn_workers s) = []"
proof -
  have no_request: "w \<noteq> Requesting e" if "w \<in> set (sn_workers s)" for w e
    using that assms(3) worker_step.send by (metis in_set_conv_nth)
  then have f: "in_flight (sn_workers s) = []" by (simp add: in_flight_Nil)
  have "0 < length (sn_workers s)" using assms(1) by (simp add: beacon_balanced_def)
  moreover from this have "sn_workers s ! 0 \<in> set (sn_workers s)" by (rule nth_mem)
  moreover have "Returned \<notin> set (sn_workers s)" using assms(1,2) by (auto simp: beacon_balanced_def)
  ultimately have "sn_workers s ! 0 = Waiting"
    using no_request by (metis worker.exhaust)
  with \<open>0 < length (sn_workers s)\<close> assms(3) have "try_recv (sn_ch s) = None"
    using worker_step.receive by (metis option.exhaust surj_pair)
  with f show ?thesis by (auto simp: try_recv_def split: list.splits)
qed

text \<open>Steps of the workers alone.\<close>

inductive worker_steps :: "nat \<Rightarrow> sender \<Rightarrow> sender \<Rightarrow> bool" where
  none: "worker_steps 0 s s"
| more: "worker_step s s1 \<Longrightarrow> worker_steps k s1 s2 \<Longrightarrow> worker_steps (Suc k) s s2"

lemma worker_steps_run:
  "worker_steps k s s' \<Longrightarrow> beacon_run ep n acc s \<Longrightarrow> beacon_run ep n acc s'"
  by (induction rule: worker_steps.induct) (blast intro: beacon_run.worked)+

lemma worker_step_done: "worker_step s s' \<Longrightarrow> sn_done s' = sn_done s"
  by (auto elim: worker_stepE)

lemma worker_steps_done: "worker_steps k s s' \<Longrightarrow> sn_done s' = sn_done s"
  by (induction rule: worker_steps.induct) (simp_all add: worker_step_done)

lemma worker_steps_pending:
  assumes "worker_steps k s s'" and "beacon_balanced ep n acc s"
  shows "k + pending s' \<le> pending s"
  using assms
proof (induction rule: worker_steps.induct)
  case (more s s1 k s2)
  have "pending s1 < pending s"
    using worker_step_pending[OF more.hyps(1)] more.prems by (simp add: beacon_balanced_def)
  with more.IH[OF balanced_worker_step[OF more.hyps(1) more.prems]] show ?case by simp
qed simp

text \<open>The workers can always go on until no step is left.\<close>

lemma worker_steps_rest:
  assumes "beacon_balanced ep n acc s"
  shows "\<exists>k s'. worker_steps k s s' \<and> (\<nexists>t. worker_step s' t)"
  using assms
proof (induction "pending s" arbitrary: s rule: less_induct)
  case less
  show ?case
  proof (cases "\<exists>t. worker_step s t")
    case True
    then obtain t where t: "worker_step s t" by blast
    have "pending t < pending s"
      using worker_step_pending[OF t] less.prems by (simp add: beacon_balanced_def)
    from less.hyps[OF this balanced_worker_step[OF t less.prems]] obtain k s'
      where "worker_steps k t s'" "\<nexists>u. worker_step s' u" by blast
    with worker_steps.more[OF t] show ?thesis by blast
  next
    case False
    with worker_steps.none show ?thesis by blast
  qed
qed

lemma workers_returned:
  assumes "beacon_balanced ep n acc s" and "sn_done s" and "\<nexists>t. worker_step s t"
  shows "sn_workers s = replicate 4 Returned"
proof -
  have "w = Returned" if "w \<in> set (sn_workers s)" for w
  proof -
    from that obtain i where i: "i < length (sn_workers s)" "sn_workers s ! i = w"
      by (auto simp: in_set_conv_nth)
    show ?thesis
    proof (cases w)
      case Waiting
      with worker_step.stop[OF i(1)] i(2) assms(2,3) show ?thesis by blast
    next
      case (Requesting e)
      with worker_step.send[OF i(1)] i(2) assms(3) show ?thesis by blast
    qed
  qed
  moreover have "length (sn_workers s) = 4" using assms(1) by (simp add: beacon_balanced_def)
  ultimately show ?thesis by (metis replicate_eqI)
qed

text \<open>C35: Every accepted log entry is sent at most once and is never lost while the sender
  runs: at any time the URLs sent, the entries in the four requests and those in the channel
  are exactly the accepted ones. Each step of a worker uses up pending work, so the workers
  come to rest, and when they do before \<open>Stop\<close> every accepted entry has been sent exactly
  once; entries dropped by a full channel are the only ones missing. Called in any state,
  \<open>Stop\<close> stops the workers: from there they take at most \<open>pending\<close> steps (each HTTP request
  counting as a step that ends), and when no step is left all four have returned. What was in
  a request has then been sent; what was still in the channel may stay there unsent.\<close>
theorem beacon_sends_once:
  assumes "beacon_run ep n acc s"
  shows "image_mset (beacon_url ep) (mset acc) = mset (sn_sent s) +
      image_mset (beacon_url ep) (mset (in_flight (sn_workers s)) + mset (ch_buf (sn_ch s))) \<and>
    (\<forall>t. worker_step s t \<longrightarrow> pending t < pending s) \<and>
    (\<not> sn_done s \<and> (\<nexists>t. worker_step s t) \<longrightarrow>
      image_mset (beacon_url ep) (mset acc) = mset (sn_sent s)) \<and>
    (\<exists>k t. worker_steps k (Stop_beacon s) t \<and> sn_workers t = replicate 4 Returned) \<and>
    (\<forall>k t. worker_steps k (Stop_beacon s) t \<longrightarrow> k \<le> pending s \<and>
      ((\<nexists>u. worker_step t u) \<longrightarrow> sn_workers t = replicate 4 Returned \<and>
        image_mset (beacon_url ep) (mset acc) =
          mset (sn_sent t) + image_mset (beacon_url ep) (mset (ch_buf (sn_ch t)))))"
proof -
  note bal = beacon_run_balanced[OF assms]
  have eq: "image_mset (beacon_url ep) (mset acc) = mset (sn_sent s) +
      image_mset (beacon_url ep) (mset (in_flight (sn_workers s)) + mset (ch_buf (sn_ch s)))"
    using bal by (simp add: beacon_balanced_def)
  have less: "\<forall>t. worker_step s t \<longrightarrow> pending t < pending s"
    using bal worker_step_pending by (auto simp: beacon_balanced_def)
  note run = beacon_run.stopped[OF assms]
  note bal' = beacon_run_balanced[OF run]
  have stop: "sn_done (Stop_beacon s)" "pending (Stop_beacon s) = pending s"
    by (simp_all add: Stop_beacon_def pending_def)
  have ends: "sn_workers t = replicate 4 Returned \<and> image_mset (beacon_url ep) (mset acc) =
      mset (sn_sent t) + image_mset (beacon_url ep) (mset (ch_buf (sn_ch t)))"
    if st: "worker_steps k (Stop_beacon s) t" and "\<nexists>u. worker_step t u" for k t
  proof -
    note b = beacon_run_balanced[OF worker_steps_run[OF st run]]
    from workers_returned[OF b _ that(2)] worker_steps_done[OF st] stop(1) b show ?thesis
      by (simp add: beacon_balanced_def)
  qed
  have "\<exists>k t. worker_steps k (Stop_beacon s) t \<and> sn_workers t = replicate 4 Returned"
    using worker_steps_rest[OF bal'] ends by blast
  moreover have "k \<le> pending s" if "worker_steps k (Stop_beacon s) t" for k t
    using worker_steps_pending[OF that bal'] stop(2) by simp
  ultimately show ?thesis using eq less idle_workers[OF bal] ends by auto
qed

definition demo_hit :: request_log_entry where
  "demo_hit = \<lparr>l_Domain = ''old.example'', l_Path = ''/a/b'', l_Query = [], l_Status = 301,
     l_TargetURL = ''https://new.example'', l_ClientIP = ''10.0.0.1'', l_UserAgent = ''curl'', l_Referer = []\<rparr>"

theorem beacon_sends_once_witness:
  "\<exists>s. beacon_run ''https://b'' 1 [demo_hit] s \<and>
    mset (sn_sent s) + image_mset (beacon_url ''https://b'') (mset (in_flight (sn_workers s)) +
      mset (ch_buf (sn_ch s))) = {#beacon_url ''https://b'' demo_hit#} \<and>
    (\<exists>k t. worker_steps k (Stop_beacon s) t \<and> sn_workers t = replicate 4 Returned)"
proof -
  let ?s = "Start_beacon (NewSender ''https://b'' 1)"
  obtain s' where "offer_beacon demo_hit ?s = (True, s')"
    by (simp add: offer_beacon_def Start_beacon_def NewSender_def try_send_def make_chan_def)
  with beacon_run.offered[OF beacon_run.created] have run: "beacon_run ''https://b'' 1 [demo_hit] s'"
    by fastforce
  from beacon_sends_once[OF run] run show ?thesis by auto
qed

end
