(* ===== verification/Pipeline.thy ===== *)
theory Pipeline
  imports Chan Store_Logs
begin

text \<open>
  \<open>internal/analytics/pipeline.go\<close>: the goroutine that writes log entries in batches, with
  its drain on shutdown, and the one that rolls the log up.
\<close>

section \<open>State\<close>

text \<open>The writer is in its main loop, in the loop that drains the channel, or has returned.\<close>

datatype writer_phase = Running | Draining | Finished

record pipeline =
  pl_store :: db
  pl_ch :: "request_log_entry chan"
  pl_done :: bool
  pl_batch :: "request_log_entry list"
  pl_phase :: writer_phase

definition batchSize :: nat where
  "batchSize = 100"

definition NewPipeline :: "db \<Rightarrow> nat \<Rightarrow> pipeline" where
  "NewPipeline s bufferSize =
     \<lparr>pl_store = s, pl_ch = make_chan bufferSize, pl_done = False, pl_batch = [], pl_phase = Running\<rparr>"

definition Stop_pipeline :: "pipeline \<Rightarrow> pipeline" where
  "Stop_pipeline p = p\<lparr>pl_done := True\<rparr>"

definition offer_log :: "request_log_entry \<Rightarrow> pipeline \<Rightarrow> bool \<times> pipeline" where
  "offer_log e p = (case try_send e (pl_ch p) of (ok, c) \<Rightarrow> (ok, p\<lparr>pl_ch := c\<rparr>))"

section \<open>The batch writer\<close>

text \<open>\<open>flush\<close>: the batch is emptied whatever the outcome, which is only logged. The list
  records the batch that was handed to the store and whether it was written.\<close>

definition flush :: "sqlenv \<Rightarrow> pipeline \<Rightarrow> (request_log_entry list \<times> bool) list \<times> pipeline" where
  "flush env p =
     (if pl_batch p = [] then ([], p)
      else (case BatchInsertLogs env (pl_batch p) (pl_store p) of
              (r, s) \<Rightarrow> ([(pl_batch p, \<not> isl r)], p\<lparr>pl_store := s, pl_batch := []\<rparr>)))"

definition receive_entry ::
  "sqlenv \<Rightarrow> request_log_entry \<Rightarrow> request_log_entry chan \<Rightarrow> pipeline \<Rightarrow>
   (request_log_entry list \<times> bool) list \<times> pipeline" where
  "receive_entry env e c p =
     (let p' = p\<lparr>pl_ch := c, pl_batch := pl_batch p @ [e]\<rparr> in
      if batchSize \<le> length (pl_batch p') then flush env p' else ([], p'))"

text \<open>One step of \<open>batchWriter\<close>. The channel is never closed in this program.\<close>

inductive writer_step ::
  "sqlenv \<Rightarrow> pipeline \<Rightarrow> (request_log_entry list \<times> bool) list \<Rightarrow> pipeline \<Rightarrow> bool" for env where
  receive: "pl_phase p = Running \<Longrightarrow> try_recv (pl_ch p) = Some (e, c) \<Longrightarrow>
     receive_entry env e c p = (fs, p') \<Longrightarrow> writer_step env p fs p'"
| tick: "pl_phase p = Running \<Longrightarrow> flush env p = (fs, p') \<Longrightarrow> writer_step env p fs p'"
| stop: "pl_phase p = Running \<Longrightarrow> pl_done p \<Longrightarrow> writer_step env p [] (p\<lparr>pl_phase := Draining\<rparr>)"
| drain: "pl_phase p = Draining \<Longrightarrow> try_recv (pl_ch p) = Some (e, c) \<Longrightarrow>
     writer_step env p [] (p\<lparr>pl_ch := c, pl_batch := pl_batch p @ [e]\<rparr>)"
| finish: "pl_phase p = Draining \<Longrightarrow> try_recv (pl_ch p) = None \<Longrightarrow> flush env p = (fs, p') \<Longrightarrow>
     writer_step env p fs (p'\<lparr>pl_phase := Finished\<rparr>)"

inductive_cases writer_stepE: "writer_step env p fs p'"

text \<open>Steps of the writer alone.\<close>

inductive writer_steps ::
  "sqlenv \<Rightarrow> nat \<Rightarrow> pipeline \<Rightarrow> (request_log_entry list \<times> bool) list \<Rightarrow> pipeline \<Rightarrow> bool" for env where
  none: "writer_steps env 0 p [] p"
| more: "writer_step env p fs p1 \<Longrightarrow> writer_steps env k p1 gs p2 \<Longrightarrow>
     writer_steps env (Suc k) p (fs @ gs) p2"

text \<open>The writer among its environment: the engine offers entries, other goroutines use the
  store without touching the log, \<open>Stop\<close> is called. The accepted entries and the flushed
  batches are recorded.\<close>

inductive pipeline_run ::
  "sqlenv \<Rightarrow> db \<Rightarrow> nat \<Rightarrow> request_log_entry list \<Rightarrow> (request_log_entry list \<times> bool) list \<Rightarrow> pipeline \<Rightarrow> bool"
  for env s0 n where
  created: "pipeline_run env s0 n [] [] (NewPipeline s0 n)"
| offered: "pipeline_run env s0 n acc fl p \<Longrightarrow> offer_log e p = (True, p') \<Longrightarrow>
     pipeline_run env s0 n (acc @ [e]) fl p'"
| dropped: "pipeline_run env s0 n acc fl p \<Longrightarrow> offer_log e p = (False, p') \<Longrightarrow>
     pipeline_run env s0 n acc fl p'"
| wrote: "pipeline_run env s0 n acc fl p \<Longrightarrow> writer_step env p fs p' \<Longrightarrow>
     pipeline_run env s0 n acc (fl @ fs) p'"
| stopped: "pipeline_run env s0 n acc fl p \<Longrightarrow> pipeline_run env s0 n acc fl (Stop_pipeline p)"
| others: "pipeline_run env s0 n acc fl p \<Longrightarrow> request_log s = request_log (pl_store p) \<Longrightarrow>
     pipeline_run env s0 n acc fl (p\<lparr>pl_store := s\<rparr>)"

section \<open>The rollup worker\<close>

text \<open>Errors are only logged, so the second rollup runs whatever the first returned.\<close>

definition runRollup :: "sqlenv \<Rightarrow> time \<Rightarrow> db \<Rightarrow> db" where
  "runRollup env now s = snd (RunRollup env now (snd (RunRollup env (now - hour) s)))"

text \<open>One rollup on startup, one per tick.\<close>

fun rollupWorker :: "sqlenv \<Rightarrow> time \<Rightarrow> time list \<Rightarrow> db \<Rightarrow> db" where
  "rollupWorker env start [] s = runRollup env start s"
| "rollupWorker env start (t # ts) s = rollupWorker env t ts (runRollup env start s)"

end
