(* ===== verification/Pipeline_Props.thy ===== *)
theory Pipeline_Props
  imports Pipeline Store_Logs_Props
begin

text \<open>
  The analytics writer refines a queue in front of the log: entries are written in the order
  they were accepted, once, in batches of at most a hundred while it runs, and its drain ends.
\<close>

text \<open>The entries written, in the batches that succeeded, and all entries handed over.\<close>

definition handed :: "(request_log_entry list \<times> bool) list \<Rightarrow> request_log_entry list" where
  "handed fl = concat (map fst fl)"

definition written :: "(request_log_entry list \<times> bool) list \<Rightarrow> request_log_entry list" where
  "written fl = concat (map fst (filter snd fl))"

lemma handed_append [simp]: "handed (fl @ gl) = handed fl @ handed gl" "handed [] = []"
  by (simp_all add: handed_def)

lemma written_append [simp]: "written (fl @ gl) = written fl @ written gl" "written [] = []"
  by (simp_all add: written_def)

abbreviation log_entries :: "db \<Rightarrow> request_log_entry list" where
  "log_entries s \<equiv> map lr_entry (request_log s)"

lemma flush_effect:
  assumes "flush env p = (fs, p')"
  shows "pl_batch p' = [] \<and> pl_ch p' = pl_ch p \<and> pl_done p' = pl_done p \<and> pl_phase p' = pl_phase p \<and>
    handed fs = pl_batch p \<and> log_entries (pl_store p') = log_entries (pl_store p) @ written fs"
proof (cases "pl_batch p = []")
  case True
  with assms show ?thesis by (simp add: flush_def)
next
  case False
  obtain r s where b: "BatchInsertLogs env (pl_batch p) (pl_store p) = (r, s)" by fastforce
  with False assms have f: "fs = [(pl_batch p, \<not> isl r)]" "p' = p\<lparr>pl_store := s, pl_batch := []\<rparr>"
    by (auto simp: flush_def)
  show ?thesis
  proof (cases r)
    case (Inl e)
    with b BatchInsertLogs_error[of env "pl_batch p" "pl_store p" e s] f show ?thesis
      by (simp add: handed_def written_def same_tables_def)
  next
    case (Inr u)
    with b BatchInsertLogs_success[of env "pl_batch p" "pl_store p" u s] f show ?thesis
      by (simp add: handed_def written_def rows_of_def comp_def)
  qed
qed

definition pipeline_inv ::
  "db \<Rightarrow> nat \<Rightarrow> request_log_entry list \<Rightarrow> (request_log_entry list \<times> bool) list \<Rightarrow> pipeline \<Rightarrow> bool" where
  "pipeline_inv s0 n acc fl p \<longleftrightarrow>
     acc = handed fl @ pl_batch p @ ch_buf (pl_ch p) \<and>
     log_entries (pl_store p) = log_entries s0 @ written fl \<and>
     chan_ok (pl_ch p) \<and> ch_cap (pl_ch p) = n \<and>
     (pl_phase p = Running \<longrightarrow> length (pl_batch p) < batchSize) \<and>
     (pl_phase p \<noteq> Running \<longrightarrow> pl_done p) \<and> (pl_phase p = Finished \<longrightarrow> pl_batch p = [])"

lemma try_recv_buf: "try_recv c = Some (e, c') \<Longrightarrow> ch_buf c = e # ch_buf c' \<and> ch_cap c' = ch_cap c"
  by (auto simp: try_recv_def split: list.splits)

lemma receive_entry_effect:
  assumes "receive_entry env e c p = (fs, p')" and "length (pl_batch p) < batchSize"
  shows "pl_ch p' = c \<and> pl_done p' = pl_done p \<and> pl_phase p' = pl_phase p \<and>
    handed fs @ pl_batch p' = pl_batch p @ [e] \<and> length (pl_batch p') < batchSize \<and>
    log_entries (pl_store p') = log_entries (pl_store p) @ written fs"
proof -
  let ?p = "p\<lparr>pl_ch := c, pl_batch := pl_batch p @ [e]\<rparr>"
  show ?thesis
  proof (cases "batchSize \<le> length (pl_batch ?p)")
    case True
    with assms(1) have "flush env ?p = (fs, p')" by (simp add: receive_entry_def Let_def)
    from flush_effect[OF this] assms(2) show ?thesis by (auto simp: batchSize_def)
  next
    case False
    with assms(1) show ?thesis by (auto simp: receive_entry_def Let_def)
  qed
qed

lemma writer_step_inv:
  assumes "writer_step env p fs p'" and "pipeline_inv s0 n acc fl p"
  shows "pipeline_inv s0 n acc (fl @ fs) p'"
  using assms(1)
proof cases
  case (receive e c)
  have "length (pl_batch p) < batchSize" using assms(2) receive(1) by (simp add: pipeline_inv_def)
  note r = receive_entry_effect[OF receive(3) this]
  have h: "handed (fl @ fs) @ pl_batch p' = handed fl @ pl_batch p @ [e]" using r by simp
  from try_recv_buf[OF receive(2)] r assms(2) receive(1) show ?thesis
    by (simp add: pipeline_inv_def chan_ok_def)
next
  case tick
  from flush_effect[OF tick(2)] assms(2) tick(1) show ?thesis
    by (auto simp: pipeline_inv_def batchSize_def)
next
  case stop
  with assms(2) show ?thesis by (auto simp: pipeline_inv_def)
next
  case (drain e c)
  from try_recv_buf[OF drain(4)] assms(2) drain(1-3) show ?thesis
    by (auto simp: pipeline_inv_def chan_ok_def)
next
  case (finish q)
  from flush_effect[OF finish(4)] assms(2) finish(1,2) show ?thesis
    by (auto simp: pipeline_inv_def)
qed

lemma pipeline_run_inv: "pipeline_run env s0 n acc fl p \<Longrightarrow> pipeline_inv s0 n acc fl p"
proof (induction rule: pipeline_run.induct)
  case created
  show ?case by (simp add: pipeline_inv_def NewPipeline_def batchSize_def)
next
  case (offered acc fl p e p')
  then have ok: "chan_ok (pl_ch p)" by (simp add: pipeline_inv_def)
  obtain b c where c: "try_send e (pl_ch p) = (b, c)" by fastforce
  with offered(2) have "b" "p' = p\<lparr>pl_ch := c\<rparr>" by (auto simp: offer_log_def)
  with gochan.send_contents[OF ok, of e] gochan.send_ok[OF ok, of e] gochan.send_room[OF ok, of e] c
    offered.IH show ?case by (simp add: pipeline_inv_def)
next
  case (dropped acc fl p e p')
  then have ok: "chan_ok (pl_ch p)" by (simp add: pipeline_inv_def)
  obtain b c where c: "try_send e (pl_ch p) = (b, c)" by fastforce
  with dropped(2) have "\<not> b" "p' = p\<lparr>pl_ch := c\<rparr>" by (auto simp: offer_log_def)
  with gochan.send_contents[OF ok, of e] gochan.send_ok[OF ok, of e] gochan.send_room[OF ok, of e] c
    dropped.IH show ?case by (simp add: pipeline_inv_def)
next
  case (wrote acc fl p fs p')
  then show ?case by (blast intro: writer_step_inv)
next
  case (stopped acc fl p)
  then show ?case by (simp add: pipeline_inv_def Stop_pipeline_def)
next
  case (others acc fl p s)
  then show ?case by (simp add: pipeline_inv_def)
qed


section \<open>The drain\<close>

inductive_simps no_writer_step: "writer_steps env 0 p fs p'"
inductive_cases writer_stepsE: "writer_steps env (Suc k) p fs p'"

lemma finished_is_final:
  assumes "pl_phase p = Finished" shows "\<not> writer_step env p fs p'"
  using assms by (auto elim!: writer_stepE)

lemma try_recv_None: "try_recv c = None \<longleftrightarrow> ch_buf c = []"
  by (auto simp: try_recv_def split: list.splits)

text \<open>Once draining, every step takes one entry off the channel or is the last.\<close>

definition drain_left :: "pipeline \<Rightarrow> nat" where
  "drain_left p = (case pl_phase p of Draining \<Rightarrow> length (ch_buf (pl_ch p)) + 1 | _ \<Rightarrow> 0)"

lemma drain_step:
  assumes "writer_step env p fs p'" and "pl_phase p \<noteq> Running"
  shows "drain_left p = Suc (drain_left p') \<and> pl_phase p' \<noteq> Running \<and>
    (pl_phase p' = Finished \<longrightarrow> ch_buf (pl_ch p') = [])"
  using assms(1)
proof cases
  case (drain e c)
  from try_recv_buf[OF drain(4)] drain show ?thesis by (simp add: drain_left_def)
next
  case (finish p1)
  with try_recv_None[of "pl_ch p"] flush_effect[OF finish(4)] show ?thesis
    by (simp add: drain_left_def)
qed (use assms(2) in simp_all)

lemma drain_progress:
  assumes "pl_phase p = Draining"
  shows "\<exists>fs p'. writer_step env p fs p'"
proof (cases "try_recv (pl_ch p)")
  case None
  obtain fs p' where "flush env p = (fs, p')" by fastforce
  from writer_step.finish[OF assms None this] show ?thesis by blast
next
  case (Some ec)
  obtain e c where "ec = (e, c)" by fastforce
  with writer_step.drain[OF assms, of e c env] Some show ?thesis by blast
qed

lemma drain_bound:
  assumes "writer_steps env k p fs p'" and "pl_phase p \<noteq> Running"
  shows "drain_left p = k + drain_left p' \<and> pl_phase p' \<noteq> Running"
  using assms
proof (induction rule: writer_steps.induct)
  case (none p)
  then show ?case by simp
next
  case (more p fs p1 k gs p2)
  from drain_step[OF more.hyps(1) more.prems] more.IH show ?case by simp
qed

lemma drain_reaches_end:
  assumes "drain_left p = k" and "pl_phase p \<noteq> Running"
  shows "\<exists>fs p'. writer_steps env k p fs p' \<and> pl_phase p' = Finished"
  using assms
proof (induction k arbitrary: p)
  case 0
  then have "pl_phase p = Finished"
    by (cases "pl_phase p") (simp_all add: drain_left_def)
  with writer_steps.none show ?case by blast
next
  case (Suc k)
  then have "pl_phase p = Draining"
    by (cases "pl_phase p") (simp_all add: drain_left_def)
  with drain_progress obtain fs p1 where s: "writer_step env p fs p1" by blast
  with drain_step[OF s] Suc.prems have d: "drain_left p1 = k" "pl_phase p1 \<noteq> Running" by auto
  from Suc.IH[OF d] obtain gs p2 where w: "writer_steps env k p1 gs p2" "pl_phase p2 = Finished"
    by blast
  from writer_steps.more[OF s w(1)] w(2) show ?case by blast
qed

lemma writer_steps_run:
  assumes "writer_steps env k p gs p'" and "pipeline_run env s0 n acc fl p"
  shows "pipeline_run env s0 n acc (fl @ gs) p'"
  using assms
proof (induction arbitrary: fl rule: writer_steps.induct)
  case (more p fs p1 k gs p2)
  from more.IH[OF pipeline_run.wrote[OF more.prems more.hyps(1)]] show ?case by simp
qed simp

section \<open>Properties\<close>

text \<open>C39: at any time in any run, the entries the channel accepted are, in the order they
  were accepted, those handed to the store, then the batch, then the channel; the log is the
  old log followed by the batches that were written, each whole and in order (a batch that
  failed is lost whole); the channel stays within its capacity and, while the writer runs, the
  batch stays below a hundred.\<close>
theorem pipeline_keeps_log_order:
  assumes "pipeline_run env s0 n acc fl p"
  shows "acc = handed fl @ pl_batch p @ ch_buf (pl_ch p) \<and>
    log_entries (pl_store p) = log_entries s0 @ written fl \<and>
    length (ch_buf (pl_ch p)) \<le> n \<and> (pl_phase p = Running \<longrightarrow> length (pl_batch p) < 100)"
  using pipeline_run_inv[OF assms] by (simp add: pipeline_inv_def chan_ok_def batchSize_def)

text \<open>After \<open>Stop\<close> the writer alone either still runs, and can take its stop, or drains.\<close>

lemma writer_step_done: "writer_step env p fs p' \<Longrightarrow> pl_done p' = pl_done p"
proof (induction rule: writer_step.induct)
  case (receive p e c fs p')
  then show ?case
    using flush_effect by (fastforce simp: receive_entry_def Let_def split: if_splits)
qed (use flush_effect in fastforce)+

lemma writer_steps_done: "writer_steps env k p fs p' \<Longrightarrow> pl_done p' = pl_done p"
  by (induction rule: writer_steps.induct) (simp_all add: writer_step_done)

lemma finished_stays:
  "writer_steps env k p fs p' \<Longrightarrow> pl_phase p = Finished \<Longrightarrow> k = 0 \<and> p' = p"
  by (erule writer_steps.cases) (auto dest: finished_is_final)

lemma drain_exact:
  assumes "pl_phase p = Draining" and "writer_steps env k p gs p'"
  shows "k \<le> length (ch_buf (pl_ch p)) + 1 \<and> (k = length (ch_buf (pl_ch p)) + 1 \<longleftrightarrow> pl_phase p' = Finished)"
proof -
  have "pl_phase p \<noteq> Running" using assms(1) by simp
  from drain_bound[OF assms(2) this] assms(1) show ?thesis
    by (cases "pl_phase p'") (simp_all add: drain_left_def)
qed

lemma stopped_writer_returns:
  assumes "pl_done p"
  shows "\<exists>k \<le> length (ch_buf (pl_ch p)) + 2. \<exists>fs p'. writer_steps env k p fs p' \<and> pl_phase p' = Finished"
proof (cases "pl_phase p")
  case Running
  let ?p = "p\<lparr>pl_phase := Draining\<rparr>"
  obtain fs p' where "writer_steps env (drain_left ?p) ?p fs p'" "pl_phase p' = Finished"
    using drain_reaches_end[OF refl, of ?p env] by force
  with writer_steps.more[OF writer_step.stop[OF Running assms]]
  have "writer_steps env (Suc (drain_left ?p)) p ([] @ fs) p'" "pl_phase p' = Finished" by blast+
  moreover have "Suc (drain_left ?p) \<le> length (ch_buf (pl_ch p)) + 2" by (simp add: drain_left_def)
  ultimately show ?thesis by blast
next
  case Draining
  then obtain fs p' where "writer_steps env (drain_left p) p fs p'" "pl_phase p' = Finished"
    using drain_reaches_end[OF refl, of p env] by auto
  moreover have "drain_left p \<le> length (ch_buf (pl_ch p)) + 2" using Draining by (simp add: drain_left_def)
  ultimately show ?thesis by blast
next
  case Finished
  with writer_steps.none show ?thesis by blast
qed

lemma returned_writer_handed_all:
  assumes "pipeline_run env s0 n acc fl p" and "pl_phase p = Finished" and "ch_buf (pl_ch p) = []"
  shows "pl_batch p = [] \<and> handed fl = acc"
  using pipeline_run_inv[OF assms(1)] assms(2,3) by (simp add: pipeline_inv_def)

text \<open>A writer that starts before its return leaves the channel empty when it returns.\<close>

lemma writer_steps_empty:
  "writer_steps env k p gs p' \<Longrightarrow> pl_phase p \<noteq> Finished \<Longrightarrow> pl_phase p' = Finished \<Longrightarrow>
    ch_buf (pl_ch p') = []"
proof (induction rule: writer_steps.induct)
  case (more p fs p1 k gs p2)
  show ?case
  proof (cases "pl_phase p1 = Finished")
    case True
    with finished_stays[OF more.hyps(2)] have "p2 = p1" by simp
    moreover have "pl_phase p \<noteq> Running"
    proof
      assume "pl_phase p = Running"
      with more.hyps(1) have "pl_phase p1 \<noteq> Finished"
        by (cases rule: writer_step.cases)
          (use flush_effect in \<open>fastforce simp: receive_entry_def Let_def split: if_splits\<close>)+
      with True show False by simp
    qed
    ultimately show ?thesis using drain_step[OF more.hyps(1)] True by simp
  next
    case False
    with more.IH more.prems show ?thesis by simp
  qed
qed simp

text \<open>C40: Called at any time before the writer has returned, \<open>Stop\<close> makes it return, unless
  more entries are offered: within one step per entry in the channel and two more it can have
  returned. Whatever steps it takes instead, as long as it is in its main loop the stop is one
  of the branches of its \<open>select\<close> (the choice among ready branches is left to the
  scheduler, which the claim does not assume fair); once it has taken it, the drain takes exactly
  one step per entry in the channel and one to finish. When it has returned, the channel and the
  batch are empty and every entry that was ever accepted has been handed to the store.\<close>
theorem drain_terminates:
  assumes "pipeline_run env s0 n acc fl p" and "pl_phase p \<noteq> Finished"
  shows "(\<exists>k \<le> length (ch_buf (pl_ch p)) + 2. \<exists>gs p'.
      writer_steps env k (Stop_pipeline p) gs p' \<and> pl_phase p' = Finished) \<and>
    (\<forall>k gs p'. writer_steps env k (Stop_pipeline p) gs p' \<longrightarrow>
      (pl_phase p' = Running \<longrightarrow> writer_step env p' [] (p'\<lparr>pl_phase := Draining\<rparr>)) \<and>
      (pl_phase p' = Draining \<longrightarrow>
        (\<exists>hs q. writer_steps env (length (ch_buf (pl_ch p')) + 1) p' hs q) \<and>
        (\<forall>j hs q. writer_steps env j p' hs q \<longrightarrow> j \<le> length (ch_buf (pl_ch p')) + 1 \<and>
          (j = length (ch_buf (pl_ch p')) + 1 \<longleftrightarrow> pl_phase q = Finished))) \<and>
      (pl_phase p' = Finished \<longrightarrow>
        pl_batch p' = [] \<and> ch_buf (pl_ch p') = [] \<and> handed (fl @ gs) = acc))"
proof -
  let ?p = "Stop_pipeline p"
  have p: "pl_done ?p" "pl_ch ?p = pl_ch p" "pl_phase ?p \<noteq> Finished"
    using assms(2) by (simp_all add: Stop_pipeline_def)
  have running: "writer_step env p' [] (p'\<lparr>pl_phase := Draining\<rparr>)"
    if "writer_steps env k ?p gs p'" "pl_phase p' = Running" for k gs p'
    using writer_step.stop[OF that(2)] writer_steps_done[OF that(1)] p(1) by simp
  have draining: "\<exists>hs q. writer_steps env (length (ch_buf (pl_ch p')) + 1) p' hs q"
    if "pl_phase p' = Draining" for p'
    using drain_reaches_end[OF refl, of p' env] that by (auto simp: drain_left_def)
  have finished: "pl_batch p' = [] \<and> ch_buf (pl_ch p') = [] \<and> handed (fl @ gs) = acc"
    if st: "writer_steps env k ?p gs p'" and fin: "pl_phase p' = Finished" for k gs p'
    using returned_writer_handed_all[OF writer_steps_run[OF st pipeline_run.stopped[OF assms(1)]] fin]
      writer_steps_empty[OF st p(3) fin] by simp
  from stopped_writer_returns[OF p(1), unfolded p(2)] running draining drain_exact finished
  show ?thesis by blast
qed

section \<open>Witnesses\<close>

abbreviation demo_pipeline_env :: sqlenv where
  "demo_pipeline_env \<equiv> reference_env DialectSQLite"

text \<open>A channel of one: the first entry is accepted, the second dropped, then \<open>Stop\<close>.\<close>

definition demo_pipeline :: pipeline where
  "demo_pipeline = (Stop_pipeline (NewPipeline demo_db 1))
     \<lparr>pl_ch := \<lparr>ch_buf = [demo_log_entry ''/a''], ch_cap = 1\<rparr>, pl_phase := Draining\<rparr>"

lemma demo_pipeline_started:
  "pipeline_run demo_pipeline_env demo_db 1 [demo_log_entry ''/a''] []
     ((NewPipeline demo_db 1)\<lparr>pl_ch := \<lparr>ch_buf = [demo_log_entry ''/a''], ch_cap = 1\<rparr>\<rparr>)"
proof -
  let ?p0 = "NewPipeline demo_db 1"
  let ?p1 = "?p0\<lparr>pl_ch := \<lparr>ch_buf = [demo_log_entry ''/a''], ch_cap = 1\<rparr>\<rparr>"
  have 1: "pipeline_run demo_pipeline_env demo_db 1 [] [] ?p0" by (rule pipeline_run.created)
  have "offer_log (demo_log_entry ''/a'') ?p0 = (True, ?p1)"
    by (simp add: offer_log_def NewPipeline_def make_chan_def try_send_def)
  from pipeline_run.offered[OF 1 this]
  have 2: "pipeline_run demo_pipeline_env demo_db 1 [demo_log_entry ''/a''] [] ?p1" by simp
  have "offer_log (demo_log_entry ''/b'') ?p1 = (False, ?p1)"
    by (simp add: offer_log_def NewPipeline_def make_chan_def try_send_def)
  from pipeline_run.dropped[OF 2 this] show ?thesis .
qed

lemma demo_pipeline_run:
  "pipeline_run demo_pipeline_env demo_db 1 [demo_log_entry ''/a''] [] demo_pipeline"
proof -
  let ?p1 = "(NewPipeline demo_db 1)\<lparr>pl_ch := \<lparr>ch_buf = [demo_log_entry ''/a''], ch_cap = 1\<rparr>\<rparr>"
  have "writer_step demo_pipeline_env (Stop_pipeline ?p1) [] ((Stop_pipeline ?p1)\<lparr>pl_phase := Draining\<rparr>)"
    by (rule writer_step.stop) (simp_all add: Stop_pipeline_def NewPipeline_def)
  from pipeline_run.wrote[OF pipeline_run.stopped[OF demo_pipeline_started] this] show ?thesis
    by (simp add: demo_pipeline_def Stop_pipeline_def NewPipeline_def)
qed

theorem pipeline_keeps_log_order_witness:
  "[demo_log_entry ''/a''] = handed [] @ pl_batch demo_pipeline @ ch_buf (pl_ch demo_pipeline) \<and>
   log_entries (pl_store demo_pipeline) = log_entries demo_db \<and> length (ch_buf (pl_ch demo_pipeline)) \<le> 1"
  using pipeline_keeps_log_order[OF demo_pipeline_run] by simp

text \<open>The same run before \<open>Stop\<close>, with the writer in its main loop.\<close>

theorem drain_terminates_witness:
  "\<exists>p. pl_phase p = Running \<and> \<not> pl_done p \<and>
     (\<exists>k \<le> 3. \<exists>gs p'. writer_steps demo_pipeline_env k (Stop_pipeline p) gs p' \<and>
        pl_phase p' = Finished \<and> handed gs = [demo_log_entry ''/a''] \<and> ch_buf (pl_ch p') = [])"
proof -
  let ?p = "(NewPipeline demo_db 1)\<lparr>pl_ch := \<lparr>ch_buf = [demo_log_entry ''/a''], ch_cap = 1\<rparr>\<rparr>"
  have ph: "pl_phase ?p \<noteq> Finished" "pl_phase ?p = Running" "\<not> pl_done ?p"
    by (simp_all add: NewPipeline_def)
  have len: "length (ch_buf (pl_ch ?p)) + 2 = 3" by simp
  note d = drain_terminates[OF demo_pipeline_started ph(1), unfolded len]
  from d obtain k gs p' where w: "k \<le> 3" "writer_steps demo_pipeline_env k (Stop_pipeline ?p) gs p'"
    "pl_phase p' = Finished" by blast
  with d have "handed ([] @ gs) = [demo_log_entry ''/a''] \<and> ch_buf (pl_ch p') = []" by blast
  with w have "\<exists>k \<le> 3. \<exists>gs p'. writer_steps demo_pipeline_env k (Stop_pipeline ?p) gs p' \<and>
      pl_phase p' = Finished \<and> handed gs = [demo_log_entry ''/a''] \<and> ch_buf (pl_ch p') = []"
    by (metis append_Nil)
  with ph(2,3) show ?thesis by blast
qed

end
