(* ===== verification/Server.thy ===== *)
theory Server
  imports Api
begin

text \<open>
  \<open>internal/server/mux.go\<close> and the handlers of \<open>cmd/tld-redirect/main.go\<close>: host switching,
  the admin router, the handlers behind plain HTTP, and seeding. The static UI files are the
  parameter \<open>ui\<close>.
\<close>

section \<open>Host names and ports\<close>

text \<open>\<open>server.stripPort\<close>: the loop from the last byte down.\<close>

fun mux_strip_loop :: "string \<Rightarrow> nat \<Rightarrow> string" where
  "mux_strip_loop host 0 = host"
| "mux_strip_loop host (Suc i) =
     (if host ! i = CHR '':'' then take i host
      else if \<not> is_digit (host ! i) then host
      else mux_strip_loop host i)"

definition mux_stripPort :: "string \<Rightarrow> string" where
  "mux_stripPort host = mux_strip_loop host (length host)"

text \<open>\<open>main.stripHostPort\<close>.\<close>

definition stripHostPort :: "string \<Rightarrow> string" where
  "stripHostPort host = (if host \<noteq> [] then mux_strip_loop host (length host) else host)"

section \<open>One request, seen by both halves\<close>

record http_request =
  h_req :: request
  h_api :: api_request

datatype web_reply = ApiReply response | Redirected reply

text \<open>\<open>HostMux.ServeHTTP\<close>, on handlers with a common state.\<close>

definition HostMux ::
  "string \<Rightarrow> (http_request \<Rightarrow> 's \<Rightarrow> web_reply \<times> 's) \<Rightarrow> (http_request \<Rightarrow> 's \<Rightarrow> web_reply \<times> 's) \<Rightarrow>
   http_request \<Rightarrow> 's \<Rightarrow> web_reply \<times> 's" where
  "HostMux adminDomain admin redirect r st =
     (if mux_stripPort (rq_Host (h_req r)) = adminDomain then admin r st else redirect r st)"

section \<open>The admin router\<close>

text \<open>
  \<open>buildAdminRouter\<close>: \<open>/api/\<close> behind the token, \<open>/ui/\<close> and \<open>/healthz\<close> open, the root
  redirecting to the UI. A path that names a subtree without its slash is redirected.
\<close>

definition redirect_response :: "int \<Rightarrow> string \<Rightarrow> response" where
  "redirect_response status loc = \<lparr>rs_Status = status, rs_Headers = [(''Location'', loc)], rs_Body = []\<rparr>"

definition buildAdminRouter ::
  "(api_request \<Rightarrow> response) \<Rightarrow> string \<Rightarrow> 'b deps \<Rightarrow> 'b handler" where
  "buildAdminRouter ui token dp r st =
     (case ar_Path r of
        [] \<Rightarrow> (plain_text 404 ''404 page not found'', st)
      | p # ps \<Rightarrow>
          if p = ''api'' \<and> ps \<noteq> [] then TokenAuth token (CORS (apiMux dp)) r st
          else if p = ''ui'' \<and> ps \<noteq> [] then (ui r, st)
          else if p = ''api'' then (redirect_response 301 ''/api/'', st)
          else if p = ''ui'' then (redirect_response 301 ''/ui/'', st)
          else if p = ''healthz'' \<and> ps = [] then
            (if is_get (ar_Method r)
             then (\<lparr>rs_Status = 200, rs_Headers = [], rs_Body = ''ok'' @ [CHR 0x0A]\<rparr>, st)
             else (plain_text 405 ''Method Not Allowed'', st))
          else if p = [] \<and> ps = [] then
            (if is_get (ar_Method r) then (redirect_response 302 ''/ui/'', st)
             else (plain_text 405 ''Method Not Allowed'', st))
          else (plain_text 404 ''404 page not found'', st))"

section \<open>The handlers of the listeners\<close>

definition set_engine :: "engine \<Rightarrow> 'b api \<Rightarrow> 'b api" where
  "set_engine e st = st\<lparr>a_node := (a_node st)\<lparr>n_engine := e\<rparr>\<rparr>"

text \<open>The router is wrapped in \<open>Logging\<close>, which only prints.\<close>

definition admin_handler ::
  "(api_request \<Rightarrow> response) \<Rightarrow> string \<Rightarrow> 'b deps \<Rightarrow>
   http_request \<Rightarrow> 'b api \<Rightarrow> web_reply \<times> 'b api" where
  "admin_handler ui token dp r st =
     (case Logging (buildAdminRouter ui token dp) (h_api r) st of
        ((resp, st'), logged) \<Rightarrow> (ApiReply resp, st'))"

definition redirect_handler :: "http_request \<Rightarrow> 'b api \<Rightarrow> web_reply \<times> 'b api" where
  "redirect_handler r st =
     (case ServeHTTP (n_engine (a_node st)) (h_req r) of (rep, e) \<Rightarrow> (Redirected rep, set_engine e st))"

definition https_upgrade :: "http_request \<Rightarrow> 'b api \<Rightarrow> web_reply \<times> 'b api" where
  "https_upgrade r st =
     (Redirected (http_Redirect (''https://'' @ rq_Host (h_req r) @ rq_RequestURI (h_req r)) 301), st)"

text \<open>\<open>httpFallback\<close>, the same in \<open>runData\<close> and \<open>runTLS\<close>.\<close>

definition httpFallback :: "http_request \<Rightarrow> 'b api \<Rightarrow> web_reply \<times> 'b api" where
  "httpFallback r st =
     (if HasDomain (n_engine (a_node st)) (stripHostPort (rq_Host (h_req r)))
      then redirect_handler r st else https_upgrade r st)"

section \<open>Seeding\<close>

datatype seed_error = OpenSeed go_error | ParseSeed | ImportSeed go_error

text \<open>\<open>file\<close> is the outcome of opening the seed file, with its contents.\<close>

definition seed :: "'b deps \<Rightarrow> go_error + string \<Rightarrow> 'b api \<Rightarrow> seed_error option \<times> 'b api" where
  "seed dp file st =
     (case file of
        Inl e \<Rightarrow> (Some (OpenSeed e), st)
      | Inr txt \<Rightarrow>
          (case Option.bind (json_decode txt) decode_entries of
             None \<Rightarrow> (Some ParseSeed, st)
           | Some entries \<Rightarrow>
               (case BulkImport (dp_env dp) entries (a_store st) of
                  (Inl e, s) \<Rightarrow> (Some (ImportSeed e), set_store s st)
                | (Inr cnt, s) \<Rightarrow> (None, reload dp (set_store s st)))))"

end
