(* ===== verification/Certs.thy ===== *)
theory Certs
  imports Api_Props
begin

text \<open>
  \<open>internal/certs/certs.go\<close>: choosing the storage, deciding which names may get a
  certificate, building the manager of a control plane and the loader of a data plane.
  CertMagic is a parameter; its package-level defaults are the state \<open>magic_defaults\<close>.
\<close>

section \<open>Configuration and library\<close>

datatype cert_storage = UnsetStorage | PGStorage | FileStorage string

record 's certs_config =
  cc_AdminDomain :: string
  cc_Email :: string
  cc_DataDir :: string
  cc_Staging :: bool
  cc_CheckDomain :: "('s \<Rightarrow> string \<Rightarrow> bool) option"
  cc_PGDB :: bool

record magic_defaults =
  md_Agreed :: bool
  md_Email :: string
  md_CA :: string
  md_Storage :: cert_storage

text \<open>The issuers of a new config, which of them are ACME issuers, \<open>ManageSync\<close>, the
  protocols of its TLS configuration, and the challenge handler.\<close>

record ('i, 'h) certmagic =
  cm_StagingCA :: string
  cm_Issuers :: "magic_defaults \<Rightarrow> 'i list"
  cm_is_ACME :: "'i \<Rightarrow> bool"
  cm_ManageSync :: "magic_defaults \<Rightarrow> string list \<Rightarrow> string option"
  cm_NextProtos :: "string list"
  cm_HTTPChallenge :: "'i \<Rightarrow> 'h \<Rightarrow> 'h"

text \<open>\<open>CheckDomain\<close> is a method of the engine and sees its state at the time of the call.\<close>

record ('s, 'i) manager =
  mg_decision :: "'s \<Rightarrow> string \<Rightarrow> string option"
  mg_storage :: cert_storage
  mg_issuer :: "'i option"
  mg_cfg :: "'s certs_config"

section \<open>The constructors\<close>

definition choose_storage :: "'s certs_config \<Rightarrow> magic_defaults \<Rightarrow> magic_defaults" where
  "choose_storage cfg g =
     (if cc_PGDB cfg then g\<lparr>md_Storage := PGStorage\<rparr>
      else if cc_DataDir cfg \<noteq> [] then g\<lparr>md_Storage := FileStorage (cc_DataDir cfg)\<rparr>
      else g)"

text \<open>\<open>None\<close> is the nil error: the name may get a certificate.\<close>

definition DecisionFunc :: "'s certs_config \<Rightarrow> 's \<Rightarrow> string \<Rightarrow> string option" where
  "DecisionFunc cfg st name =
     (if name = cc_AdminDomain cfg then None
      else (case cc_CheckDomain cfg of
              None \<Rightarrow> Some (''domain '' @ name @ '' not managed'')
            | Some check \<Rightarrow>
                if check st name then None else Some (''domain '' @ name @ '' not managed'')))"

definition NewManager ::
  "('i, 'h) certmagic \<Rightarrow> 's certs_config \<Rightarrow> magic_defaults \<Rightarrow> (string + ('s, 'i) manager) \<times> magic_defaults"
where
  "NewManager cm cfg g =
     (let g1 = g\<lparr>md_Agreed := True, md_Email := cc_Email cfg\<rparr>;
          g2 = (if cc_Staging cfg then g1\<lparr>md_CA := cm_StagingCA cm\<rparr> else g1);
          g3 = choose_storage cfg g2
      in case List.find (cm_is_ACME cm) (cm_Issuers cm g3) of
           None \<Rightarrow> (Inl ''no ACME issuer configured'', g3)
         | Some iss \<Rightarrow>
             (case cm_ManageSync cm g3 [cc_AdminDomain cfg] of
                Some e \<Rightarrow> (Inl (''provision cert for '' @ cc_AdminDomain cfg @ '': '' @ e), g3)
              | None \<Rightarrow>
                  (Inr \<lparr>mg_decision = DecisionFunc cfg, mg_storage = md_Storage g3,
                        mg_issuer = Some iss, mg_cfg = cfg\<rparr>, g3)))"

text \<open>The loader leaves the issuer unset and never fails.\<close>

definition NewLoader ::
  "'s certs_config \<Rightarrow> magic_defaults \<Rightarrow> (string + ('s, 'i) manager) \<times> magic_defaults" where
  "NewLoader cfg g =
     (let g1 = choose_storage cfg g
      in (Inr \<lparr>mg_decision = DecisionFunc cfg, mg_storage = md_Storage g1,
               mg_issuer = None, mg_cfg = cfg\<rparr>, g1))"

definition TLSConfig :: "('i, 'h) certmagic \<Rightarrow> string list" where
  "TLSConfig cm = [''h2'', ''http/1.1''] @ cm_NextProtos cm"

definition HTTPChallengeHandler :: "('i, 'h) certmagic \<Rightarrow> ('s, 'i) manager \<Rightarrow> 'h \<Rightarrow> 'h" where
  "HTTPChallengeHandler cm m fallback =
     (case mg_issuer m of None \<Rightarrow> fallback | Some iss \<Rightarrow> cm_HTTPChallenge cm iss fallback)"

section \<open>Facts\<close>

lemma DecisionFunc_None:
  "DecisionFunc cfg st name = None \<longleftrightarrow>
    name = cc_AdminDomain cfg \<or> (\<exists>check. cc_CheckDomain cfg = Some check \<and> check st name)"
  by (auto simp: DecisionFunc_def split: option.split)

lemma NewManager_decision:
  "NewManager cm cfg g = (Inr m, g') \<Longrightarrow> mg_decision m = DecisionFunc cfg \<and> mg_issuer m \<noteq> None"
  by (auto simp: NewManager_def Let_def split: option.splits)

lemma NewLoader_decision:
  "NewLoader cfg g = (Inr m, g') \<Longrightarrow> mg_decision m = DecisionFunc cfg \<and> mg_issuer m = None"
  by (auto simp: NewLoader_def Let_def)

text \<open>With \<open>engine.HasDomain\<close> as the check, in a process whose engine is in step with its
  store.\<close>

definition engine_check :: "'b api \<Rightarrow> string \<Rightarrow> bool" where
  "engine_check st name = HasDomain (n_engine (a_node st)) name"

lemma serves_HasDomain:
  assumes "serves s e"
  shows "HasDomain e name \<longleftrightarrow> (\<exists>x. view s (stripPort name) = Some x \<and> s_Enabled x)"
proof -
  let ?r = "demo_request name []"
  have "serve_spec (view s) (stripPort name) [] (fst (ServeHTTP e ?r))"
    using assms unfolding serves_def by (metis demo_request_sel)
  moreover have "HasDomain e name \<longleftrightarrow> fst (ServeHTTP e ?r) \<noteq> NotFound"
    by (simp add: HasDomain_def fst_ServeHTTP http_Redirect_def demo_request_def split: option.split)
  ultimately show ?thesis
    by (auto simp: serve_spec_def http_Redirect_def split: option.splits if_splits)
qed

text \<open>C33: A certificate is obtained on demand only for the admin domain and for the names of
  domains that the store holds enabled, whichever way the manager was built; a data plane's
  manager answers no ACME challenge and passes plain HTTP on.\<close>
theorem certificates_only_for_served:
  assumes "in_step st" and "length (domains (a_store st)) \<le> 100000"
    and "cc_CheckDomain cfg = Some engine_check"
    and "NewManager cm cfg g = (Inr m, g') \<or> NewLoader cfg g = (Inr m, g')"
  shows "(mg_decision m st name = None \<longleftrightarrow>
      name = cc_AdminDomain cfg \<or> (\<exists>x. view (a_store st) (stripPort name) = Some x \<and> s_Enabled x)) \<and>
    (NewLoader cfg g = (Inr m, g') \<longrightarrow> HTTPChallengeHandler cm m fallback = fallback)"
proof -
  from assms(4) have d: "mg_decision m = DecisionFunc cfg"
    using NewManager_decision NewLoader_decision by blast
  from assms(1,2) have "serves (a_store st) (n_engine (a_node st))" by (simp add: in_step_def)
  with assms(3) have "mg_decision m st name = None \<longleftrightarrow>
      name = cc_AdminDomain cfg \<or> (\<exists>x. view (a_store st) (stripPort name) = Some x \<and> s_Enabled x)"
    by (simp add: d DecisionFunc_None engine_check_def serves_HasDomain)
  moreover have "HTTPChallengeHandler cm m fallback = fallback" if "NewLoader cfg g = (Inr m, g')"
    using NewLoader_decision[OF that] by (simp add: HTTPChallengeHandler_def)
  ultimately show ?thesis by blast
qed

definition demo_cfg :: "string option api certs_config" where
  "demo_cfg = \<lparr>cc_AdminDomain = ''admin.example'', cc_Email = ''ops@example'', cc_DataDir = ''/certs'',
     cc_Staging = False, cc_CheckDomain = Some engine_check, cc_PGDB = False\<rparr>"

definition demo_magic :: "(bool, unit) certmagic" where
  "demo_magic = \<lparr>cm_StagingCA = ''staging'', cm_Issuers = (\<lambda>g. [False, True]), cm_is_ACME = id,
     cm_ManageSync = (\<lambda>g ns. None), cm_NextProtos = [], cm_HTTPChallenge = (\<lambda>i h. h)\<rparr>"

theorem certificates_only_for_served_witness:
  "\<exists>m g'. NewManager demo_magic demo_cfg
      \<lparr>md_Agreed = False, md_Email = [], md_CA = [], md_Storage = UnsetStorage\<rparr> = (Inr m, g') \<and>
    mg_decision m demo_api ''old.example'' = None \<and> mg_decision m demo_api ''off.example'' \<noteq> None"
proof -
  let ?g = "\<lparr>md_Agreed = False, md_Email = [], md_CA = [], md_Storage = UnsetStorage\<rparr>"
  obtain m g' where m: "NewManager demo_magic demo_cfg ?g = (Inr m, g')"
    by (simp add: NewManager_def Let_def demo_magic_def)
  have n: "length (domains (a_store demo_api)) \<le> 100000"
    unfolding demo_api_ok(2) by (simp add: demo_db_def)
  have c: "cc_CheckDomain demo_cfg = Some engine_check" by (simp add: demo_cfg_def)
  have v: "view (a_store demo_api) (stripPort ''old.example'') \<noteq> None"
    "\<forall>x. view (a_store demo_api) (stripPort ''old.example'') = Some x \<longrightarrow> s_Enabled x"
    "\<forall>x. view (a_store demo_api) (stripPort ''off.example'') = Some x \<longrightarrow> \<not> s_Enabled x"
    unfolding demo_api_ok(2)
    by (simp_all add: stripPort_def view_def find_domain_def site_of_def demo_defs)
  note decides = certificates_only_for_served[OF demo_api_ok(1) n c disjI1[OF m], THEN conjunct1]
  from decides[of "''old.example''"] decides[of "''off.example''"] v
  have "mg_decision m demo_api ''old.example'' = None" "mg_decision m demo_api ''off.example'' \<noteq> None"
    by (auto simp: demo_cfg_def)
  with m show ?thesis by blast
qed

end
