(* ===== verification/Store_Open.thy ===== *)
theory Store_Open
  imports Store_CRUD
begin

text \<open>
  \<open>internal/store/store.go\<close>: opening a store. The drivers of \<open>database/sql\<close> are parameters: the
  outcome of opening a handle, of the first connection and of executing the schema.
\<close>

record sql_driver =
  drv_Open :: "string \<Rightarrow> string \<Rightarrow> string option"
  drv_Ping :: "string \<Rightarrow> string option"
  drv_Exec :: "string \<Rightarrow> string option"

text \<open>\<open>migrate\<close>: the embedded schema of the dialect is executed as a whole. Reading an embedded
  file does not fail.\<close>

definition migrate :: "sql_driver \<Rightarrow> dialect \<Rightarrow> string option" where
  "migrate dv d =
     (let file = (if d = DialectPostgres then ''migrations/001_init_pg.sql'' else ''migrations/001_init.sql'')
      in drv_Exec dv file)"

definition New_sqlite :: "sql_driver \<Rightarrow> string \<Rightarrow> string + dialect" where
  "New_sqlite dv dbPath =
     (let dsn = dbPath @ ''?_journal_mode=WAL&_foreign_keys=on&_busy_timeout=5000'' in
      case drv_Open dv ''sqlite3'' dsn of
        Some e \<Rightarrow> Inl (''open db: '' @ e)
      | None \<Rightarrow>
          (case drv_Ping dv dsn of
             Some e \<Rightarrow> Inl (''ping db: '' @ e)
           | None \<Rightarrow>
               (case migrate dv DialectSQLite of
                  Some e \<Rightarrow> Inl (''migrate: '' @ e)
                | None \<Rightarrow> Inr DialectSQLite)))"

text \<open>The limits set on the pool of connections have no effect on results.\<close>

definition NewPG :: "sql_driver \<Rightarrow> string \<Rightarrow> string + dialect" where
  "NewPG dv connStr =
     (case drv_Open dv ''pgx'' connStr of
        Some e \<Rightarrow> Inl (''open pg: '' @ e)
      | None \<Rightarrow>
          (case drv_Ping dv connStr of
             Some e \<Rightarrow> Inl (''ping pg: '' @ e)
           | None \<Rightarrow>
               (case migrate dv DialectPostgres of
                  Some e \<Rightarrow> Inl (''migrate: '' @ e)
                | None \<Rightarrow> Inr DialectPostgres)))"

lemma New_sqlite_dialect: "New_sqlite dv p = Inr d \<Longrightarrow> d = DialectSQLite"
  by (auto simp: New_sqlite_def Let_def split: option.splits)

lemma NewPG_dialect: "NewPG dv p = Inr d \<Longrightarrow> d = DialectPostgres"
  by (auto simp: NewPG_def split: option.splits)

end
