(* ===== verification/Modes.thy ===== *)
theory Modes
  imports Server Certs Store_Open
begin

text \<open>
  \<open>cmd/tld-redirect/main.go\<close>: the start of a process in each mode. A start gives the error
  that ends it, or the running process: its state, the certificate manager, the goroutines it
  started and the handler behind each listener. Opening sockets, signals and shutdown are
  input and output and are not modelled.
\<close>

section \<open>Flags and processes\<close>

record flags =
  fl_mode :: string
  fl_dbPath :: string
  fl_dbURL :: string
  fl_token :: string
  fl_seedFile :: string
  fl_useTLS :: bool
  fl_adminDomain :: string
  fl_acmeEmail :: string
  fl_certDir :: string
  fl_staging :: bool
  fl_ds2Endpoint :: string
  fl_adminAddr :: string
  fl_redirectAddr :: string
  fl_syncEndpoint :: string
  fl_syncBucket :: string
  fl_syncKey :: string
  fl_syncAccessKey :: string
  fl_syncSecretKey :: string
  fl_syncRegion :: string

definition envOr :: "(string \<Rightarrow> string) \<Rightarrow> string \<Rightarrow> string \<Rightarrow> string" where
  "envOr env key fallback = (if env key \<noteq> [] then env key else fallback)"

text \<open>The flags when the command line sets none; \<open>env\<close> is \<open>os.Getenv\<close>.\<close>

definition default_flags :: "(string \<Rightarrow> string) \<Rightarrow> flags" where
  "default_flags env =
     \<lparr>fl_mode = [], fl_dbPath = ''tld-redirect.db'', fl_dbURL = envOr env ''TLD_DB_URL'' [],
      fl_token = envOr env ''TLD_ADMIN_TOKEN'' ''changeme'', fl_seedFile = [], fl_useTLS = False,
      fl_adminDomain = ''redirects.connected-cloud.io'', fl_acmeEmail = ''admin@connected-cloud.io'',
      fl_certDir = [], fl_staging = False, fl_ds2Endpoint = [],
      fl_adminAddr = '':8080'', fl_redirectAddr = '':8081'',
      fl_syncEndpoint = envOr env ''TLD_SYNC_ENDPOINT'' [],
      fl_syncBucket = envOr env ''TLD_SYNC_BUCKET'' ''tld-redirect-sync'',
      fl_syncKey = envOr env ''TLD_SYNC_KEY'' ''rules.json'',
      fl_syncAccessKey = envOr env ''TLD_SYNC_ACCESS_KEY'' [],
      fl_syncSecretKey = envOr env ''TLD_SYNC_SECRET_KEY'' [],
      fl_syncRegion = envOr env ''TLD_SYNC_REGION'' ''us-ord-1''\<rparr>"

type_synonym 'b web_handler = "http_request \<Rightarrow> 'b api \<Rightarrow> web_reply \<times> 'b api"

text \<open>A listener with \<open>ln_Protos\<close> terminates TLS and offers these protocols.\<close>

record 'b listener =
  ln_Addr :: string
  ln_Protos :: "string list option"
  ln_Handler :: "'b web_handler"

datatype goroutine = DiscardLogs | WriteLogs | RollUpLogs | SendBeacons string | PollRules syncer

record ('b, 'i) process =
  pr_state :: "'b api"
  pr_certs :: "('b api, 'i) manager option"
  pr_tasks :: "goroutine list"
  pr_listeners :: "'b listener list"

datatype start_error = DatabaseFailed string | SeedFailed seed_error | CertsFailed string

text \<open>The world a process starts in: the certificate library and its package defaults, the UI
  files, the seed file, the database and the bucket.\<close>

record ('b, 'i) world =
  w_magic :: "('i, 'b web_handler) certmagic"
  w_defaults :: magic_defaults
  w_ui :: "api_request \<Rightarrow> response"
  w_seed :: "go_error + string"
  w_deps :: "'b deps"
  w_db :: db
  w_bucket :: 'b

section \<open>Parts of a start\<close>

text \<open>\<open>redirect.NewEngine(db, logCh)\<close> with a log channel of the given capacity.\<close>

definition start_engine :: "('b, 'i) world \<Rightarrow> nat \<Rightarrow> 'b api" where
  "start_engine w n =
     (case NewEngine (dp_env (w_deps w)) (dp_srt (w_deps w)) (make_chan n) (w_db w) of
        (e, s) \<Rightarrow> \<lparr>a_node = \<lparr>n_store = s, n_engine = e, n_lastETag = []\<rparr>,
                    a_syncer = False, a_bucket = w_bucket w\<rparr>)"

definition start_beacon :: "flags \<Rightarrow> 'b api \<Rightarrow> goroutine list \<times> 'b api" where
  "start_beacon fl st =
     (if fl_ds2Endpoint fl \<noteq> []
      then ([SendBeacons (fl_ds2Endpoint fl)],
            set_engine (SetBeaconCh (make_chan 10000) (n_engine (a_node st))) st)
      else ([], st))"

definition start_seed :: "('b, 'i) world \<Rightarrow> flags \<Rightarrow> 'b api \<Rightarrow> seed_error option \<times> 'b api" where
  "start_seed w fl st =
     (if fl_seedFile fl \<noteq> [] then seed (w_deps w) (w_seed w) st else (None, st))"

definition cert_config :: "('b, 'i) world \<Rightarrow> flags \<Rightarrow> 'b api certs_config" where
  "cert_config w fl =
     \<lparr>cc_AdminDomain = fl_adminDomain fl, cc_Email = fl_acmeEmail fl, cc_DataDir = fl_certDir fl,
      cc_Staging = fl_staging fl, cc_CheckDomain = Some engine_check,
      cc_PGDB = (env_dialect (dp_env (w_deps w)) = DialectPostgres)\<rparr>"

definition syncCfg :: "flags \<Rightarrow> sync_config" where
  "syncCfg fl =
     \<lparr>sc_Endpoint = fl_syncEndpoint fl, sc_Bucket = fl_syncBucket fl, sc_Key = fl_syncKey fl,
      sc_AccessKey = fl_syncAccessKey fl, sc_SecretKey = fl_syncSecretKey fl,
      sc_Region = fl_syncRegion fl\<rparr>"

text \<open>\<open>Start\<close> of the syncer and of the pipeline: the goroutines they launch.\<close>

definition Start_syncer :: "syncer \<Rightarrow> goroutine list" where
  "Start_syncer sy = [PollRules sy]"

definition Start_pipeline :: "goroutine list" where
  "Start_pipeline = [WriteLogs, RollUpLogs]"

definition poll_tasks :: "flags \<Rightarrow> goroutine list" where
  "poll_tasks fl =
     (if sc_Endpoint (syncCfg fl) \<noteq> [] then Start_syncer (New_syncer (syncCfg fl)) else [])"

section \<open>The modes\<close>

definition runControl :: "('b, 'i) world \<Rightarrow> flags \<Rightarrow> start_error + ('b, 'i) process" where
  "runControl w fl =
     (case start_seed w fl (start_engine w 1) of
        (Some e, _) \<Rightarrow> Inl (SeedFailed e)
      | (None, st) \<Rightarrow>
          (case NewManager (w_magic w) (cert_config w fl) (w_defaults w) of
             (Inl e, _) \<Rightarrow> Inl (CertsFailed e)
           | (Inr m, _) \<Rightarrow>
               Inr \<lparr>pr_state = st\<lparr>a_syncer := (sc_Endpoint (syncCfg fl) \<noteq> [])\<rparr>, pr_certs = Some m,
                    pr_tasks = DiscardLogs # poll_tasks fl,
                    pr_listeners =
                      [\<lparr>ln_Addr = '':443'', ln_Protos = Some (TLSConfig (w_magic w)),
                        ln_Handler = admin_handler (w_ui w) (fl_token fl) (w_deps w)\<rparr>,
                       \<lparr>ln_Addr = '':80'', ln_Protos = None,
                        ln_Handler = HTTPChallengeHandler (w_magic w) m https_upgrade\<rparr>]\<rparr>))"

text \<open>The data plane gives its loader no email, and no directory when it has PostgreSQL.\<close>

definition runData :: "('b, 'i) world \<Rightarrow> flags \<Rightarrow> start_error + ('b, 'i) process" where
  "runData w fl =
     (case start_beacon fl (start_engine w 10000) of
        (beacons, st) \<Rightarrow>
          (let cfg = (cert_config w fl)\<lparr>cc_Email := [],
                 cc_DataDir := (if cc_PGDB (cert_config w fl) then [] else fl_certDir fl)\<rparr>
           in case NewLoader cfg (w_defaults w) of
                (Inl e, _) \<Rightarrow> Inl (CertsFailed e)
              | (Inr m, _) \<Rightarrow>
                  Inr \<lparr>pr_state = st, pr_certs = Some m,
                       pr_tasks = Start_pipeline @ beacons @ poll_tasks fl,
                       pr_listeners =
                         [\<lparr>ln_Addr = '':443'', ln_Protos = Some (TLSConfig (w_magic w)),
                           ln_Handler = redirect_handler\<rparr>,
                          \<lparr>ln_Addr = '':80'', ln_Protos = None,
                           ln_Handler = HTTPChallengeHandler (w_magic w) m httpFallback\<rparr>]\<rparr>))"

definition runTLS ::
  "('b, 'i) world \<Rightarrow> flags \<Rightarrow> goroutine list \<Rightarrow> 'b api \<Rightarrow> start_error + ('b, 'i) process" where
  "runTLS w fl tasks st =
     (case NewManager (w_magic w) (cert_config w fl) (w_defaults w) of
        (Inl e, _) \<Rightarrow> Inl (CertsFailed e)
      | (Inr m, _) \<Rightarrow>
          Inr \<lparr>pr_state = st, pr_certs = Some m, pr_tasks = tasks,
               pr_listeners =
                 [\<lparr>ln_Addr = '':443'', ln_Protos = Some (TLSConfig (w_magic w)),
                   ln_Handler = HostMux (fl_adminDomain fl)
                     (admin_handler (w_ui w) (fl_token fl) (w_deps w)) redirect_handler\<rparr>,
                  \<lparr>ln_Addr = '':80'', ln_Protos = None,
                   ln_Handler = HTTPChallengeHandler (w_magic w) m httpFallback\<rparr>]\<rparr>)"

definition runDev ::
  "('b, 'i) world \<Rightarrow> flags \<Rightarrow> goroutine list \<Rightarrow> 'b api \<Rightarrow> start_error + ('b, 'i) process" where
  "runDev w fl tasks st =
     Inr \<lparr>pr_state = st, pr_certs = None, pr_tasks = tasks,
          pr_listeners =
            [\<lparr>ln_Addr = fl_adminAddr fl, ln_Protos = None,
              ln_Handler = admin_handler (w_ui w) (fl_token fl) (w_deps w)\<rparr>,
             \<lparr>ln_Addr = fl_redirectAddr fl, ln_Protos = None, ln_Handler = redirect_handler\<rparr>]\<rparr>"

definition runLegacy :: "('b, 'i) world \<Rightarrow> flags \<Rightarrow> start_error + ('b, 'i) process" where
  "runLegacy w fl =
     (case start_beacon fl (start_engine w 10000) of
        (beacons, st) \<Rightarrow>
          (case start_seed w fl st of
             (Some e, _) \<Rightarrow> Inl (SeedFailed e)
           | (None, st1) \<Rightarrow>
               (if fl_useTLS fl then runTLS w fl (Start_pipeline @ beacons) st1
                else runDev w fl (Start_pipeline @ beacons) st1)))"

definition run :: "('b, 'i) world \<Rightarrow> flags \<Rightarrow> start_error + ('b, 'i) process" where
  "run w fl =
     (if fl_mode fl = ''control'' then runControl w fl
      else if fl_mode fl = ''data'' then runData w fl
      else runLegacy w fl)"

text \<open>\<open>main\<close>: open the store, then start the mode in the world of its dialect.\<close>

definition main_start ::
  "sql_driver \<Rightarrow> (dialect \<Rightarrow> ('b, 'i) world) \<Rightarrow> flags \<Rightarrow> start_error + ('b, 'i) process" where
  "main_start dv wd fl =
     (case (if fl_dbURL fl \<noteq> [] then NewPG dv (fl_dbURL fl) else New_sqlite dv (fl_dbPath fl)) of
        Inl e \<Rightarrow> Inl (DatabaseFailed e)
      | Inr d \<Rightarrow> run (wd d) fl)"

end
