(* ===== verification/Modes_Props.thy ===== *)
theory Modes_Props
  imports Modes
begin

text \<open>
  What holds of a process in every mode: it starts in step with its database, nothing but an
  authorised request of the admin API changes the database through a listener, and plain
  HTTP is answered by the redirect of a served host or an upgrade to HTTPS.
\<close>

section \<open>Handlers that only read\<close>

text \<open>Two databases that differ at most in the faults still to come.\<close>

definition same_data :: "db \<Rightarrow> db \<Rightarrow> bool" where
  "same_data s0 s \<longleftrightarrow> s\<lparr>faults := []\<rparr> = s0\<lparr>faults := []\<rparr>"

lemma same_data_refl [simp]: "same_data s s"
  by (simp add: same_data_def)

lemma fault_free_data [simp]: "fault_free_prop (same_data s0)"
  by (simp add: fault_free_prop_def same_data_def)

lemma keeps_ListDomains_data: "keeps (same_data s0) (ListDomains env search lim off)"
  by (rule keeps_ListDomains_prop) simp

lemma keeps_ListRules_data: "keeps (same_data s0) (ListRules env i)"
  by (rule keeps_ListRules_prop) simp

lemma keeps_GetDomain_data: "keeps (same_data s0) (GetDomain env n)"
  unfolding GetDomain_def by (intro keeps_intros keeps_ListRules_data fault_free_data)

lemma keeps_ExportAll_data: "keeps (same_data s0) (ExportAll env)"
  by (rule keeps_ExportAll) simp

lemma keeps_analytics_queries:
  "keeps (same_data s0) (AnalyticsSummary env since lim)"
  "keeps (same_data s0) (AnalyticsDomainTraffic env name since until_t gr)"
  "keeps (same_data s0) (AnalyticsDomainPaths env name since lim)"
  "keeps (same_data s0) (AnalyticsInactive env now days)"
  "keeps (same_data s0) (AnalyticsTrending env now since lim)"
  "keeps (same_data s0) (AnalyticsReferers env since lim)"
  "keeps (same_data s0) (AnalyticsExport env since)"
  unfolding analytics_queries Let_def by (intro keeps_query_all fault_free_data)+

lemma answer_rows_data:
  "keeps (same_data s) call \<Longrightarrow> same_data s (snd (answer_rows f call s))"
  using keepsD[of "same_data s" call s] by (auto simp: answer_rows_def split: prod.splits sum.splits)

lemma analytics_data: "same_data s (snd (analytics env ps r s))"
  unfolding analytics_def analytics_handlers Let_def
  by (auto intro!: answer_rows_data keeps_analytics_queries split: list.split)

text \<open>The store after a handler that reads with \<open>call\<close> and answers.\<close>

lemma read_handler_data:
  assumes "keeps (same_data (a_store st)) call" and "call (a_store st) = (x, s)"
  shows "same_data (a_store st) s"
  using keepsD[OF assms(1), of "a_store st"] assms(2) by simp

lemmas read_handlers =
  read_handler_data[OF keeps_ListDomains_data] read_handler_data[OF keeps_GetDomain_data]
  read_handler_data[OF keeps_ListRules_data] read_handler_data[OF keeps_ExportAll_data]

lemma listDomains_data: "same_data (a_store st) (a_store (snd (listDomains dp r st)))"
  by (auto simp: listDomains_def Let_def split: prod.split sum.split dest!: read_handlers(1))

lemma getDomain_data: "same_data (a_store st) (a_store (snd (getDomain dp n st)))"
  by (auto simp: getDomain_def split: prod.split sum.split dest!: read_handlers(2))

lemma export_data: "same_data (a_store st) (a_store (snd (export dp st)))"
  by (auto simp: export_def split: prod.split sum.split dest!: read_handlers(4))

lemma same_data_trans: "same_data s0 s1 \<Longrightarrow> same_data s1 s2 \<Longrightarrow> same_data s0 s2"
  by (simp add: same_data_def)

lemma listRules_data: "same_data (a_store st) (a_store (snd (listRules dp n st)))"
proof -
  obtain x s where g: "GetDomain (dp_env dp) n (a_store st) = (x, s)" by fastforce
  note d = read_handlers(2)[OF g]
  show ?thesis
  proof (cases x)
    case (Inl e)
    with g d show ?thesis by (simp add: listRules_def)
  next
    case (Inr dr)
    with g d show ?thesis by (auto simp: listRules_def split: prod.split sum.split)
  qed
qed

section \<open>Routes\<close>

definition mutating :: "string \<Rightarrow> bool" where
  "mutating m \<longleftrightarrow> m \<in> {''POST'', ''PUT'', ''DELETE''}"

lemma route_domains_mutating:
  "\<not> mutating m \<Longrightarrow> route_domains m ps = r \<Longrightarrow>
   r = ListDomainsRoute \<or> (\<exists>d. r = GetDomainRoute d) \<or> (\<exists>d. r = ListRulesRoute d) \<or>
   r = MethodNotAllowed \<or> r = NoRoute"
  by (auto simp: mutating_def route_domains_def split: list.splits if_splits)

lemma route_mutating:
  assumes "\<not> mutating m" and "route m ps = r"
  shows "r = ListDomainsRoute \<or> (\<exists>d. r = GetDomainRoute d) \<or> (\<exists>d. r = ListRulesRoute d) \<or>
    r = ExportRoute \<or> (\<exists>xs. r = AnalyticsRoute xs) \<or> r = MethodNotAllowed \<or> r = NoRoute"
proof -
  have a: "(\<exists>xs. route_analytics m qs = AnalyticsRoute xs) \<or> route_analytics m qs = MethodNotAllowed \<or>
      route_analytics m qs = NoRoute" for qs
    by (simp add: route_analytics_def)
  have d: "route_domains m qs = ListDomainsRoute \<or> (\<exists>d. route_domains m qs = GetDomainRoute d) \<or>
      (\<exists>d. route_domains m qs = ListRulesRoute d) \<or> route_domains m qs = MethodNotAllowed \<or>
      route_domains m qs = NoRoute" for qs
    using route_domains_mutating[OF assms(1)] by blast
  from assms a d show ?thesis
    by (auto simp: route_def mutating_def split: list.splits if_splits)
qed

lemma apiMux_reads:
  assumes "\<not> mutating (ar_Method r)"
  shows "same_data (a_store st) (a_store (snd (apiMux dp r st)))"
proof -
  from route_mutating[OF assms refl, of "ar_Path r"] consider
      "route (ar_Method r) (ar_Path r) = ListDomainsRoute"
    | d where "route (ar_Method r) (ar_Path r) = GetDomainRoute d"
    | d where "route (ar_Method r) (ar_Path r) = ListRulesRoute d"
    | "route (ar_Method r) (ar_Path r) = ExportRoute"
    | xs where "route (ar_Method r) (ar_Path r) = AnalyticsRoute xs"
    | "route (ar_Method r) (ar_Path r) \<in> {MethodNotAllowed, NoRoute}" by blast
  then show ?thesis
  proof cases
    case (5 xs)
    from analytics_data[of "a_store st" "dp_env dp" xs r] 5 show ?thesis
      by (auto simp: apiMux_def split: prod.split)
  qed (auto simp: apiMux_def listDomains_data getDomain_data listRules_data export_data)
qed

section \<open>Listeners\<close>

text \<open>A handler in front of which a request must be authorised to change data.\<close>

definition guarded :: "(http_request \<Rightarrow> bool) \<Rightarrow> 'b web_handler \<Rightarrow> bool" where
  "guarded auth h \<longleftrightarrow>
     (\<forall>r st. \<not> auth r \<longrightarrow> same_data (a_store st) (a_store (snd (h r st))))"

definition admin_auth :: "string \<Rightarrow> http_request \<Rightarrow> bool" where
  "admin_auth token r \<longleftrightarrow> mutating (ar_Method (h_api r)) \<and> ar_Query (h_api r) ''token'' = token"

lemma guardedD: "guarded auth h \<Longrightarrow> \<not> auth r \<Longrightarrow> same_data (a_store st) (a_store (snd (h r st)))"
  by (simp add: guarded_def)

lemma router_reads:
  assumes "\<not> (mutating (ar_Method r) \<and> ar_Query r ''token'' = token)"
  shows "same_data (a_store st) (a_store (snd (buildAdminRouter ui token dp r st)))"
proof -
  have "same_data (a_store st) (a_store (snd (TokenAuth token (CORS (apiMux dp)) r st)))"
  proof (cases "ar_Query r ''token'' = token")
    case True
    with assms have "\<not> mutating (ar_Method r)" by blast
    from apiMux_reads[OF this, of st dp] show ?thesis
      by (auto simp: TokenAuth_def CORS_def split: prod.split)
  next
    case False
    then show ?thesis by (simp add: TokenAuth_def)
  qed
  then show ?thesis by (simp add: buildAdminRouter_def split: list.split)
qed

lemma guarded_admin: "guarded (admin_auth token) (admin_handler ui token dp)"
proof (unfold guarded_def, intro allI impI)
  fix r :: http_request and st :: "'a api"
  assume "\<not> admin_auth token r"
  with router_reads[of "h_api r" token st ui dp]
  show "same_data (a_store st) (a_store (snd (admin_handler ui token dp r st)))"
    by (auto simp: admin_auth_def admin_handler_def Logging_def Let_def split: prod.split)
qed

lemma guarded_redirect: "guarded auth redirect_handler"
  by (simp add: guarded_def redirect_handler_def set_engine_def a_store_def split: prod.split)

lemma guarded_upgrade: "guarded auth https_upgrade"
  by (simp add: guarded_def https_upgrade_def)

lemma guarded_fallback: "guarded auth httpFallback"
  by (auto simp: guarded_def httpFallback_def intro: guardedD[OF guarded_redirect] guardedD[OF guarded_upgrade])

lemma guarded_HostMux:
  assumes "guarded auth admin" and "guarded (\<lambda>r. False) redirect"
  shows "guarded (\<lambda>r. auth r \<and> mux_stripPort (rq_Host (h_req r)) = d) (HostMux d admin redirect)"
  using assms by (auto simp: guarded_def HostMux_def)

text \<open>What CertMagic documents of its challenge handler: it answers a challenge itself or
  calls the handler it wraps.\<close>

definition challenge_contract :: "('i, 'b web_handler) certmagic \<Rightarrow> bool" where
  "challenge_contract cm \<longleftrightarrow>
     (\<forall>i h r st. cm_HTTPChallenge cm i h r st = h r st \<or> snd (cm_HTTPChallenge cm i h r st) = st)"

lemma guarded_challenge:
  assumes "challenge_contract cm" and "guarded auth h"
  shows "guarded auth (HTTPChallengeHandler cm m h)"
proof (cases "mg_issuer m")
  case None
  with assms(2) show ?thesis by (simp add: HTTPChallengeHandler_def)
next
  case (Some i)
  show ?thesis
  proof (unfold guarded_def, intro allI impI)
    fix r st
    assume "\<not> auth r"
    from guardedD[OF assms(2) this, of st] assms(1)
    show "same_data (a_store st) (a_store (snd (HTTPChallengeHandler cm m h r st)))"
      unfolding challenge_contract_def using Some
      by (metis (no_types, lifting) HTTPChallengeHandler_def option.simps(5) same_data_refl)
  qed
qed

lemma guarded_weaken: "guarded a h \<Longrightarrow> (\<And>r. a r \<Longrightarrow> b r) \<Longrightarrow> guarded b h"
  by (auto simp: guarded_def)

text \<open>Who may change data through a process started with these flags.\<close>

definition may_change :: "flags \<Rightarrow> http_request \<Rightarrow> bool" where
  "may_change fl r \<longleftrightarrow> fl_mode fl \<noteq> ''data'' \<and> admin_auth (fl_token fl) r \<and>
     (fl_mode fl \<noteq> ''control'' \<and> fl_useTLS fl \<longrightarrow>
        mux_stripPort (rq_Host (h_req r)) = fl_adminDomain fl)"

lemmas guarded_plain = guarded_redirect guarded_upgrade guarded_fallback

lemma control_guarded:
  assumes "runControl w fl = Inr p" and "fl_mode fl = ''control''" and "challenge_contract (w_magic w)"
    and "ln \<in> set (pr_listeners p)"
  shows "guarded (may_change fl) (ln_Handler ln)"
proof -
  have a: "guarded (may_change fl) (admin_handler (w_ui w) (fl_token fl) (w_deps w))"
    by (rule guarded_weaken[OF guarded_admin]) (simp add: may_change_def assms(2))
  from assms(1,4) a guarded_challenge[OF assms(3) guarded_upgrade] show ?thesis
    by (auto simp: runControl_def split: prod.splits option.splits sum.splits)
qed

lemma data_guarded:
  assumes "runData w fl = Inr p" and "challenge_contract (w_magic w)" and "ln \<in> set (pr_listeners p)"
  shows "guarded (may_change fl) (ln_Handler ln)"
  using assms(1,3) guarded_redirect guarded_challenge[OF assms(2) guarded_fallback]
  by (auto simp: runData_def Let_def split: prod.splits sum.splits)

lemma legacy_guarded:
  assumes "runLegacy w fl = Inr p" and "fl_mode fl \<noteq> ''control''" and "fl_mode fl \<noteq> ''data''"
    and "challenge_contract (w_magic w)" and "ln \<in> set (pr_listeners p)"
  shows "guarded (may_change fl) (ln_Handler ln)"
proof (cases "fl_useTLS fl")
  case True
  have "guarded (may_change fl) (HostMux (fl_adminDomain fl)
      (admin_handler (w_ui w) (fl_token fl) (w_deps w)) redirect_handler)"
    by (rule guarded_weaken[OF guarded_HostMux[OF guarded_admin guarded_redirect]])
      (simp add: may_change_def assms(3))
  with assms(1,5) True guarded_challenge[OF assms(4) guarded_fallback] show ?thesis
    by (auto simp: runLegacy_def runTLS_def split: prod.splits option.splits sum.splits)
next
  case False
  have "guarded (may_change fl) (admin_handler (w_ui w) (fl_token fl) (w_deps w))"
    by (rule guarded_weaken[OF guarded_admin]) (simp add: may_change_def assms(2,3) False)
  with assms(1,5) False guarded_redirect show ?thesis
    by (auto simp: runLegacy_def runDev_def split: prod.splits option.splits sum.splits)
qed

lemma run_guarded:
  assumes "run w fl = Inr p" and "challenge_contract (w_magic w)" and "ln \<in> set (pr_listeners p)"
  shows "guarded (may_change fl) (ln_Handler ln)"
  using assms control_guarded data_guarded legacy_guarded
  by (auto simp: run_def split: if_splits)

section \<open>Starting\<close>

text \<open>The contents after a start: those of the database, and the entries of a seed file added.\<close>

definition seeded :: "('b, 'i) world \<Rightarrow> flags \<Rightarrow> (string \<rightharpoonup> site) \<Rightarrow> (string \<rightharpoonup> site)" where
  "seeded w fl v =
     (if fl_mode fl = ''data'' \<or> fl_seedFile fl = [] then v
      else (case w_seed w of
              Inl e \<Rightarrow> v
            | Inr body \<Rightarrow>
                (case Option.bind (json_decode body) decode_entries of
                   None \<Rightarrow> v | Some es \<Rightarrow> fold add_entry es v)))"

definition world_ok :: "('b, 'i) world \<Rightarrow> bool" where
  "world_ok w \<longleftrightarrow> sql_contract (dp_env (w_deps w)) \<and> desc_sorts rl_Priority (dp_srt (w_deps w)) \<and>
     good (w_db w) \<and> challenge_contract (w_magic w)"

lemma start_engine_ok:
  assumes "world_ok w"
  shows "in_step (start_engine w n) \<and> view (a_store (start_engine w n)) = view (w_db w)"
proof -
  let ?env = "dp_env (w_deps w)" and ?srt = "dp_srt (w_deps w)"
  let ?e0 = "\<lparr>e_domains = Map.empty, e_logCh = make_chan n, e_beaconCh = None\<rparr>"
  from assms have c: "sql_contract ?env" "desc_sorts rl_Priority ?srt" "good (w_db w)"
    by (simp_all add: world_ok_def)
  obtain e where e: "Reload ?env ?srt ?e0 (w_db w) = ((None, e), w_db w)"
    using Reload_success[OF goodD(2)[OF c(3)]] by blast
  then have se: "start_engine w n = \<lparr>a_node = \<lparr>n_store = w_db w, n_engine = e, n_lastETag = []\<rparr>,
      a_syncer = False, a_bucket = w_bucket w\<rparr>"
    by (simp add: start_engine_def NewEngine_def)
  have "serves (w_db w) e" if "length (domains (w_db w)) \<le> 100000"
    unfolding serves_def using Reload_serves[OF c(1,2) goodD[OF c(3)] that, of ?e0] e by auto
  with c(3) show ?thesis by (simp add: se in_step_def a_store_def)
qed

lemma start_beacon_ok:
  assumes "in_step st"
  shows "in_step (snd (start_beacon fl st)) \<and> a_store (snd (start_beacon fl st)) = a_store st"
proof -
  have "serves s (SetBeaconCh ch e) = serves s e" for s ch e
    by (simp add: serves_def fst_ServeHTTP SetBeaconCh_def)
  with assms show ?thesis
    by (auto simp: start_beacon_def set_engine_def in_step_def a_store_def)
qed

lemma start_seed_ok:
  assumes "world_ok w" and "in_step st" and "start_seed w fl st = (None, st')"
    and "fl_mode fl \<noteq> ''data''"
  shows "in_step st' \<and> view (a_store st') = seeded w fl (view (a_store st))"
proof (cases "fl_seedFile fl = []")
  case True
  with assms show ?thesis by (simp add: start_seed_def seeded_def)
next
  case False
  let ?dp = "w_deps w"
  from False assms(3) have s: "seed ?dp (w_seed w) st = (None, st')" by (simp add: start_seed_def)
  then obtain body es where body: "w_seed w = Inr body"
    and es: "Option.bind (json_decode body) decode_entries = Some es"
    by (auto simp: seed_def split: sum.splits option.splits prod.splits)
  from assms(2) have g: "good (a_store st)" by (simp add: in_step_def)
  obtain s1 where s1: "BulkImport (dp_env ?dp) es (a_store st) = (Inr (int (length es)), s1)"
    "good s1" "view s1 = fold add_entry es (view (a_store st))"
    using BulkImport_good[OF g] by blast
  from s body es s1(1) have st': "st' = reload ?dp (set_store s1 st)" by (simp add: seed_def)
  have "good (a_store (set_store s1 st))" using s1(2) by simp
  from reload_in_step[OF _ _ this] assms(1) s1(3) st' show ?thesis
    by (simp add: world_ok_def seeded_def assms(4) False body es)
qed

lemma set_syncer_in_step [simp]: "in_step (st\<lparr>a_syncer := b\<rparr>) = in_step st"
  "a_store (st\<lparr>a_syncer := b\<rparr>) = a_store st"
  by (simp_all add: in_step_def a_store_def)

lemma run_in_step:
  assumes ok: "world_ok w" and run: "run w fl = Inr p"
  shows "in_step (pr_state p) \<and> view (a_store (pr_state p)) = seeded w fl (view (w_db w))"
proof -
  consider (control) "fl_mode fl = ''control''" | (data) "fl_mode fl = ''data''"
    | (legacy) "fl_mode fl \<noteq> ''control''" "fl_mode fl \<noteq> ''data''" by blast
  then show ?thesis
  proof cases
    case control
    with run obtain st where st: "start_seed w fl (start_engine w 1) = (None, st)"
      "pr_state p = st\<lparr>a_syncer := (sc_Endpoint (syncCfg fl) \<noteq> [])\<rparr>"
      by (auto simp: run_def runControl_def split: prod.splits option.splits sum.splits)
    have m: "fl_mode fl \<noteq> ''data''" using control by simp
    from start_seed_ok[OF ok _ st(1) m] start_engine_ok[OF ok, of 1] st(2) show ?thesis by simp
  next
    case data
    with run have "pr_state p = snd (start_beacon fl (start_engine w 10000))"
      by (auto simp: run_def runData_def Let_def split: prod.splits sum.splits)
    with start_engine_ok[OF ok, of 10000] start_beacon_ok[of "start_engine w 10000" fl] data show ?thesis
      by (simp add: seeded_def)
  next
    case legacy
    let ?st0 = "snd (start_beacon fl (start_engine w 10000))"
    from legacy run obtain st where st: "start_seed w fl ?st0 = (None, st)" "pr_state p = st"
      by (auto simp: run_def runLegacy_def runTLS_def runDev_def
          split: prod.splits option.splits sum.splits if_splits)
    from start_engine_ok[OF ok, of 10000] start_beacon_ok[of "start_engine w 10000" fl]
    have "in_step ?st0" "view (a_store ?st0) = view (w_db w)" by simp_all
    with start_seed_ok[OF ok _ st(1) legacy(2)] st(2) show ?thesis by simp
  qed
qed

lemma main_start_run:
  "main_start dv wd fl = Inr p \<Longrightarrow> run (wd (if fl_dbURL fl \<noteq> [] then DialectPostgres else DialectSQLite)) fl = Inr p"
  by (auto simp: main_start_def split: sum.splits if_splits dest: New_sqlite_dialect NewPG_dialect)

section \<open>Plain HTTP\<close>

lemma mux_strip_loop_cases:
  "i \<le> length h \<Longrightarrow>
   mux_strip_loop h i = h \<or> (\<exists>j < i. h ! j = CHR '':'' \<and> mux_strip_loop h i = take j h)"
  by (induction i) (auto simp: less_Suc_eq)

lemma stripHostPort_cases:
  "stripHostPort h = h \<or> (\<exists>j < length h. h ! j = CHR '':'' \<and> stripHostPort h = take j h)"
  using mux_strip_loop_cases[of "length h" h] by (simp add: stripHostPort_def)

lemma one_colon:
  assumes "count_list h c \<le> 1" and "j < length h" and "h ! j = c"
  shows "c \<notin> set (take j h) \<and> c \<notin> set (drop (Suc j) h)"
proof -
  have e: "take j h @ c # drop (Suc j) h = h" using id_take_nth_drop[OF assms(2)] assms(3) by simp
  have "count_list (take j h @ c # drop (Suc j) h) c
      = count_list (take j h) c + Suc (count_list (drop (Suc j) h) c)" by simp
  then have "count_list h c = count_list (take j h) c + Suc (count_list (drop (Suc j) h) c)"
    unfolding e .
  with assms(1) show ?thesis by (simp add: count_list_0_iff)
qed

lemma stripPort_stripHostPort:
  assumes "count_list h (CHR '':'') \<le> 1"
  shows "stripPort (stripHostPort h) = stripPort h"
proof (cases "stripHostPort h = h")
  case False
  with stripHostPort_cases[of h] obtain j where j: "j < length h" "h ! j = CHR '':''"
    "stripHostPort h = take j h" by blast
  note o = one_colon[OF assms j(1,2)]
  have "take j h @ '':'' @ drop (Suc j) h = h" using id_take_nth_drop[OF j(1)] j(2) by simp
  with stripPort_port[OF conjunct2[OF o], of "take j h"] have "stripPort h = take j h" by simp
  with j(3) stripPort_plain[of "take j h"] o show ?thesis by simp
qed simp

lemma fallback_reply:
  assumes "in_step st" and "length (domains (a_store st)) \<le> 100000"
    and "count_list (rq_Host (h_req r)) (CHR '':'') \<le> 1"
  shows "httpFallback r st =
    (if \<exists>x. view (a_store st) (stripPort (rq_Host (h_req r))) = Some x \<and> s_Enabled x
     then redirect_handler r st else https_upgrade r st)"
proof -
  from assms(1,2) have "serves (a_store st) (n_engine (a_node st))" by (simp add: in_step_def)
  from serves_HasDomain[OF this, of "stripHostPort (rq_Host (h_req r))"]
    stripPort_stripHostPort[OF assms(3)]
  show ?thesis by (simp add: httpFallback_def)
qed

section \<open>Properties\<close>

text \<open>C16: a process that starts, in any mode, runs with an engine that is in step with the
  database its flags name: PostgreSQL when a URL is given, else SQLite. What it serves are the
  contents it found there, with the entries of the seed file added in the modes that seed.\<close>
theorem process_starts_in_step:
  assumes "\<And>d. world_ok (wd d)" and "main_start dv wd fl = Inr p"
  shows "let w = wd (if fl_dbURL fl \<noteq> [] then DialectPostgres else DialectSQLite) in
    in_step (pr_state p) \<and> view (a_store (pr_state p)) = seeded w fl (view (w_db w))"
  using run_in_step[OF assms(1) main_start_run[OF assms(2)]] by (simp add: Let_def)

text \<open>C15: a request changes the tables through a listener of a running process only when the
  process is not a data plane, the request has a mutating method and carries the admin token,
  and, where one listener serves both halves, its host is the admin domain. This holds in
  every state and whatever the database does.\<close>
theorem only_admins_change_data:
  assumes "\<And>d. challenge_contract (w_magic (wd d))" and "main_start dv wd fl = Inr p"
    and "ln \<in> set (pr_listeners p)"
    and "ln_Handler ln r st = (rep, st')"
    and "(a_store st')\<lparr>faults := []\<rparr> \<noteq> (a_store st)\<lparr>faults := []\<rparr>"
  shows "fl_mode fl \<noteq> ''data'' \<and> ar_Method (h_api r) \<in> {''POST'', ''PUT'', ''DELETE''} \<and>
    ar_Query (h_api r) ''token'' = fl_token fl \<and>
    (fl_mode fl \<noteq> ''control'' \<and> fl_useTLS fl \<longrightarrow>
       mux_stripPort (rq_Host (h_req r)) = fl_adminDomain fl)"
proof (rule ccontr)
  assume n: "\<not> ?thesis"
  then have "\<not> may_change fl r" by (auto simp: may_change_def admin_auth_def mutating_def)
  with guardedD[OF run_guarded[OF main_start_run[OF assms(2)] assms(1,3)]] assms(4)
  have "same_data (a_store st) (a_store st')" by (metis snd_conv)
  with assms(5) show False by (simp add: same_data_def)
qed

text \<open>C17: plain HTTP beside a redirect listener: a host (with or without a port) whose domain
  the store holds enabled gets exactly what the redirect engine answers, never a 404; any
  other host is sent to the same host and path under HTTPS, and nothing is logged.\<close>
theorem http_fallback_answers:
  assumes "in_step st" and "length (domains (a_store st)) \<le> 100000"
    and "count_list (rq_Host (h_req r)) (CHR '':'') \<le> 1"
    and "httpFallback r st = (Redirected rep, st')"
  shows "case view (a_store st) (stripPort (rq_Host (h_req r))) of
      Some x \<Rightarrow> if s_Enabled x
        then serve_spec (view (a_store st)) (stripPort (rq_Host (h_req r))) (rq_Path (h_req r)) rep \<and> rep \<noteq> NotFound
        else rep = http_Redirect (''https://'' @ rq_Host (h_req r) @ rq_RequestURI (h_req r)) 301 \<and> st' = st
    | None \<Rightarrow> rep = http_Redirect (''https://'' @ rq_Host (h_req r) @ rq_RequestURI (h_req r)) 301 \<and> st' = st"
proof (cases "\<exists>x. view (a_store st) (stripPort (rq_Host (h_req r))) = Some x \<and> s_Enabled x")
  case True
  with fallback_reply[OF assms(1-3)] assms(4) have
    rep: "rep = fst (ServeHTTP (n_engine (a_node st)) (h_req r))"
    by (auto simp: redirect_handler_def split: prod.splits)
  from assms(1,2) have "serves (a_store st) (n_engine (a_node st))" by (simp add: in_step_def)
  then have sp: "serve_spec (view (a_store st)) (stripPort (rq_Host (h_req r))) (rq_Path (h_req r)) rep"
    by (simp add: rep serves_def)
  with True have "rep \<noteq> NotFound"
    by (auto simp: serve_spec_def http_Redirect_def split: if_splits)
  with sp True show ?thesis by auto
next
  case False
  with fallback_reply[OF assms(1-3)] assms(4) show ?thesis
    by (auto simp: https_upgrade_def split: option.split)
qed

section \<open>Witnesses\<close>

definition demo_seed_entry :: import_entry where
  "demo_seed_entry =
     \<lparr>ie_DomainName = ''seed.example'', ie_DefaultURL = ''https://s.example'', ie_StatusCode = 0,
      ie_Enabled = None, ie_Rules = []\<rparr>"

definition demo_world :: "dialect \<Rightarrow> (string option, bool) world" where
  "demo_world d =
     \<lparr>w_magic = \<lparr>cm_StagingCA = ''staging'', cm_Issuers = (\<lambda>g. [False, True]), cm_is_ACME = id,
        cm_ManageSync = (\<lambda>g ns. None), cm_NextProtos = [],
        cm_HTTPChallenge = (\<lambda>i h r st.
          if rq_Path (h_req r) = ''/.well-known/acme-challenge/t'' then (ApiReply (plain_text 200 ''t''), st)
          else h r st)\<rparr>,
      w_defaults = \<lparr>md_Agreed = False, md_Email = [], md_CA = [], md_Storage = UnsetStorage\<rparr>,
      w_ui = (\<lambda>r. plain_text 200 ''ui''), w_seed = Inr (marshal_entries [demo_seed_entry]),
      w_deps = demo_deps\<lparr>dp_env := reference_env d\<rparr>, w_db = demo_db, w_bucket = None\<rparr>"

definition demo_driver :: sql_driver where
  "demo_driver = \<lparr>drv_Open = (\<lambda>n s. None), drv_Ping = (\<lambda>s. None), drv_Exec = (\<lambda>f. None)\<rparr>"

definition demo_flags :: flags where
  "demo_flags = (default_flags (\<lambda>k. if k = ''TLD_ADMIN_TOKEN'' then ''secret'' else []))
     \<lparr>fl_mode := ''control'', fl_seedFile := ''seed.json''\<rparr>"

lemma demo_world_ok: "world_ok (demo_world d)"
  by (simp add: world_ok_def demo_world_def demo_deps_def reference_env_contract demo_db_wf
      demo_db_faults good_def challenge_contract_def)

lemma demo_seed: "Option.bind (json_decode (marshal_entries [demo_seed_entry])) decode_entries
    = Some [demo_seed_entry]"
proof (rule unmarshal_decode, rule entries_round_trip)
  show "list_all entry_ok [demo_seed_entry]"
    by (auto simp: demo_seed_entry_def entry_ok_def is_int64_def min_int64_def max_int64_def
        intro!: valid_utf8_ascii)
qed

lemma demo_seeded:
  "\<exists>st. start_seed (demo_world d) demo_flags (start_engine (demo_world d) n) = (None, st)"
proof -
  let ?st = "start_engine (demo_world d) n" and ?dp = "w_deps (demo_world d)"
  have "good (a_store ?st)" using start_engine_ok[OF demo_world_ok, of d n] by (simp add: in_step_def)
  from BulkImport_good[OF this, of "dp_env ?dp" "[demo_seed_entry]"] obtain s1 where
    "BulkImport (dp_env ?dp) [demo_seed_entry] (a_store ?st) = (Inr 1, s1)" by auto
  moreover have "w_seed (demo_world d) = Inr (marshal_entries [demo_seed_entry])"
    by (simp add: demo_world_def)
  ultimately show ?thesis
    by (simp add: start_seed_def demo_flags_def default_flags_def seed_def demo_seed)
qed

lemma demo_starts:
  "\<exists>p. main_start demo_driver demo_world demo_flags = Inr p \<and>
    (\<exists>ln \<in> set (pr_listeners p).
      ln_Handler ln = admin_handler (w_ui (demo_world DialectSQLite)) ''secret'' (w_deps (demo_world DialectSQLite)))"
proof -
  let ?w = "demo_world DialectSQLite"
  obtain st where st: "start_seed ?w demo_flags (start_engine ?w 1) = (None, st)"
    using demo_seeded by blast
  obtain m g where m: "NewManager (w_magic ?w) (cert_config ?w demo_flags) (w_defaults ?w) = (Inr m, g)"
    by (simp add: NewManager_def Let_def demo_world_def)
  have mode: "fl_mode demo_flags = ''control''" "fl_dbURL demo_flags = []" "fl_token demo_flags = ''secret''"
    by (simp_all add: demo_flags_def default_flags_def envOr_def)
  have "main_start demo_driver demo_world demo_flags = run ?w demo_flags"
    using mode by (simp add: main_start_def New_sqlite_def demo_driver_def migrate_def)
  with mode st m show ?thesis by (simp add: run_def runControl_def)
qed

theorem process_starts_in_step_witness:
  "\<exists>p. main_start demo_driver demo_world demo_flags = Inr p \<and> in_step (pr_state p) \<and>
    view (a_store (pr_state p)) ''seed.example'' \<noteq> None \<and>
    view (a_store (pr_state p)) ''old.example'' \<noteq> None"
proof -
  obtain p where p: "main_start demo_driver demo_world demo_flags = Inr p" using demo_starts by blast
  have mode: "fl_mode demo_flags = ''control''" "fl_dbURL demo_flags = []" "fl_seedFile demo_flags \<noteq> []"
    by (simp_all add: demo_flags_def default_flags_def envOr_def)
  let ?w = "demo_world DialectSQLite"
  from process_starts_in_step[OF demo_world_ok p] mode(2)
  have i: "in_step (pr_state p)"
    and v: "view (a_store (pr_state p)) = seeded ?w demo_flags (view (w_db ?w))"
    by (simp_all add: Let_def)
  have "w_seed ?w = Inr (marshal_entries [demo_seed_entry])" "w_db ?w = demo_db"
    by (simp_all add: demo_world_def)
  with mode(1,3) have "seeded ?w demo_flags (view (w_db ?w)) = fold add_entry [demo_seed_entry] (view demo_db)"
    by (simp add: seeded_def demo_seed)
  then have d: "dom (view (a_store (pr_state p))) = insert ''seed.example'' (dom (view demo_db))"
    unfolding v by (simp only: dom_fold_add) (simp add: demo_seed_entry_def)
  have "view demo_db ''old.example'' \<noteq> None" by (simp add: view_def find_domain_def demo_defs)
  then have "''old.example'' \<in> dom (view (a_store (pr_state p)))" unfolding d by blast
  moreover have "''seed.example'' \<in> dom (view (a_store (pr_state p)))" unfolding d by blast
  ultimately show ?thesis using p i by blast
qed

definition demo_delete :: http_request where
  "demo_delete = \<lparr>h_req = demo_request ''admin.example'' ''/api/v1/domains/old.example'',
     h_api = demo_call ''DELETE'' [''domains'', ''old.example''] []\<rparr>"

lemma demo_delete_handled:
  "snd (admin_handler ui ''secret'' dp demo_delete st) = snd (deleteDomain dp ''old.example'' st)"
proof -
  have r: "route ''DELETE'' [''api'', ''v1'', ''domains'', ''old.example''] = DeleteDomainRoute ''old.example''"
    by code_simp
  have "snd (buildAdminRouter ui ''secret'' dp (h_api demo_delete) st) = snd (deleteDomain dp ''old.example'' st)"
    by (simp add: demo_delete_def demo_call_def buildAdminRouter_def TokenAuth_def CORS_def apiMux_def r
        split: prod.split)
  then show ?thesis by (auto simp: admin_handler_def Logging_def Let_def split: prod.split)
qed

lemma demo_delete_view:
  assumes "world_ok w" and "in_step st"
  shows "view (a_store (snd (deleteDomain (w_deps w) n st))) n = None"
proof -
  let ?dp = "w_deps w"
  from assms(2) have g: "good (a_store st)" by (simp add: in_step_def)
  let ?s = "snd (sql_delete_domain n (a_store st))"
  have e: "DeleteDomain (dp_env ?dp) n (a_store st) = (Inr (), ?s)"
    using goodD(2)[OF g] by (simp add: DeleteDomain_def sql_delete_domain_def)
  have "a_store (snd (deleteDomain ?dp n st)) = ?s"
    using delete_domain.succeeded(2)[OF assms(2) e] assms(1)
    by (simp add: deleteDomain_def e world_ok_def)
  with view_delete_domain[OF goodD(1)[OF g], of n] show ?thesis by simp
qed

theorem only_admins_change_data_witness:
  "\<exists>p ln rep st'. main_start demo_driver demo_world demo_flags = Inr p \<and> ln \<in> set (pr_listeners p) \<and>
     ln_Handler ln demo_delete demo_api = (rep, st') \<and> view (a_store st') ''old.example'' = None \<and>
     ar_Query (h_api demo_delete) ''token'' = fl_token demo_flags"
proof -
  let ?w = "demo_world DialectSQLite"
  obtain p ln where p: "main_start demo_driver demo_world demo_flags = Inr p"
    and ln: "ln \<in> set (pr_listeners p)"
      "ln_Handler ln = admin_handler (w_ui ?w) ''secret'' (w_deps ?w)" using demo_starts by blast
  obtain rep st' where h: "ln_Handler ln demo_delete demo_api = (rep, st')" by fastforce
  from h ln(2) demo_delete_handled have "st' = snd (deleteDomain (w_deps ?w) ''old.example'' demo_api)"
    by (metis snd_conv)
  then have gone: "view (a_store st') ''old.example'' = None"
    using demo_delete_view[OF demo_world_ok demo_api_ok(1)] by simp
  have "view (a_store demo_api) ''old.example'' \<noteq> None"
    unfolding demo_api_ok(2) by (simp add: view_def find_domain_def demo_defs)
  with gone have "(a_store st')\<lparr>faults := []\<rparr> \<noteq> (a_store demo_api)\<lparr>faults := []\<rparr>"
    by (metis view_faults)
  from only_admins_change_data[OF _ p ln(1) h this] demo_world_ok p ln(1) h gone show ?thesis
    by (auto simp: world_ok_def)
qed

theorem http_fallback_answers_witness:
  "\<exists>rep st'. httpFallback \<lparr>h_req = demo_request ''old.example:80'' ''/docs'', h_api = demo_call ''GET'' [] []\<rparr> demo_api
     = (Redirected rep, st') \<and> rep \<noteq> NotFound"
proof -
  let ?r = "\<lparr>h_req = demo_request ''old.example:80'' ''/docs'', h_api = demo_call ''GET'' [] []\<rparr>"
  obtain rep st' where h: "httpFallback ?r demo_api = (Redirected rep, st')"
    by (cases "httpFallback ?r demo_api")
      (auto simp: httpFallback_def redirect_handler_def https_upgrade_def split: prod.splits if_splits)
  have n: "length (domains (a_store demo_api)) \<le> 100000"
    unfolding demo_api_ok(2) by (simp add: demo_db_def)
  have c: "count_list (rq_Host (h_req ?r)) (CHR '':'') \<le> 1" by (simp add: demo_request_def)
  obtain x where v: "view (a_store demo_api) (stripPort (rq_Host (h_req ?r))) = Some x" "s_Enabled x"
    unfolding demo_api_ok(2)
    by (simp add: stripPort_def view_def find_domain_def site_of_def demo_defs demo_request_def)
  from http_fallback_answers[OF demo_api_ok(1) n c h] v have "rep \<noteq> NotFound" by simp
  with h show ?thesis by blast
qed

end
