(* ===== verification/Json_Types.thy ===== *)
theory Json_Types
  imports Json
begin

text \<open>
  What decoding can yield: every string is valid UTF-8 and every number fits 64 bits,
  whatever bytes the text held.
\<close>

section \<open>Strings\<close>

lemma runes_append:
  assumes "utf8_width r = length r" and "r \<noteq> []"
  shows "runes (r @ t) = r # runes t"
proof -
  obtain c cs where r: "r = c # cs" using assms(2) by (cases r) auto
  have "utf8_width (c # cs @ t) = length r" using utf8_width_append[OF assms, of t] by (simp add: r)
  with r show ?thesis by (simp del: utf8_width.simps add: Let_def)
qed

lemma valid_append:
  "utf8_width r = length r \<Longrightarrow> r \<noteq> [] \<Longrightarrow> valid_utf8 (r @ t) = valid_utf8 t"
  by (simp add: valid_utf8_def runes_append)

lemma byte_char_of: "n < 256 \<Longrightarrow> byte (char_of n) = n"
  by simp

definition scalar :: "nat \<Rightarrow> bool" where
  "scalar n \<longleftrightarrow> n < 55296 \<or> 57344 \<le> n \<and> n < 1114112"

lemma encode_rune_width2:
  assumes "128 \<le> n" and "n < 2048"
  shows "utf8_width (encode_rune n) = 2 \<and> length (encode_rune n) = 2"
proof -
  define a b where "a = n div 64" and "b = n mod 64"
  have "2 \<le> a" "a < 32" "b < 64" using assms by (auto simp: a_def b_def)
  then have "utf8_width [char_of (192 + a), char_of (128 + b)] = 2"
    by (simp add: is_cont_def Let_def)
  with assms show ?thesis by (simp add: encode_rune_def a_def b_def)
qed

lemma encode_rune_width3:
  assumes "2048 \<le> n" and "n < 65536" and "\<not> (55296 \<le> n \<and> n < 57344)"
  shows "utf8_width (encode_rune n) = 3 \<and> length (encode_rune n) = 3"
proof -
  define m a b c where "m = n div 64" and "a = m div 64" and "b = m mod 64" and "c = n mod 64"
  have m: "32 \<le> m" "m < 1024" "\<not> (864 \<le> m \<and> m < 896)" using assms by (auto simp: m_def)
  have a: "n div 4096 = a" by (simp add: a_def m_def div_mult2_eq[symmetric])
  have mab: "m = 64 * a + b" by (simp add: a_def b_def)
  have lt: "a < 16" "b < 64" "c < 64" using m by (auto simp: a_def b_def c_def)
  have lo: "a = 0 \<longrightarrow> 32 \<le> b" and hi: "a = 13 \<longrightarrow> b < 32" using m mab lt by auto
  have "utf8_width [char_of (224 + a), char_of (128 + b), char_of (128 + c)] = 3"
    using lt lo hi by (auto simp: is_cont_def Let_def)
  with assms a show ?thesis by (simp add: encode_rune_def b_def c_def m_def)
qed

lemma encode_rune_width4:
  assumes "65536 \<le> n" and "n < 1114112"
  shows "utf8_width (encode_rune n) = 4 \<and> length (encode_rune n) = 4"
proof -
  define m k a b c d where "m = n div 64" and "k = m div 64" and "a = k div 64" and "b = k mod 64"
    and "c = m mod 64" and "d = n mod 64"
  have m: "1024 \<le> m" "m < 17408" using assms by (auto simp: m_def)
  have k: "16 \<le> k" "k < 272" using m by (auto simp: k_def)
  have e: "n div 4096 = k" "n div 262144 = a"
    by (simp_all add: a_def k_def m_def div_mult2_eq[symmetric])
  have kab: "k = 64 * a + b" by (simp add: a_def b_def)
  have lt: "a < 5" "b < 64" "c < 64" "d < 64" using k by (auto simp: a_def b_def c_def d_def)
  have lo: "a = 0 \<longrightarrow> 16 \<le> b" and hi: "a = 4 \<longrightarrow> b < 16" using k kab lt by auto
  have "utf8_width [char_of (240 + a), char_of (128 + b), char_of (128 + c), char_of (128 + d)] = 4"
    using lt lo hi by (auto simp: is_cont_def Let_def)
  with assms e show ?thesis by (simp add: encode_rune_def b_def c_def d_def m_def)
qed

lemma encode_rune_valid:
  assumes "scalar n"
  shows "utf8_width (encode_rune n) = length (encode_rune n) \<and> encode_rune n \<noteq> []"
proof -
  have ne: "encode_rune n \<noteq> []" by (simp add: encode_rune_def)
  consider "n < 128" | "128 \<le> n" "n < 2048" | "2048 \<le> n" "n < 65536" | "65536 \<le> n" by linarith
  then show ?thesis
  proof cases
    case 1
    then show ?thesis by (simp add: encode_rune_def Let_def)
  next
    case 2
    from encode_rune_width2[OF this] ne show ?thesis by simp
  next
    case 3
    with assms encode_rune_width3[of n] ne show ?thesis by (auto simp: scalar_def)
  next
    case 4
    with assms encode_rune_width4[of n] ne show ?thesis by (auto simp: scalar_def)
  qed
qed

lemma replacement_valid: "utf8_width replacement = length replacement \<and> replacement \<noteq> []"
  by (simp add: replacement_def is_cont_def Let_def)

lemma hex_val_less: "hex_val c = Some n \<Longrightarrow> n < 16"
  by (auto simp: hex_val_def Let_def split: if_splits)

lemma getu4_less: "getu4 s = Some (n, rest) \<Longrightarrow> n < 65536"
  by (induction s rule: getu4.induct)
    (auto split: if_splits option.splits dest!: hex_val_less)

lemma unescape_cases:
  assumes "unescape s = Some (bs, rest)"
  shows "(\<exists>c. bs = [c] \<and> byte c < 128) \<or> bs = replacement \<or> (\<exists>n. scalar n \<and> bs = encode_rune n)"
proof -
  have pair: "scalar (65536 + (n - 55296) * 1024 + (m - 56320))"
    if "n < 56320" "m < 57344" for n m :: nat
    using that by (simp add: scalar_def)
  have plain: "scalar n" if "getu4 s = Some (n, r)" "\<not> (55296 \<le> n \<and> n < 57344)" for n r
    using getu4_less[OF that(1)] that(2) by (auto simp: scalar_def)
  obtain b c cs where s: "s = b # c # cs" using assms by (auto simp: unescape_def split: list.splits)
  show ?thesis
  proof (cases "c \<in> {CHR 0x22, CHR 0x5C, CHR ''/'', CHR ''b'', CHR ''f'', CHR ''n'', CHR ''r'', CHR ''t''}")
    case True
    with assms show ?thesis by (auto simp: s unescape_def)
  next
    case False
    with assms obtain n r1 where u: "getu4 s = Some (n, r1)" by (auto simp: s unescape_def split: option.splits)
    show ?thesis
    proof (cases "55296 \<le> n \<and> n < 57344")
      case out: False
      with False assms u have "bs = encode_rune n"
        by (auto simp: s unescape_def simp del: getu4.simps split: if_splits)
      with plain[OF u out] show ?thesis by blast
    next
      case half: True
      show ?thesis
      proof (cases "\<exists>m r2. getu4 r1 = Some (m, r2) \<and> n < 56320 \<and> 56320 \<le> m \<and> m < 57344")
        case True
        then obtain m r2 where m: "getu4 r1 = Some (m, r2)" "n < 56320" "56320 \<le> m" "m < 57344" by blast
        with False half assms u have "bs = encode_rune (65536 + (n - 55296) * 1024 + (m - 56320))"
          by (auto simp: s unescape_def simp del: getu4.simps)
        with pair[OF m(2,4)] show ?thesis by blast
      next
        case lone: False
        with False half assms u have "bs = replacement"
          by (auto simp: s unescape_def simp del: getu4.simps split: option.splits if_splits)
        then show ?thesis by blast
      qed
    qed
  qed
qed

lemma unescape_valid: "unescape s = Some (bs, rest) \<Longrightarrow> utf8_width bs = length bs \<and> bs \<noteq> []"
  using unescape_cases[of s bs rest] encode_rune_valid replacement_valid by (auto simp: Let_def)

lemma lex_str_valid: "lex_str s = Some (a, r) \<Longrightarrow> valid_utf8 a"
proof (induction s arbitrary: a r rule: lex_str.induct)
  case 1
  then show ?case by simp
next
  case (2 c cs)
  let ?w = "utf8_width (c # cs)"
  have front: "utf8_width (take ?w (c # cs)) = length (take ?w (c # cs)) \<and> take ?w (c # cs) \<noteq> []"
    if "?w \<noteq> 0"
    using that utf8_width_prefix[of "c # cs" ?w] utf8_width_le[of "c # cs"] by (auto simp: min_def)
  consider "c = CHR 0x22" | "c \<noteq> CHR 0x22" "c = CHR 0x5C"
    | "c \<noteq> CHR 0x22" "c \<noteq> CHR 0x5C" "\<not> byte c < 32" "?w = 0"
    | "c \<noteq> CHR 0x22" "c \<noteq> CHR 0x5C" "\<not> byte c < 32" "?w \<noteq> 0"
    | "c \<noteq> CHR 0x22" "c \<noteq> CHR 0x5C" "byte c < 32" by blast
  then show ?case
  proof cases
    case 1
    with "2.prems" show ?thesis by (simp add: valid_utf8_def)
  next
    case 2
    with "2.prems" obtain bs rest a' where u: "unescape (c # cs) = Some (bs, rest)"
      and l: "lex_str rest = Some (a', r)" and a: "a = bs @ a'"
      by (auto split: option.splits)
    from "2.IH"(1)[OF 2 u refl l] unescape_valid[OF u] show ?thesis by (simp add: a valid_append)
  next
    case 3
    with "2.prems" obtain a' where l: "lex_str cs = Some (a', r)" and a: "a = replacement @ a'"
      by (auto simp del: utf8_width.simps)
    from "2.IH"(2)[OF 3 l] replacement_valid show ?thesis by (simp add: a valid_append)
  next
    case 4
    with "2.prems" obtain a' where l: "lex_str (drop ?w (c # cs)) = Some (a', r)"
      and a: "a = take ?w (c # cs) @ a'"
      by (auto simp del: utf8_width.simps)
    from "2.IH"(3)[OF 4 l] front[OF 4(4)] show ?thesis
      by (simp add: a valid_append del: utf8_width.simps take.simps)
  next
    case 5
    with "2.prems" show ?thesis by simp
  qed
qed

section \<open>Values\<close>

definition token_typed :: "token \<Rightarrow> bool" where
  "token_typed t \<longleftrightarrow> (\<forall>s. t = TStr s \<longrightarrow> valid_utf8 s)"

lemma token_typed_simps [simp]:
  "token_typed (TStr s) = valid_utf8 s" "token_typed (TNum l)" "token_typed TNull" "token_typed TTrue"
  "token_typed TFalse" "token_typed TLBrace" "token_typed TRBrace" "token_typed TLBracket"
  "token_typed TRBracket" "token_typed TComma" "token_typed TColon" "token_typed TErr"
  by (simp_all add: token_typed_def)

lemma tokens_typed: "list_all token_typed (tokens s)"
proof (induction s rule: length_induct)
  case (1 s)
  show ?case
  proof (cases s)
    case (Cons c cs)
    have a: "list_all token_typed (tokens cs)" and b: "list_all token_typed (tokens (drop n cs))" for n
      using 1 Cons by simp_all
    have l: "valid_utf8 x \<and> list_all token_typed (tokens r)" if "lex_str cs = Some (x, r)" for x r
      using 1 Cons that by (auto dest: lex_str_valid lex_str_length)
    have m: "list_all token_typed (tokens r)" if "lex_num (c # cs) = Some (x, r)" for x r
      using 1 Cons lex_num_length[OF that] by simp
    show ?thesis
      unfolding Cons tokens.simps(2) using a b l m by (simp split: option.split)
  qed simp
qed

fun json_typed :: "json \<Rightarrow> bool" where
  "json_typed (JStr s) = valid_utf8 s"
| "json_typed (JArr vs) = list_all json_typed vs"
| "json_typed (JObj ms) = list_all (\<lambda>(k, v). json_typed v) ms"
| "json_typed _ = True"

fun ctx_typed :: "ctx \<Rightarrow> bool" where
  "ctx_typed (CArr vs) = list_all json_typed vs"
| "ctx_typed (CObj ms k) = list_all (\<lambda>(k, v). json_typed v) ms"

lemma next_key_tail: "next_key ts = Some (k, ts') \<Longrightarrow> list_all P ts \<Longrightarrow> list_all P ts'"
  by (auto simp: next_key_def split: list.splits token.splits if_splits)

text \<open>One step of the parser ends in a call on fewer tokens, all of it typed.\<close>

definition pstep :: "token list \<Rightarrow> json \<Rightarrow> token list \<Rightarrow> bool" where
  "pstep ts j r \<longleftrightarrow>
     (\<exists>st v us. pafter st v us = Some (j, r) \<and> length us < length ts \<and> list_all ctx_typed st \<and>
        json_typed v \<and> list_all token_typed us) \<or>
     (\<exists>st us. pvalue st us = Some (j, r) \<and> length us < length ts \<and> list_all ctx_typed st \<and>
        list_all token_typed us)"

lemma pstep_after:
  "pafter st v us = Some (j, r) \<Longrightarrow> length us < length ts \<Longrightarrow> list_all ctx_typed st \<Longrightarrow> json_typed v \<Longrightarrow>
   list_all token_typed us \<Longrightarrow> pstep ts j r"
  by (auto simp: pstep_def)

lemma pstep_value:
  "pvalue st us = Some (j, r) \<Longrightarrow> length us < length ts \<Longrightarrow> list_all ctx_typed st \<Longrightarrow>
   list_all token_typed us \<Longrightarrow> pstep ts j r"
  by (auto simp: pstep_def)

lemma tl_facts: "list_all P (tl us)" "length (tl us) < Suc (length us)" if "list_all P us"
  using that by (cases us; simp)+

lemma pvalue_step:
  assumes "list_all ctx_typed st" and "list_all token_typed ts" and "pvalue st ts = Some (j, r)"
  shows "pstep ts j r"
proof -
  from assms(3) obtain t us where ts: "ts = t # us"
    by (cases ts) (simp_all add: pvalue.simps[of st "[]"])
  with assms(2) have us: "list_all token_typed us" "token_typed t" by simp_all
  note simps = pvalue.simps[of st "x # us" for x] ts
  show ?thesis
  proof (cases t)
    case TLBracket
    show ?thesis
    proof (cases "us \<noteq> [] \<and> hd us = TRBracket")
      case True
      with TLBracket assms(3) have "pafter st (JArr []) (tl us) = Some (j, r)"
        by (simp add: simps split: if_splits)
      from pstep_after[OF this] show ?thesis using tl_facts[OF us(1)] assms(1) by (simp_all add: ts)
    next
      case False
      with TLBracket assms(3) have "pvalue (CArr [] # st) us = Some (j, r)"
        by (auto simp: simps split: if_splits)
      from pstep_value[OF this] show ?thesis using us assms(1) by (simp_all add: ts)
    qed
  next
    case TLBrace
    show ?thesis
    proof (cases "us \<noteq> [] \<and> hd us = TRBrace")
      case True
      with TLBrace assms(3) have "pafter st (JObj []) (tl us) = Some (j, r)"
        by (simp add: simps split: if_splits)
      from pstep_after[OF this] show ?thesis using tl_facts[OF us(1)] assms(1) by (simp_all add: ts)
    next
      case False
      with TLBrace assms(3) obtain k vs where k: "next_key us = Some (k, vs)"
        and v: "pvalue (CObj [] k # st) vs = Some (j, r)"
        by (auto simp: simps split: if_splits option.splits)
      from pstep_value[OF v] show ?thesis using next_key_tail[OF k us(1)] next_key_length[OF k] assms(1)
          by (simp_all add: ts)
    qed
  qed (use assms us in \<open>auto simp: simps intro: pstep_after\<close>)
qed

lemma pafter_step:
  assumes "list_all ctx_typed st" and "json_typed v" and "list_all token_typed ts"
    and "pafter st v ts = Some (j, r)" and "st \<noteq> []"
  shows "pstep ts j r"
proof -
  from assms(5) obtain c st' where st: "st = c # st'" by (cases st) auto
  with assms(4) obtain t us where ts: "ts = t # us"
    by (cases ts; cases c) (simp_all add: st pafter.simps[of "x # st'" v "[]" for x])
  with assms(3) have us: "list_all token_typed us" by simp
  note simps = pafter.simps[of "x # st'" v "y # us" for x y] st ts
  show ?thesis
  proof (cases c)
    case (CArr vs)
    have vs: "list_all json_typed vs" "list_all ctx_typed st'" using assms(1) by (simp_all add: st CArr)
    show ?thesis
    proof (cases "t = TComma")
      case True
      with CArr assms(4) have "pvalue (CArr (v # vs) # st') us = Some (j, r)" by (simp add: simps)
      from pstep_value[OF this] show ?thesis using us vs assms(2) by (simp_all add: ts)
    next
      case False
      with CArr assms(4) have "pafter st' (JArr (rev (v # vs))) us = Some (j, r)"
        by (simp add: simps split: if_splits)
      from pstep_after[OF this] show ?thesis using us vs assms(2) by (simp_all add: ts list_all_iff)
    qed
  next
    case (CObj ms k)
    have ms: "list_all (\<lambda>(k, v). json_typed v) ms" "list_all ctx_typed st'"
      using assms(1) by (simp_all add: st CObj)
    show ?thesis
    proof (cases "t = TComma")
      case True
      with CObj assms(4) obtain k' vs where k: "next_key us = Some (k', vs)"
        and p: "pvalue (CObj ((k, v) # ms) k' # st') vs = Some (j, r)"
        by (auto simp: simps split: option.splits)
      from pstep_value[OF p] show ?thesis using next_key_tail[OF k us] next_key_length[OF k] ms assms(2)
          by (simp_all add: ts)
    next
      case False
      with CObj assms(4) have "pafter st' (JObj (rev ((k, v) # ms))) us = Some (j, r)"
        by (simp add: simps split: if_splits)
      from pstep_after[OF this] show ?thesis using us ms assms(2) by (auto simp: ts list_all_iff)
    qed
  qed
qed

lemma parsed_typed:
  "length ts < n \<Longrightarrow> list_all ctx_typed st \<Longrightarrow> list_all token_typed ts \<Longrightarrow>
   (pvalue st ts = Some (j, r) \<longrightarrow> json_typed j) \<and>
   (json_typed v \<longrightarrow> pafter st v ts = Some (j, r) \<longrightarrow> json_typed j)"
proof (induction n arbitrary: st ts v)
  case (Suc n)
  have go: "json_typed j" if "pstep ts j r"
    using that Suc.IH Suc.prems(1) unfolding pstep_def by (metis less_Suc_eq_le order_less_le_trans)
  show ?case
  proof (intro conjI impI)
    assume "pvalue st ts = Some (j, r)"
    from go[OF pvalue_step[OF Suc.prems(2,3) this]] show "json_typed j" .
  next
    assume v: "json_typed v" and p: "pafter st v ts = Some (j, r)"
    show "json_typed j"
    proof (cases "st = []")
      case True
      with p v show ?thesis by (simp add: pafter.simps[of "[]"])
    next
      case False
      from go[OF pafter_step[OF Suc.prems(2) v Suc.prems(3) p False]] show ?thesis .
    qed
  qed
qed simp

lemma json_decode_typed: "json_decode s = Some j \<Longrightarrow> json_typed j"
  using parsed_typed[of "tokens s" "Suc (length (tokens s))" "[]" j] tokens_typed[of s]
  by (auto simp: json_decode_def)

lemma json_unmarshal_typed: "json_unmarshal s = Some j \<Longrightarrow> json_typed j"
  using parsed_typed[of "tokens s" "Suc (length (tokens s))" "[]" j] tokens_typed[of s]
  by (auto simp: json_unmarshal_def split: option.splits prod.splits list.splits)

section \<open>Decoded structs\<close>

text \<open>A field decoder that keeps a property of the struct.\<close>

definition decodes :: "('a \<Rightarrow> bool) \<Rightarrow> (json \<Rightarrow> 'a \<Rightarrow> 'a option) \<Rightarrow> bool" where
  "decodes P f \<longleftrightarrow> (\<forall>j x x'. json_typed j \<longrightarrow> P x \<longrightarrow> f j x = Some x' \<longrightarrow> P x')"

named_theorems decodes_intros "field decoders that keep a property"

lemma decodesD: "decodes P f \<Longrightarrow> json_typed j \<Longrightarrow> P x \<Longrightarrow> f j x = Some x' \<Longrightarrow> P x'"
  by (auto simp: decodes_def)

lemma decodes_set_str [decodes_intros]:
  "(\<And>x s. P x \<Longrightarrow> valid_utf8 s \<Longrightarrow> P (upd (\<lambda>_. s) x)) \<Longrightarrow> decodes P (set_str upd)"
  by (auto simp: decodes_def set_str_def split: json.splits)

lemma parse_int_range: "parse_int l = (v, False) \<Longrightarrow> is_int64 v"
  by (auto simp: parse_int_def is_int64_def Let_def split: if_splits)

lemma decodes_set_int [decodes_intros]:
  assumes "\<And>x i. P x \<Longrightarrow> is_int64 i \<Longrightarrow> P (upd (\<lambda>_. i) x)"
  shows "decodes P (set_int upd)"
  unfolding decodes_def set_int_def using assms parse_int_range
  by (auto split: json.splits prod.splits if_splits)

lemma decodes_set_bool [decodes_intros]:
  "(\<And>x b. P x \<Longrightarrow> P (upd (\<lambda>_. b) x)) \<Longrightarrow> decodes P (set_bool upd)"
  by (auto simp: decodes_def set_bool_def split: json.splits)

lemma decodes_set_bool_ptr [decodes_intros]:
  "(\<And>x b. P x \<Longrightarrow> P (updp (\<lambda>_. b) x)) \<Longrightarrow> decodes P (set_bool_ptr updp)"
  by (auto simp: decodes_def set_bool_ptr_def split: json.splits)

lemma lookup_field_in:
  assumes "lookup_field fs k = Some f"
  shows "f \<in> snd ` set fs"
proof -
  from assms obtain n where "(n, f) \<in> set fs"
    by (auto simp: lookup_field_def find_Some_iff split: option.splits dest: nth_mem)
  then show ?thesis by force
qed

lemma decode_fields_keep:
  assumes "\<forall>f \<in> snd ` set fs. decodes P f" and "list_all (\<lambda>(k, v). json_typed v) ms" and "P x"
    and "decode_fields fs ms x = Some x'"
  shows "P x'"
  using assms(2-4)
proof (induction ms arbitrary: x)
  case (Cons m ms)
  obtain k j where m: "m = (k, j)" by fastforce
  show ?case
  proof (cases "lookup_field fs k")
    case None
    with Cons m show ?thesis by simp
  next
    case (Some f)
    with Cons.prems m obtain y where y: "f j x = Some y" "decode_fields fs ms y = Some x'"
      by (auto split: option.splits)
    from assms(1) lookup_field_in[OF Some] have "decodes P f" by blast
    with y(1) Cons.prems m have "P y" by (auto dest: decodesD)
    with Cons.IH[OF _ this y(2)] Cons.prems show ?thesis by simp
  qed
qed simp

lemma decodes_struct [decodes_intros]:
  assumes "list_all (\<lambda>(k, f). decodes P f) fs"
  shows "decodes P (decode_struct fs)"
proof (unfold decodes_def, intro allI impI)
  fix j x x'
  assume j: "json_typed j" and x: "P x" and d: "decode_struct fs j x = Some x'"
  from assms have fs: "\<forall>f \<in> snd ` set fs. decodes P f" by (auto simp: list_all_iff)
  show "P x'"
  proof (cases j)
    case (JObj ms)
    with d have "decode_fields fs ms x = Some x'" by (simp add: decode_struct_def)
    from decode_fields_keep[OF fs _ x this] j JObj show ?thesis by simp
  qed (use d x in \<open>simp_all add: decode_struct_def\<close>)
qed

lemma decode_elems_keep:
  assumes "decodes P f" and "P z" and "list_all json_typed js" and "list_all P old"
    and "decode_elems f z js old = Some ys"
  shows "list_all P ys"
  using assms(3-5)
proof (induction js arbitrary: old ys)
  case (Cons j js)
  then obtain y ys' where y: "f j (case old of [] \<Rightarrow> z | x # _ \<Rightarrow> x) = Some y"
    and ys: "decode_elems f z js (tl old) = Some ys'" "ys = y # ys'"
    by (auto split: option.splits)
  have "P (case old of [] \<Rightarrow> z | x # _ \<Rightarrow> x)" using assms(2) Cons.prems(2) by (cases old) simp_all
  with decodesD[OF assms(1) _ _ y] Cons.prems(1) have "P y" by simp
  moreover have "list_all P (tl old)" using Cons.prems(2) by (cases old) simp_all
  ultimately show ?case using Cons.IH[OF _ _ ys(1)] Cons.prems(1) ys(2) by simp
qed simp

lemma decode_slice_keep:
  "decodes P f \<Longrightarrow> P z \<Longrightarrow> json_typed j \<Longrightarrow> list_all P old \<Longrightarrow> decode_slice f z j old = Some ys \<Longrightarrow>
   list_all P ys"
  by (auto simp: decode_slice_def split: json.splits intro: decode_elems_keep)

definition domain_typed :: "domain \<Rightarrow> bool" where
  "domain_typed d \<longleftrightarrow> valid_utf8 (d_Name d) \<and> valid_utf8 (d_DefaultURL d) \<and> is_int64 (d_StatusCode d)"

definition rule_typed :: "redirect_rule \<Rightarrow> bool" where
  "rule_typed r \<longleftrightarrow> valid_utf8 (r_Path r) \<and> valid_utf8 (r_TargetURL r) \<and> is_int64 (r_StatusCode r) \<and>
     is_int64 (r_Priority r)"

lemma zero_typed [simp]: "is_int64 0" "valid_utf8 []"
  by (simp_all add: is_int64_def min_int64_def max_int64_def valid_utf8_def)

lemma domain_decoder_typed: "decodes domain_typed (decode_struct domain_fields)"
  by (rule decodes_struct) (auto simp: domain_fields_def domain_typed_def intro!: decodes_intros)

lemma rule_decoder_typed: "decodes rule_typed (decode_struct rule_fields)"
  by (rule decodes_struct) (auto simp: rule_fields_def rule_typed_def intro!: decodes_intros)

lemma import_rule_decoder_typed: "decodes import_rule_ok (decode_struct import_rule_fields)"
  by (rule decodes_struct) (auto simp: import_rule_fields_def import_rule_ok_def intro!: decodes_intros)

lemma set_rules_typed: "decodes entry_ok set_rules"
proof (unfold decodes_def, intro allI impI)
  fix j x x' assume j: "json_typed j" and x: "entry_ok x" and s: "set_rules j x = Some x'"
  then obtain rs where rs: "decode_slice (decode_struct import_rule_fields) zero_import_rule j (ie_Rules x) = Some rs"
    "x' = x\<lparr>ie_Rules := rs\<rparr>" by (auto simp: set_rules_def)
  have "import_rule_ok zero_import_rule" by (simp add: zero_import_rule_def import_rule_ok_def)
  from decode_slice_keep[OF import_rule_decoder_typed this j _ rs(1)] x rs(2)
  show "entry_ok x'" by (simp add: entry_ok_def)
qed

lemma entry_decoder_typed: "decodes entry_ok (decode_struct entry_fields)"
proof (rule decodes_struct)
  have "decodes entry_ok (set_str ie_DomainName_update)" "decodes entry_ok (set_str ie_DefaultURL_update)"
    "decodes entry_ok (set_int ie_StatusCode_update)" "decodes entry_ok (set_bool_ptr ie_Enabled_update)"
    by (auto simp: entry_ok_def intro!: decodes_intros)
  with set_rules_typed show "list_all (\<lambda>(k, f). decodes entry_ok f) entry_fields"
    by (simp add: entry_fields_def)
qed

lemma decode_domain_typed: "json_typed j \<Longrightarrow> decode_domain j = Some d \<Longrightarrow> domain_typed d"
  using decodesD[OF domain_decoder_typed, of j zero_domain d]
  by (simp add: decode_domain_def zero_domain_def domain_typed_def)

lemma decode_rule_typed: "json_typed j \<Longrightarrow> decode_rule j = Some r \<Longrightarrow> rule_typed r"
  using decodesD[OF rule_decoder_typed, of j zero_rule r]
  by (simp add: decode_rule_def zero_rule_def rule_typed_def)

lemma decode_entries_typed: "json_typed j \<Longrightarrow> decode_entries j = Some es \<Longrightarrow> list_all entry_ok es"
  using decode_slice_keep[OF entry_decoder_typed, of zero_entry j "[]" es]
  by (simp add: decode_entries_def zero_entry_def entry_ok_def)

end
