(* ===== verification/Api_Typed.thy ===== *)
theory Api_Typed
  imports Modes_Props Json_Types
begin

text \<open>
  The rows of a node stay well-typed: names, paths and targets are valid UTF-8, statuses and
  priorities fit 64 bits, whatever requests arrive, whatever object the bucket holds and
  whatever the database does. So an export can always be published and read back.
\<close>

section \<open>Typed tables\<close>

definition typed_db :: "db \<Rightarrow> bool" where
  "typed_db s \<longleftrightarrow> (\<forall>d \<in> set (domains s). domain_typed d) \<and> (\<forall>r \<in> set (redirect_rules s). rule_typed r)"

lemma typed_dbD:
  "typed_db s \<Longrightarrow> d \<in> set (domains s) \<Longrightarrow> domain_typed d"
  "typed_db s \<Longrightarrow> r \<in> set (redirect_rules s) \<Longrightarrow> rule_typed r"
  by (simp_all add: typed_db_def)

lemma fault_free_typed [simp]: "fault_free_prop typed_db"
  by (simp add: fault_free_prop_def typed_db_def)

lemma typed_seqs [simp]:
  "typed_db (burn_dom_seq env s) = typed_db s" "typed_db (burn_rule_seq env s) = typed_db s"
  "typed_db (rollback env s0 s1) = typed_db s0"
  by (simp_all add: typed_db_def burn_dom_seq_def burn_rule_seq_def rollback_def)

lemma typed_add_domain:
  "typed_db s \<Longrightarrow> valid_utf8 n \<Longrightarrow> valid_utf8 url \<Longrightarrow> is_int64 sc \<Longrightarrow> typed_db (add_domain env n url sc en s)"
  by (auto simp: typed_db_def add_domain_def domain_typed_def)

lemma typed_add_rule:
  "typed_db s \<Longrightarrow> valid_utf8 p \<Longrightarrow> valid_utf8 url \<Longrightarrow> is_int64 sc \<Longrightarrow> is_int64 prio \<Longrightarrow>
   typed_db (add_rule env i p url sc prio en s)"
  by (auto simp: typed_db_def add_rule_def rule_typed_def)

lemma default_status_int64: "is_int64 sc \<Longrightarrow> is_int64 (default_status sc)"
  by (simp add: default_status_def is_int64_def min_int64_def max_int64_def)

text \<open>Statements, given typed arguments.\<close>

lemma typed_deletes [keeps_intros]:
  "keeps typed_db (sql_delete_domain n)" "keeps typed_db (sql_delete_rule i)"
  by (auto intro!: keepsI simp: sql_delete_domain_def sql_delete_rule_def typed_db_def)

lemma typed_insert_domain:
  "valid_utf8 n \<Longrightarrow> valid_utf8 url \<Longrightarrow> is_int64 sc \<Longrightarrow> keeps typed_db (sql_insert_domain env n url sc en)"
  "valid_utf8 n \<Longrightarrow> valid_utf8 url \<Longrightarrow> is_int64 sc \<Longrightarrow> keeps typed_db (sql_insert_domain_ignore env n url sc)"
  by (auto intro!: keepsI simp: sql_insert_domain_def sql_insert_domain_ignore_def typed_add_domain
      split: option.split)

lemma typed_update_domain:
  "valid_utf8 url \<Longrightarrow> is_int64 sc \<Longrightarrow> keeps typed_db (sql_update_domain env n url sc en)"
  by (auto intro!: keepsI simp: sql_update_domain_def typed_db_def domain_typed_def)

lemma typed_upsert_domain:
  assumes "valid_utf8 n" and "valid_utf8 url" and "is_int64 sc"
  shows "keeps typed_db (sql_upsert_domain env n url sc en)"
  using assms keepsD[OF typed_update_domain[OF assms(2,3)]]
  by (intro keepsI) (auto simp: sql_upsert_domain_def typed_add_domain split: option.split)

lemma typed_insert_rule:
  "valid_utf8 p \<Longrightarrow> valid_utf8 url \<Longrightarrow> is_int64 sc \<Longrightarrow> is_int64 prio \<Longrightarrow>
    keeps typed_db (sql_insert_rule env i p url sc prio en)"
  "valid_utf8 p \<Longrightarrow> valid_utf8 url \<Longrightarrow> is_int64 sc \<Longrightarrow> is_int64 prio \<Longrightarrow>
    keeps typed_db (sql_insert_rule_ignore env i p url sc prio)"
  by (auto intro!: keepsI simp: sql_insert_rule_def sql_insert_rule_ignore_def typed_add_rule)

lemma typed_update_rule:
  "valid_utf8 p \<Longrightarrow> valid_utf8 url \<Longrightarrow> is_int64 sc \<Longrightarrow> is_int64 prio \<Longrightarrow>
    keeps typed_db (sql_update_rule env i p url sc prio en)"
  by (auto intro!: keepsI simp: sql_update_rule_def typed_db_def rule_typed_def split: option.split)

lemma typed_upsert_rule:
  assumes "valid_utf8 p" and "valid_utf8 url" and "is_int64 sc" and "is_int64 prio"
  shows "keeps typed_db (sql_upsert_rule env i p url sc prio en)"
proof (rule keepsI)
  fix s assume s: "typed_db s"
  show "typed_db (snd (sql_upsert_rule env i p url sc prio en s))"
    using assms s typed_add_rule[OF s assms]
    by (auto simp: sql_upsert_rule_def typed_db_def rule_typed_def)
qed

lemma typed_select [keeps_intros]: "keeps typed_db (select_domain_id n)"
  unfolding select_domain_id_def by (intro keeps_intros fault_free_typed)

section \<open>Store operations\<close>

lemma keeps_for_each_in:
  "(\<And>x. x \<in> set xs \<Longrightarrow> keeps P (f x)) \<Longrightarrow> keeps P (for_each f xs)"
proof (induction xs)
  case (Cons x xs)
  then show ?case by (auto intro!: keeps_intros)
qed (auto intro: keeps_intros)

lemma typed_transaction:
  assumes "keeps typed_db body"
  shows "keeps typed_db (transaction env body)"
proof (rule keepsI)
  fix s assume s: "typed_db s"
  have ret: "keeps typed_db (exec (retE ()))" by (intro keeps_intros fault_free_typed)
  obtain r0 s0 where b0: "exec (retE ()) s = (r0, s0)" by fastforce
  with keepsD[OF ret s] have w0: "typed_db s0" by simp
  obtain r1 s1 where b1: "body s0 = (r1, s1)" by fastforce
  with keepsD[OF assms w0] have w1: "typed_db s1" by simp
  obtain r2 s2 where b2: "exec (retE ()) s1 = (r2, s2)" by fastforce
  with keepsD[OF ret w1] have w2: "typed_db s2" by simp
  show "typed_db (snd (transaction env body s))"
    using b0 b1 b2 w0 w1 w2
    by (cases r0; cases r1; cases r2) (simp_all add: transaction_def bindE_def)
qed

lemma typed_CreateDomain: "domain_typed d \<Longrightarrow> keeps typed_db (CreateDomain env d)"
  unfolding CreateDomain_def domain_typed_def
  by (intro keeps_intros fault_free_typed) (auto intro: typed_insert_domain)

lemma typed_UpdateDomain: "domain_typed d \<Longrightarrow> keeps typed_db (UpdateDomain env n d)"
  unfolding UpdateDomain_def domain_typed_def
  by (intro keeps_intros fault_free_typed) (auto intro: typed_update_domain)

lemma typed_CreateRule: "rule_typed r \<Longrightarrow> keeps typed_db (CreateRule env r)"
  unfolding CreateRule_def rule_typed_def
  by (intro keeps_intros fault_free_typed) (auto intro: typed_insert_rule)

lemma typed_UpdateRule: "rule_typed r \<Longrightarrow> keeps typed_db (UpdateRule env i r)"
  unfolding UpdateRule_def rule_typed_def
  by (intro keeps_intros fault_free_typed) (auto intro: typed_update_rule)

lemma typed_deletions: "keeps typed_db (DeleteDomain env n)" "keeps typed_db (DeleteRule env i)"
  unfolding DeleteDomain_def DeleteRule_def by (intro keeps_intros fault_free_typed)+

lemma entry_rules: "entry_ok e \<Longrightarrow> r \<in> set (ie_Rules e) \<Longrightarrow> import_rule_ok r"
  by (auto simp: entry_ok_def list_all_iff)

lemma typed_import_entry:
  assumes "entry_ok e"
  shows "keeps typed_db (bulk_import_entry env e)"
proof -
  from assms have e: "valid_utf8 (ie_DomainName e)" "valid_utf8 (ie_DefaultURL e)"
    "is_int64 (default_status (ie_StatusCode e))"
    by (simp_all add: entry_ok_def default_status_int64)
  have "keeps typed_db (bulk_import_rule env n i r)" if "r \<in> set (ie_Rules e)" for n i r
    using entry_rules[OF assms that] unfolding bulk_import_rule_def import_rule_ok_def
    by (intro keeps_intros fault_free_typed) (auto intro: typed_insert_rule default_status_int64)
  then show ?thesis
    unfolding bulk_import_entry_def
    by (intro keeps_bindE keeps_map_err keeps_exec fault_free_typed typed_insert_domain(2) e
        keeps_for_each_in keeps_option keeps_retE typed_select) auto
qed

lemma typed_BulkImport: "list_all entry_ok es \<Longrightarrow> keeps typed_db (BulkImport env es)"
  unfolding BulkImport_def
  by (intro typed_transaction keeps_bindE keeps_retE keeps_for_each_in typed_import_entry)
    (auto simp: list_all_iff)

lemma typed_upsert_rules:
  "list_all import_rule_ok rs \<Longrightarrow> keeps typed_db (upsert_rules env name i rs keys)"
proof (induction rs arbitrary: keys)
  case (Cons r rs)
  then have "keeps typed_db (sql_upsert_rule env i (ir_Path r) (ir_TargetURL r)
      (default_status (ir_StatusCode r)) (ir_Priority r) en)" for en
    by (intro typed_upsert_rule default_status_int64) (simp_all add: import_rule_ok_def)
  with Cons show ?case by (auto simp: Let_def intro!: keeps_bindE keeps_map_err keeps_exec)
qed (simp add: keeps_retE)

lemma typed_upsert_entries:
  "list_all entry_ok es \<Longrightarrow> keeps typed_db (upsert_entries env es names keys)"
proof (induction es arbitrary: names keys)
  case (Cons e es)
  then have e: "keeps typed_db (sql_upsert_domain env (ie_DomainName e) (ie_DefaultURL e)
      (default_status (ie_StatusCode e)) en)" for en
    by (intro typed_upsert_domain default_status_int64) (simp_all add: entry_ok_def)
  have "keeps typed_db (upsert_domain env e)"
    unfolding upsert_domain_def by (intro keeps_intros fault_free_typed e)
  with Cons typed_upsert_rules show ?case
    by (auto simp: entry_ok_def intro!: keeps_bindE)
qed (simp add: keeps_retE)

lemma typed_orphans:
  "keeps typed_db (delete_orphan_rules names keys)" "keeps typed_db (delete_orphan_domains names)"
  unfolding delete_orphan_rules_def delete_orphan_domains_def by (auto intro!: keeps_intros)

lemma typed_BulkImportReplace: "list_all entry_ok es \<Longrightarrow> keeps typed_db (BulkImportReplace env es)"
  unfolding BulkImportReplace_def
  by (intro typed_transaction keeps_bindE typed_upsert_entries) (auto intro!: keeps_bindE typed_orphans)

section \<open>Handlers and polls\<close>

lemma typed_load_all: "typed_db s \<Longrightarrow> typed_db (snd (load_all env srt ds m s))"
proof (induction ds arbitrary: m s)
  case (Cons d ds)
  obtain r s1 where l: "ListRules env (d_ID d) s = (r, s1)" by fastforce
  with keepsD[OF keeps_ListRules_prop[OF fault_free_typed] Cons.prems, of env "d_ID d"]
  have "typed_db s1" by simp
  with Cons.IH[OF Cons.prems] Cons.IH l show ?case by (cases r) simp_all
qed simp

lemma typed_Reload: "typed_db s \<Longrightarrow> typed_db (snd (Reload env srt e s))"
  using keepsD[OF keeps_ListDomains_prop[OF fault_free_typed], of s env "[]" 100000 0] typed_load_all
  by (auto simp: Reload_def Let_def split: prod.splits sum.splits) (metis snd_conv)+

lemma typed_reload: "typed_db (a_store st) \<Longrightarrow> typed_db (a_store (reload dp st))"
  using typed_Reload[of "a_store st" "dp_env dp" "dp_srt dp" "n_engine (a_node st)"]
  by (auto simp: reload_def a_store_def split: prod.split)

lemma typed_Publish:
  "typed_db (n_store nd) \<Longrightarrow> typed_db (n_store (fst (snd (Publish svc env nd b))))"
  using keepsD[OF keeps_ExportAll[OF fault_free_typed], of "n_store nd" env]
  by (auto simp: Publish_def split: prod.split sum.split)

lemma typed_publish: "typed_db (a_store st) \<Longrightarrow> typed_db (a_store (publish dp st))"
  using typed_Publish[of "a_node st" "dp_s3 dp" "dp_env dp" "a_bucket st"]
  by (auto simp: publish_def a_store_def split: prod.split)

lemma typed_change:
  "typed_db s \<Longrightarrow> typed_db (a_store (publish dp (reload dp (set_store s st))))"
  by (intro typed_publish typed_reload) simp

text \<open>A handler that runs an operation which keeps the types.\<close>

lemma typed_after: "keeps typed_db m \<Longrightarrow> typed_db s \<Longrightarrow> m s = (r, s') \<Longrightarrow> typed_db s'"
  using keepsD[of typed_db m s] by simp

lemma decoded_typed:
  "Option.bind (json_decode t) decode_domain = Some d \<Longrightarrow> domain_typed d"
  "Option.bind (json_decode t) decode_rule = Some r \<Longrightarrow> rule_typed r"
  "Option.bind (json_decode t) decode_entries = Some es \<Longrightarrow> list_all entry_ok es"
  by (auto simp: bind_eq_Some_conv dest: json_decode_typed
      intro: decode_domain_typed decode_rule_typed decode_entries_typed)

lemma typed_createDomain:
  assumes st: "typed_db (a_store st)"
  shows "typed_db (a_store (snd (createDomain dp r st)))"
proof (cases "Option.bind (json_decode (ar_Body r)) decode_domain")
  case None
  with st show ?thesis by (simp add: createDomain_def)
next
  case (Some d)
  let ?d = "d\<lparr>d_StatusCode := (if d_StatusCode d = 0 then 301 else d_StatusCode d), d_Enabled := True\<rparr>"
  have "domain_typed ?d"
    using decoded_typed(1)[OF Some] default_status_int64[of "d_StatusCode d"]
    by (simp add: domain_typed_def default_status_def)
  from typed_after[OF typed_CreateDomain[OF this] st, of "dp_env dp"] show ?thesis
    using st by (auto simp: createDomain_def Some Let_def split: prod.split sum.split intro!: typed_change)
qed

lemma typed_updateDomain:
  assumes st: "typed_db (a_store st)"
  shows "typed_db (a_store (snd (updateDomain dp n r st)))"
proof (cases "Option.bind (json_decode (ar_Body r)) decode_domain")
  case None
  with st show ?thesis by (simp add: updateDomain_def)
next
  case (Some d)
  from typed_after[OF typed_UpdateDomain[OF decoded_typed(1)[OF Some]] st, of "dp_env dp" n] show ?thesis
    by (auto simp: updateDomain_def Some split: prod.split sum.split intro!: typed_change)
qed

lemma typed_deleteDomain:
  "typed_db (a_store st) \<Longrightarrow> typed_db (a_store (snd (deleteDomain dp n st)))"
  using typed_after[OF typed_deletions(1), of "a_store st" "dp_env dp" n]
  by (auto simp: deleteDomain_def split: prod.split sum.split intro!: typed_change)

lemma typed_GetDomain: "typed_db s \<Longrightarrow> GetDomain env n s = (x, s') \<Longrightarrow> typed_db s'"
proof -
  have "keeps typed_db (GetDomain env n)"
    unfolding GetDomain_def by (intro keeps_intros fault_free_typed keeps_ListRules_prop)
  then show "typed_db s \<Longrightarrow> GetDomain env n s = (x, s') \<Longrightarrow> typed_db s'" by (rule typed_after)
qed

lemma typed_createRule:
  assumes st: "typed_db (a_store st)"
  shows "typed_db (a_store (snd (createRule dp n r st)))"
proof -
  obtain g s where g: "GetDomain (dp_env dp) n (a_store st) = (g, s)" by fastforce
  note s = typed_GetDomain[OF st g]
  show ?thesis
  proof (cases g)
    case (Inl e)
    with g s show ?thesis by (simp add: createRule_def)
  next
    case (Inr d)
    show ?thesis
    proof (cases "Option.bind (json_decode (ar_Body r)) decode_rule")
      case None
      with g s Inr show ?thesis by (simp add: createRule_def)
    next
      case (Some rule)
      let ?r = "rule\<lparr>r_StatusCode := (if r_StatusCode rule = 0 then 301 else r_StatusCode rule),
          r_DomainID := d_ID (dr_Domain d), r_Enabled := True\<rparr>"
      have "rule_typed ?r"
        using decoded_typed(2)[OF Some] default_status_int64[of "r_StatusCode rule"]
        by (simp add: rule_typed_def default_status_def)
      from typed_after[OF typed_CreateRule[OF this] s, of "dp_env dp"] show ?thesis
        using s by (auto simp: createRule_def g Inr Some Let_def split: prod.split sum.split intro!: typed_change)
    qed
  qed
qed

lemma typed_updateRule:
  assumes st: "typed_db (a_store st)"
  shows "typed_db (a_store (snd (updateRule dp i r st)))"
proof (cases "Option.bind (json_decode (ar_Body r)) decode_rule")
  case None
  with st show ?thesis by (simp add: updateRule_def split: prod.split)
next
  case (Some rule)
  from typed_after[OF typed_UpdateRule[OF decoded_typed(2)[OF Some]] st, of "dp_env dp"] show ?thesis
    using st by (auto simp: updateRule_def Some split: prod.split sum.split intro!: typed_change)
qed

lemma typed_deleteRule:
  "typed_db (a_store st) \<Longrightarrow> typed_db (a_store (snd (deleteRule dp i st)))"
  using typed_after[OF typed_deletions(2), of "a_store st" "dp_env dp"]
  by (auto simp: deleteRule_def split: prod.split sum.split intro!: typed_change)

lemma typed_bulkImport:
  assumes st: "typed_db (a_store st)"
  shows "typed_db (a_store (snd (bulkImport dp r st)))"
proof (cases "Option.bind (json_decode (ar_Body r)) decode_entries")
  case None
  with st show ?thesis by (simp add: bulkImport_def)
next
  case (Some es)
  from typed_after[OF typed_BulkImport[OF decoded_typed(3)[OF Some]] st, of "dp_env dp"] show ?thesis
    by (auto simp: bulkImport_def Some split: prod.split sum.split intro!: typed_change)
qed

text \<open>Handlers that only read leave the rows as they are.\<close>

lemma typed_same: "same_data s0 s \<Longrightarrow> typed_db s0 \<Longrightarrow> typed_db s"
  unfolding same_data_def by (metis fault_free_propD fault_free_typed)

lemmas typed_mutations = typed_createDomain typed_updateDomain typed_deleteDomain typed_createRule
  typed_updateRule typed_deleteRule typed_bulkImport

lemma typed_apiMux:
  assumes "typed_db (a_store st)"
  shows "typed_db (a_store (snd (apiMux dp r st)))"
proof -
  note reads = typed_same[OF listDomains_data assms] typed_same[OF getDomain_data assms]
    typed_same[OF listRules_data assms] typed_same[OF export_data assms]
  have an: "typed_db s" if "analytics (dp_env dp) ps r (a_store st) = (resp, s)" for ps resp s
    using typed_same[OF analytics_data assms, of "dp_env dp" ps r] that by simp
  show ?thesis
    using assms by (cases "route (ar_Method r) (ar_Path r)")
      (auto simp: apiMux_def reads typed_mutations split: prod.split dest: an)
qed

lemma typed_requests:
  "typed_db (a_store st) \<Longrightarrow> typed_db (a_store (snd (run_requests (TokenAuth token (CORS (apiMux dp))) rs st)))"
proof (induction rs arbitrary: st)
  case (Cons r rs)
  obtain resp st' where h: "TokenAuth token (CORS (apiMux dp)) r st = (resp, st')" by fastforce
  have "typed_db (a_store (snd (TokenAuth token (CORS (apiMux dp)) r st)))"
    using typed_apiMux[OF Cons.prems, of dp r] Cons.prems
    by (auto simp: TokenAuth_def CORS_def split: prod.split)
  with h have "typed_db (a_store st')" by simp
  from Cons.IH[OF this] h show ?case by (auto split: prod.split)
qed simp

lemma typed_poll_fetch:
  assumes "typed_db (n_store nd)"
  shows "typed_db (n_store (fst (snd (poll_fetch svc env (reload_of env srt) etag nd b))))"
proof -
  have e: "typed_db s" if "unmarshal_entries t = Some es" "BulkImportReplace env es (n_store nd) = (r, s)"
    for t es r s
  proof -
    from that(1) obtain j where "json_unmarshal t = Some j" "decode_entries j = Some es"
      by (auto simp: unmarshal_entries_def split: option.splits)
    from decode_entries_typed[OF json_unmarshal_typed[OF this(1)] this(2)]
    show ?thesis by (rule typed_after[OF typed_BulkImportReplace assms that(2)])
  qed
  have rl: "typed_db s'" if "typed_db s" "Reload env srt eng s = (x, s')" for s s' eng x
    using typed_Reload[OF that(1), of env srt eng] that(2) by simp
  show ?thesis
    using assms unfolding poll_fetch_def reload_of_def
    by (auto split: prod.splits sum.splits option.splits dest: e intro: rl[OF e])
qed

lemma typed_poll:
  "typed_db (n_store nd) \<Longrightarrow> typed_db (n_store (fst (snd (poll svc env (reload_of env srt) nd b))))"
  using typed_poll_fetch[of nd] by (auto simp: poll_def Let_def split: prod.split sum.split)

lemma typed_pollLoop:
  "typed_db (n_store nd) \<Longrightarrow>
   typed_db (n_store (fst (snd (pollLoop svc env (reload_of env srt) k nd b))))"
proof (induction k arbitrary: nd b)
  case (Suc k)
  obtain r nd' b' where p: "poll svc env (reload_of env srt) nd b = (r, nd', b')" by (metis prod_cases3)
  with typed_poll[OF Suc.prems, of svc env srt b] have "typed_db (n_store nd')" by simp
  from Suc.IH[OF this, of b'] p show ?case by (auto split: prod.split)
qed simp

section \<open>What is exported\<close>

lemma query_all_rows: "query_all rows s = (Inr rs, s') \<Longrightarrow> rs = rows (snd (next_fault s))"
  by (auto simp: query_all_def query_def bindE_def retE_def failE_def
      split: prod.splits sum.splits fault.splits option.splits)

lemma bindE_success:
  "bindE m f s = (Inr y, s') \<Longrightarrow> \<exists>x s1. m s = (Inr x, s1) \<and> f x s1 = (Inr y, s')"
  by (auto simp: bindE_def split: prod.splits sum.splits)

lemma typed_next: "typed_db s \<Longrightarrow> typed_db (snd (next_fault s))"
  using next_fault_keeps[OF fault_free_typed] by blast

lemma ListRules_typed:
  assumes "sql_contract env" and "typed_db s" and "ListRules env i s = (Inr rs, s')"
  shows "list_all rule_typed rs"
proof -
  let ?rows = "filter (\<lambda>r. r_DomainID r = i) (redirect_rules (snd (next_fault s)))"
  have "rs = ord_prio env ?rows" using query_all_rows[OF assms(3)[unfolded ListRules_def]] by simp
  moreover have "mset (ord_prio env ?rows) = mset ?rows"
    using assms(1) by (intro desc_sorts_mset[where key = r_Priority]) (simp add: sql_contract_def)
  ultimately have "set rs = set ?rows" by (metis set_mset_mset)
  then show ?thesis using typed_dbD(2)[OF assms(2)] by (simp add: list_all_iff)
qed

lemma export_entry_ok:
  "domain_typed d \<Longrightarrow> list_all rule_typed rs \<Longrightarrow> entry_ok (export_entry d rs)"
  by (auto simp: export_entry_def entry_ok_def domain_typed_def rule_typed_def import_rule_ok_def
      list_all_iff)

lemma export_domains_typed:
  assumes "sql_contract env"
  shows "typed_db s \<Longrightarrow> list_all domain_typed ds \<Longrightarrow> export_domains env ds s = (Inr es, s') \<Longrightarrow>
    list_all entry_ok es"
proof (induction ds arbitrary: s es s')
  case (Cons d ds)
  from bindE_success[OF Cons.prems(3)[unfolded export_domains.simps]] obtain rs s1 where
    r: "ListRules env (d_ID d) s = (Inr rs, s1)"
    and k: "bindE (export_domains env ds) (\<lambda>es. retE (export_entry d rs # es)) s1 = (Inr es, s')" by blast
  from bindE_success[OF k] obtain es1 s2 where
    e: "export_domains env ds s1 = (Inr es1, s2)" "es = export_entry d rs # es1"
    by (auto simp: retE_def)
  have s1: "typed_db s1" using keepsD[OF keeps_ListRules_prop[OF fault_free_typed] Cons.prems(1), of env "d_ID d"] r
    by simp
  from ListRules_typed[OF assms Cons.prems(1) r] Cons.IH[OF s1 _ e(1)] Cons.prems(2) export_entry_ok e(2)
  show ?case by simp
qed (simp add: retE_def)

lemma ListDomains_typed:
  assumes "typed_db s" and "ListDomains env search lim off s = (Inr (ds, n), s')"
  shows "list_all domain_typed ds"
proof -
  obtain s1 lim' where s1: "typed_db s1" and q: "query_all (\<lambda>s. limit_offset lim' off
      (by_name env (search_domains env search s))) s1 = (Inr ds, s')"
  proof -
    have k: "keeps typed_db (exec (\<lambda>s. (Inr (int (length (search_domains env search s))), s)))"
      by (intro keeps_intros fault_free_typed)
    show thesis
      using assms that keepsD[OF k assms(1)]
      by (auto simp: ListDomains_def bindE_def retE_def failE_def exec_def Let_def
          split: prod.splits sum.splits fault.splits if_splits)
  qed
  let ?s = "snd (next_fault s1)"
  have "set ds \<subseteq> set (by_name env (search_domains env search ?s))"
    using query_all_rows[OF q] by (auto simp: limit_offset_def dest!: in_set_takeD in_set_dropD split: if_splits)
  moreover have "set (search_domains env search ?s) \<subseteq> set (domains s1)"
    by (auto simp: search_domains_def)
  ultimately have "set ds \<subseteq> set (domains s1)" by simp
  with typed_dbD(1)[OF s1] show ?thesis by (auto simp: list_all_iff)
qed

lemma ExportAll_typed:
  assumes "sql_contract env" and "typed_db s" and "ExportAll env s = (Inr es, s')"
  shows "list_all entry_ok es"
proof -
  from bindE_success[OF assms(3)[unfolded ExportAll_def]] obtain ds n s1 where
    l: "ListDomains env [] 10000 0 s = (Inr (ds, n), s1)" and e: "export_domains env ds s1 = (Inr es, s')"
    by auto
  have "typed_db s1"
    using keepsD[OF keeps_ListDomains_prop[OF fault_free_typed] assms(2), of env "[]" 10000 0] l by simp
  from export_domains_typed[OF assms(1) this ListDomains_typed[OF assms(2) l] e] show ?thesis .
qed

section \<open>Property\<close>

text \<open>C13: the rows of a node stay well-typed through any API requests followed by any number
  of polls, whatever texts they carry and whatever the database and the bucket do; and what
  the node then exports is well-typed, so that its published text reads back as itself.\<close>
theorem stored_rows_stay_typed:
  assumes "sql_contract env" and "typed_db (a_store st)"
    and "snd (run_requests (TokenAuth token (CORS (apiMux dp))) rs st) = st1"
    and "pollLoop svc env (reload_of env srt) k (a_node st1) b = (outcomes, nd, b')"
    and "ExportAll env (n_store nd) = (Inr es, s')"
  shows "typed_db (n_store nd) \<and> list_all entry_ok es \<and> unmarshal_entries (marshal_entries es) = Some es"
proof -
  have "typed_db (n_store (a_node st1))"
    using typed_requests[OF assms(2), of token dp rs] assms(3) by (simp add: a_store_def)
  from typed_pollLoop[OF this, of svc env srt k b] assms(4) have t: "typed_db (n_store nd)" by simp
  from ExportAll_typed[OF assms(1) this assms(5)] entries_round_trip t show ?thesis by blast
qed

text \<open>A request that creates a domain, then a poll of the empty bucket.\<close>

lemma demo_db_typed: "typed_db demo_db"
  by (auto simp: typed_db_def demo_defs domain_typed_def rule_typed_def is_int64_def min_int64_def
      max_int64_def intro!: valid_utf8_ascii)

theorem stored_rows_stay_typed_witness:
  "\<exists>st1 outcomes nd b' es s'.
     snd (run_requests (TokenAuth ''secret'' (CORS (apiMux demo_deps)))
       [demo_call ''POST'' [''domains''] demo_new_domain] demo_api) = st1 \<and>
     pollLoop ref_s3 (reference_env DialectSQLite) (reload_of (reference_env DialectSQLite) (sort_desc rl_Priority))
       1 (a_node st1) None = (outcomes, nd, b') \<and>
     ExportAll (reference_env DialectSQLite) (n_store nd) = (Inr es, s') \<and>
     unmarshal_entries (marshal_entries es) = Some es"
proof -
  let ?env = "reference_env DialectSQLite" and ?rs = "[demo_call ''POST'' [''domains''] demo_new_domain]"
  define st1 where "st1 = snd (run_requests (TokenAuth ''secret'' (CORS (apiMux demo_deps))) ?rs demo_api)"
  have p: "pollLoop ref_s3 ?env (reload_of ?env (sort_desc rl_Priority)) 1 (a_node st1) None
      = ([Some (HeadObject (ErrMsg ''NotFound''))], a_node st1, None)"
    by (simp add: poll_def ref_s3_def)
  have "in_step st1" unfolding st1_def by (rule requests_in_step[OF demo_deps_ok demo_api_ok(1)])
  then have "faults (n_store (a_node st1)) = []" using in_step_faults[of st1] by (simp add: a_store_def)
  then have e: "ExportAll ?env (n_store (a_node st1)) =
      (Inr (export_list ?env (n_store (a_node st1))), n_store (a_node st1))" by (rule ExportAll_Nil)
  have t: "typed_db (a_store demo_api)" unfolding demo_api_ok(2) by (rule demo_db_typed)
  from stored_rows_stay_typed[OF reference_env_contract t st1_def[symmetric] p e] p e st1_def
  show ?thesis by blast
qed

end
