(* ===== verification/Concurrent.thy ===== *)
theory Concurrent
  imports Api_Props
begin

text \<open>
  Requests in parallel. The server runs each request in a goroutine of its own, and no lock
  is held from a write to the end of the reload that follows it: \<open>Reload\<close> of
  \<open>internal/redirect/engine.go\<close> reads the store by one statement for the domains and one for
  the rules of each, and takes the mutex only to install the table it has built. Statements
  of one goroutine may therefore fall between those of another.
\<close>

section \<open>One reload, statement by statement\<close>

text \<open>A reload has yet to list the domains, or has the domains to go and the table so far.\<close>

datatype reloading = Listing | Loading "domain list" "string \<rightharpoonup> domain_entry"

text \<open>The next step; \<open>None\<close> when the reload has returned.\<close>

fun reload_step ::
  "sqlenv \<Rightarrow> (rule list \<Rightarrow> rule list) \<Rightarrow> reloading \<Rightarrow> engine \<Rightarrow> db \<Rightarrow> reloading option \<times> engine \<times> db" where
  "reload_step env srt Listing e s =
     (case ListDomains env [] 100000 0 s of
        (Inl er, s') \<Rightarrow> (None, e, s')
      | (Inr (ds, n), s') \<Rightarrow> (Some (Loading ds Map.empty), e, s'))"
| "reload_step env srt (Loading (d # ds) m) e s =
     (if \<not> d_Enabled d then (Some (Loading ds m), e, s)
      else (case ListRules env (d_ID d) s of
              (Inl er, s') \<Rightarrow> (Some (Loading ds m), e, s')
            | (Inr rules, s') \<Rightarrow> (Some (Loading ds (m(d_Name d \<mapsto> make_entry srt d rules))), e, s')))"
| "reload_step env srt (Loading [] m) e s = (None, e\<lparr>e_domains := m\<rparr>, s)"

text \<open>The steps of one reload in a row, to its end.\<close>

inductive reload_alone ::
  "sqlenv \<Rightarrow> (rule list \<Rightarrow> rule list) \<Rightarrow> reloading \<Rightarrow> engine \<Rightarrow> db \<Rightarrow> engine \<Rightarrow> db \<Rightarrow> bool" for env srt where
  returned: "reload_step env srt rl e s = (None, e', s') \<Longrightarrow> reload_alone env srt rl e s e' s'"
| stepped: "reload_step env srt rl e s = (Some rl1, e1, s1) \<Longrightarrow> reload_alone env srt rl1 e1 s1 e' s' \<Longrightarrow>
     reload_alone env srt rl e s e' s'"

inductive_simps reload_alone_iff: "reload_alone env srt rl e s e' s'"

text \<open>Without other goroutines between them, the steps are \<open>Reload\<close>.\<close>

lemma loading_alone:
  "reload_alone env srt (Loading ds m) e s e' s' \<longleftrightarrow>
     e' = e\<lparr>e_domains := fst (load_all env srt ds m s)\<rparr> \<and> s' = snd (load_all env srt ds m s)"
proof (induction ds arbitrary: m s)
  case Nil
  show ?case by (auto simp: reload_alone_iff[of _ _ "Loading [] m"])
next
  case (Cons d ds)
  obtain r s1 where r: "ListRules env (d_ID d) s = (r, s1)" by fastforce
  show ?case
    by (cases r; cases "d_Enabled d")
      (simp_all add: reload_alone_iff[of _ _ "Loading (d # ds) m"] Cons.IH r fun_upd_def)
qed

lemma reload_alone_Reload:
  "reload_alone env srt Listing e s e' s' \<longleftrightarrow> (\<exists>r. Reload env srt e s = ((r, e'), s'))"
  by (auto simp: reload_alone_iff[of _ _ Listing] Reload_def loading_alone
      split: sum.splits prod.splits)

section \<open>Goroutines around one engine\<close>

text \<open>The operations on the store that the handlers and the poller call before they reload.\<close>

datatype store_op =
    WriteDomain domain | SetDomain string domain | DropDomain string
  | WriteRule redirect_rule | SetRule int redirect_rule | DropRule int
  | Import "import_entry list" | Replace "import_entry list"

definition succeeds :: "(db \<Rightarrow> 'a res) \<Rightarrow> db \<Rightarrow> bool \<times> db" where
  "succeeds m s = (case m s of (r, s') \<Rightarrow> (\<not> isl r, s'))"

fun apply_op :: "sqlenv \<Rightarrow> store_op \<Rightarrow> db \<Rightarrow> bool \<times> db" where
  "apply_op env (WriteDomain d) = succeeds (CreateDomain env d)"
| "apply_op env (SetDomain n d) = succeeds (UpdateDomain env n d)"
| "apply_op env (DropDomain n) = succeeds (DeleteDomain env n)"
| "apply_op env (WriteRule r) = succeeds (CreateRule env r)"
| "apply_op env (SetRule i r) = succeeds (UpdateRule env i r)"
| "apply_op env (DropRule i) = succeeds (DeleteRule env i)"
| "apply_op env (Import es) = succeeds (BulkImport env es)"
| "apply_op env (Replace es) = succeeds (BulkImportReplace env es)"

text \<open>
  The store, the engine, and the reloads under way. Two counters that the program does not
  have say what a table is worth: \<open>t_writes\<close> counts the writes, each reload carries the
  count at its listing, and \<open>t_seen\<close> is that of the reload whose table is installed.
\<close>

record traffic =
  t_store :: db
  t_engine :: engine
  t_reloads :: "(nat \<times> reloading) list"
  t_writes :: nat
  t_seen :: nat

definition traffic_start :: "db \<Rightarrow> engine \<Rightarrow> traffic" where
  "traffic_start s e = \<lparr>t_store = s, t_engine = e, t_reloads = [], t_writes = 0, t_seen = 0\<rparr>"

definition remove_nth :: "nat \<Rightarrow> 'a list \<Rightarrow> 'a list" where
  "remove_nth i xs = take i xs @ drop (Suc i) xs"

text \<open>The step of the \<open>i\<close>th reload.\<close>

definition advance :: "sqlenv \<Rightarrow> (rule list \<Rightarrow> rule list) \<Rightarrow> nat \<Rightarrow> traffic \<Rightarrow> traffic" where
  "advance env srt i t =
     (case t_reloads t ! i of
        (v, rl) \<Rightarrow>
          let v' = (if rl = Listing then t_writes t else v) in
          (case reload_step env srt rl (t_engine t) (t_store t) of
             (Some rl', e, s) \<Rightarrow>
               t\<lparr>t_store := s, t_engine := e, t_reloads := (t_reloads t)[i := (v', rl')]\<rparr>
           | (None, e, s) \<Rightarrow>
               t\<lparr>t_store := s, t_engine := e, t_reloads := remove_nth i (t_reloads t),
                 t_seen := (if rl = Listing then t_seen t else v)\<rparr>))"

text \<open>
  A write that succeeds is followed by a reload of its goroutine, one that fails is not; the
  reloads advance in any order; requests are served at any time.
\<close>

inductive traffic_step :: "sqlenv \<Rightarrow> (rule list \<Rightarrow> rule list) \<Rightarrow> traffic \<Rightarrow> traffic \<Rightarrow> bool" for env srt where
  wrote: "apply_op env op (t_store t) = (True, s) \<Longrightarrow>
     traffic_step env srt t (t\<lparr>t_store := s, t_reloads := t_reloads t @ [(0, Listing)],
                              t_writes := Suc (t_writes t)\<rparr>)"
| refused: "apply_op env op (t_store t) = (False, s) \<Longrightarrow> traffic_step env srt t (t\<lparr>t_store := s\<rparr>)"
| advanced: "i < length (t_reloads t) \<Longrightarrow> traffic_step env srt t (advance env srt i t)"
| served: "traffic_step env srt t (t\<lparr>t_engine := snd (ServeHTTP (t_engine t) r)\<rparr>)"

inductive traffic_run :: "sqlenv \<Rightarrow> (rule list \<Rightarrow> rule list) \<Rightarrow> traffic \<Rightarrow> traffic \<Rightarrow> bool" for env srt where
  nothing: "traffic_run env srt t t"
| more: "traffic_run env srt t0 t \<Longrightarrow> traffic_step env srt t t' \<Longrightarrow> traffic_run env srt t0 t'"

section \<open>What the operations do to a store without faults\<close>

lemma succeeds_iff: "succeeds m s = (b, s') \<longleftrightarrow> (\<exists>r. m s = (r, s') \<and> b = (\<not> isl r))"
  by (auto simp: succeeds_def split: prod.splits)

lemma apply_op_good:
  assumes "good s" and "apply_op env op s = (b, s')"
  shows "good s'"
proof (cases op)
  case (Replace es)
  with assms BulkImportReplace_good[OF assms(1), of env es] show ?thesis
    by (auto simp: succeeds_def)
qed (use assms in \<open>auto simp: succeeds_iff intro: create_domain.op_good update_domain.op_good
    delete_domain.op_good create_rule.op_good update_rule.op_good delete_rule.op_good
    bulk_import.op_good\<close>)

lemma apply_op_refused:
  assumes g: "good s" and a: "apply_op env op s = (False, s')"
  shows "domains s' = domains s" and "redirect_rules s' = redirect_rules s"
proof -
  note f = goodD(2)[OF g]
  have "domains s' = domains s \<and> redirect_rules s' = redirect_rules s"
  proof (cases op)
    case (WriteDomain d)
    with a show ?thesis
      by (auto simp: succeeds_iff CreateDomain_Nil[OF g] burn_dom_seq_def split: option.splits)
  next
    case (WriteRule r)
    with a f show ?thesis
      by (auto simp: succeeds_iff CreateRule_def bindE_def retE_def sql_insert_rule_def burn_rule_seq_def
          split: if_splits)
  next
    case (SetRule i r)
    with a f show ?thesis
      by (auto simp: succeeds_iff UpdateRule_def sql_update_rule_def split: option.splits if_splits)
  next
    case (Import es)
    with a BulkImport_good[OF g, of env es] show ?thesis by (auto simp: succeeds_def)
  next
    case (Replace es)
    with a BulkImportReplace_good[OF g, of env es] show ?thesis by (auto simp: succeeds_def)
  qed (use a f in \<open>auto simp: succeeds_iff UpdateDomain_def DeleteDomain_def DeleteRule_def
      sql_update_domain_def sql_delete_domain_def sql_delete_rule_def\<close>)
  then show "domains s' = domains s" and "redirect_rules s' = redirect_rules s" by simp_all
qed

end
