(* ===== verification/Concurrent_Props.thy ===== *)
theory Concurrent_Props
  imports Concurrent
begin

text \<open>
  What parallel requests guarantee: a table is right when the reload that built it began after
  the last write. And what they do not: a slow reload can install a table that is older than
  the installed one, which stays until another write or poll reloads.
\<close>

section \<open>Tables that are up to date\<close>

text \<open>A reload is fresh when finishing it on the store as it is gives the table of the store.\<close>

definition fresh :: "sqlenv \<Rightarrow> (rule list \<Rightarrow> rule list) \<Rightarrow> db \<Rightarrow> reloading \<Rightarrow> bool" where
  "fresh env srt s rl \<longleftrightarrow>
     (case rl of Listing \<Rightarrow> True
      | Loading ds m \<Rightarrow> length (domains s) \<le> 100000 \<longrightarrow>
          (\<forall>e. serves s (e\<lparr>e_domains := fst (load_all env srt ds m s)\<rparr>)))"

definition traffic_ok :: "sqlenv \<Rightarrow> (rule list \<Rightarrow> rule list) \<Rightarrow> traffic \<Rightarrow> bool" where
  "traffic_ok env srt t \<longleftrightarrow>
     good (t_store t) \<and> t_seen t \<le> t_writes t \<and>
     (t_seen t = t_writes t \<and> length (domains (t_store t)) \<le> 100000 \<longrightarrow>
        serves (t_store t) (t_engine t)) \<and>
     (\<forall>(v, rl) \<in> set (t_reloads t). v \<le> t_writes t \<and>
        (v = t_writes t \<longrightarrow> fresh env srt (t_store t) rl))"

lemma serves_domains: "e_domains e' = e_domains e \<Longrightarrow> serves s e' = serves s e"
  by (simp add: serves_def fst_ServeHTTP)

lemma e_domains_ServeHTTP [simp]: "e_domains (snd (ServeHTTP e r)) = e_domains e"
  by (auto simp: ServeHTTP_def Let_def split: option.splits)

lemma load_all_tables:
  assumes "faults s = []" and "faults s' = []" and "redirect_rules s' = redirect_rules s"
  shows "fst (load_all env srt ds m s') = fst (load_all env srt ds m s)"
  using assms by (induction ds arbitrary: m) (simp_all add: ListRules_Nil)

lemma snd_load_all: "faults s = [] \<Longrightarrow> snd (load_all env srt ds m s) = s"
  by (induction ds arbitrary: m) (simp_all add: ListRules_Nil)

lemma advance_Listing:
  assumes "t_reloads t ! i = (v, Listing)" and "faults (t_store t) = []"
  shows "advance env srt i t = t\<lparr>t_reloads := (t_reloads t)[i :=
    (t_writes t, Loading (limit_offset 100000 0 (by_name env (domains (t_store t)))) Map.empty)]\<rparr>"
  using assms by (simp add: advance_def ListDomains_Nil search_domains_def)

lemma advance_Loading:
  assumes "t_reloads t ! i = (v, Loading (d # ds) m)" and "faults (t_store t) = []"
  obtains m' where "advance env srt i t = t\<lparr>t_reloads := (t_reloads t)[i := (v, Loading ds m')]\<rparr>"
    and "load_all env srt ds m' (t_store t) = load_all env srt (d # ds) m (t_store t)"
proof (cases "d_Enabled d")
  case False
  with assms that[of m] show ?thesis by (simp add: advance_def)
next
  case True
  with assms that show ?thesis by (simp add: advance_def ListRules_Nil)
qed

lemma advance_done:
  assumes "t_reloads t ! i = (v, Loading [] m)"
  shows "advance env srt i t = t\<lparr>t_engine := (t_engine t)\<lparr>e_domains := m\<rparr>,
    t_reloads := remove_nth i (t_reloads t), t_seen := v\<rparr>"
  using assms by (simp add: advance_def)

lemma listed_fresh:
  assumes "sql_contract env" and "desc_sorts rl_Priority srt" and "good s"
  shows "fresh env srt s (Loading (limit_offset 100000 0 (by_name env (domains s))) Map.empty)"
proof -
  let ?m = "fst (load_all env srt (limit_offset 100000 0 (by_name env (domains s))) Map.empty s)"
  have "serves s (e\<lparr>e_domains := ?m\<rparr>)" if "length (domains s) \<le> 100000" for e
  proof -
    have "Reload env srt e s = ((None, e\<lparr>e_domains := ?m\<rparr>), s)"
      using goodD(2)[OF assms(3)] snd_load_all[of s]
      by (simp add: Reload_def ListDomains_Nil search_domains_def split: prod.splits) (metis snd_conv)
    with Reload_serves[OF assms(1,2) goodD[OF assms(3)] that, of e] show ?thesis
      by (simp add: serves_def)
  qed
  then show ?thesis by (simp add: fresh_def)
qed

section \<open>The invariant\<close>

lemma fresh_tables:
  assumes "domains s' = domains s" and "redirect_rules s' = redirect_rules s"
    and "faults s = []" and "faults s' = []"
  shows "fresh env srt s' rl = fresh env srt s rl" and "serves s' e = serves s e"
  using assms view_frame[OF assms(1,2)] load_all_tables[OF assms(3,4,2)]
  by (simp_all add: fresh_def serves_def split: reloading.split)

lemma set_remove_nth: "set (remove_nth i xs) \<subseteq> set xs"
  unfolding remove_nth_def by (auto dest: in_set_takeD in_set_dropD)

lemma advance_ok:
  assumes "sql_contract env" and "desc_sorts rl_Priority srt" and ok: "traffic_ok env srt t"
    and i: "i < length (t_reloads t)"
  shows "traffic_ok env srt (advance env srt i t)"
proof -
  obtain v rl where rl: "t_reloads t ! i = (v, rl)" by fastforce
  have g: "good (t_store t)" and all: "\<forall>(v, rl) \<in> set (t_reloads t).
      v \<le> t_writes t \<and> (v = t_writes t \<longrightarrow> fresh env srt (t_store t) rl)"
    using ok by (auto simp: traffic_ok_def)
  have v: "v \<le> t_writes t" "v = t_writes t \<Longrightarrow> fresh env srt (t_store t) rl"
    using all i rl by (auto simp: all_set_conv_all_nth)
  have put: "\<forall>(v, rl) \<in> set ((t_reloads t)[i := (v', rl')]).
      v \<le> t_writes t \<and> (v = t_writes t \<longrightarrow> fresh env srt (t_store t) rl)"
    if "v' \<le> t_writes t" "v' = t_writes t \<longrightarrow> fresh env srt (t_store t) rl'" for v' rl'
    using all that set_update_subset_insert[of "t_reloads t" i "(v', rl')"] by blast
  show ?thesis
  proof (cases rl)
    case Listing
    with put[of "t_writes t"] ok listed_fresh[OF assms(1,2) g] show ?thesis
      by (simp add: advance_Listing[OF rl[unfolded Listing] goodD(2)[OF g]] traffic_ok_def)
  next
    case (Loading ds m)
    show ?thesis
    proof (cases ds)
      case Nil
      with Loading v have "v = t_writes t \<longrightarrow> length (domains (t_store t)) \<le> 100000 \<longrightarrow>
          serves (t_store t) ((t_engine t)\<lparr>e_domains := m\<rparr>)" by (simp add: fresh_def)
      with Nil Loading v(1) all g set_remove_nth[of i "t_reloads t"] show ?thesis
        by (auto simp: advance_done[OF rl[unfolded Loading Nil]] traffic_ok_def)
    next
      case (Cons d ds')
      from advance_Loading[OF rl[unfolded Loading Cons] goodD(2)[OF g], of env srt] obtain m' where
        m': "advance env srt i t = t\<lparr>t_reloads := (t_reloads t)[i := (v, Loading ds' m')]\<rparr>"
          "load_all env srt ds' m' (t_store t) = load_all env srt (d # ds') m (t_store t)" by blast
      have "v = t_writes t \<longrightarrow> fresh env srt (t_store t) (Loading ds' m')"
        using v(2) m'(2) by (auto simp: Loading Cons fresh_def)
      with put[OF v(1)] ok show ?thesis by (simp add: m'(1) traffic_ok_def)
    qed
  qed
qed

lemma traffic_step_ok:
  assumes "sql_contract env" and "desc_sorts rl_Priority srt" and ok: "traffic_ok env srt t"
    and "traffic_step env srt t t'"
  shows "traffic_ok env srt t'"
  using assms(4)
proof cases
  case (wrote op s)
  have "good s" using apply_op_good[OF _ wrote(2)] ok by (simp add: traffic_ok_def)
  with ok wrote(1) show ?thesis by (fastforce simp: traffic_ok_def fresh_def)
next
  case (refused op s)
  have g: "good (t_store t)" using ok by (simp add: traffic_ok_def)
  have s: "good s" using apply_op_good[OF g refused(2)] .
  note same = apply_op_refused[OF g refused(2)]
  from ok s same fresh_tables[OF same goodD(2)[OF g] goodD(2)[OF s]] show ?thesis
    by (simp add: refused(1) traffic_ok_def)
next
  case (advanced i)
  with advance_ok[OF assms(1,2) ok] show ?thesis by simp
next
  case (served r)
  have "serves s (snd (ServeHTTP (t_engine t) r)) = serves s (t_engine t)" for s
    by (rule serves_domains) simp
  with ok served show ?thesis by (simp add: traffic_ok_def)
qed

lemma traffic_run_ok:
  assumes "sql_contract env" and "desc_sorts rl_Priority srt" and "traffic_run env srt t0 t"
    and "traffic_ok env srt t0"
  shows "traffic_ok env srt t"
  using assms(3,4) by (induction rule: traffic_run.induct) (auto intro: traffic_step_ok[OF assms(1,2)])

lemma traffic_start_ok: "good s \<Longrightarrow> serves s e \<Longrightarrow> traffic_ok env srt (traffic_start s e)"
  by (simp add: traffic_ok_def traffic_start_def)

section \<open>Building runs\<close>

lemma traffic_run_trans:
  assumes "traffic_run env srt t1 t2" and "traffic_run env srt t0 t1"
  shows "traffic_run env srt t0 t2"
  using assms by (induction rule: traffic_run.induct) (auto intro: traffic_run.more)

definition loaded :: "sqlenv \<Rightarrow> (rule list \<Rightarrow> rule list) \<Rightarrow> db \<Rightarrow> string \<rightharpoonup> domain_entry" where
  "loaded env srt s =
     fst (load_all env srt (limit_offset 100000 0 (by_name env (domains s))) Map.empty s)"

text \<open>A reload can run up to the installation of its table while the others wait.\<close>

lemma run_loading:
  assumes "faults (t_store t) = []" and "i < length (t_reloads t)"
    and "t_reloads t ! i = (v, Loading ds m)"
  shows "traffic_run env srt t (t\<lparr>t_reloads := (t_reloads t)
    [i := (v, Loading [] (fst (load_all env srt ds m (t_store t))))]\<rparr>)"
  using assms
proof (induction ds arbitrary: m t)
  case Nil
  then have "t\<lparr>t_reloads := (t_reloads t)[i := (v, Loading [] m)]\<rparr> = t"
    by (metis list_update_id traffic.surjective traffic.update_convs(3))
  then show ?case by (simp add: traffic_run.nothing)
next
  case (Cons d ds)
  from advance_Loading[OF Cons.prems(3,1), of env srt] obtain m' where
    m': "advance env srt i t = t\<lparr>t_reloads := (t_reloads t)[i := (v, Loading ds m')]\<rparr>"
      "load_all env srt ds m' (t_store t) = load_all env srt (d # ds) m (t_store t)" by blast
  let ?t = "t\<lparr>t_reloads := (t_reloads t)[i := (v, Loading ds m')]\<rparr>"
  from m'(1) have one: "traffic_run env srt t ?t"
    using traffic_run.more[OF traffic_run.nothing traffic_step.advanced[OF Cons.prems(2)]] by metis
  have "traffic_run env srt ?t (?t\<lparr>t_reloads := (t_reloads ?t)
      [i := (v, Loading [] (fst (load_all env srt ds m' (t_store ?t))))]\<rparr>)"
    by (rule Cons.IH) (use Cons.prems in simp_all)
  from traffic_run_trans[OF this one] m'(2) show ?case by simp
qed

lemma run_listing:
  assumes "faults (t_store t) = []" and "i < length (t_reloads t)"
    and "t_reloads t ! i = (v, Listing)"
  shows "traffic_run env srt t (t\<lparr>t_reloads := (t_reloads t)
    [i := (t_writes t, Loading [] (loaded env srt (t_store t)))]\<rparr>)"
proof -
  let ?ds = "limit_offset 100000 0 (by_name env (domains (t_store t)))"
  let ?t = "t\<lparr>t_reloads := (t_reloads t)[i := (t_writes t, Loading ?ds Map.empty)]\<rparr>"
  have "advance env srt i t = ?t"
    by (rule advance_Listing[OF assms(3,1)])
  then have one: "traffic_run env srt t ?t"
    using traffic_run.more[OF traffic_run.nothing traffic_step.advanced[OF assms(2)]] by metis
  have "traffic_run env srt ?t (?t\<lparr>t_reloads := (t_reloads ?t)
      [i := (t_writes t, Loading [] (fst (load_all env srt ?ds Map.empty (t_store ?t))))]\<rparr>)"
    by (rule run_loading) (use assms in simp_all)
  from traffic_run_trans[OF this one] show ?thesis by (simp add: loaded_def)
qed

text \<open>C18: Whatever the parallel requests do, and however their statements fall between those
  of each other's reloads: as long as the installed table comes from a reload that listed the
  domains after the last write, every request is answered by what the store holds, with at
  most 100000 domains and no database faults.\<close>
theorem latest_table_serves:
  assumes "sql_contract env" and "desc_sorts rl_Priority srt" and "good s" and "serves s e"
    and "traffic_run env srt (traffic_start s e) t" and "t_seen t = t_writes t"
    and "length (domains (t_store t)) \<le> 100000"
  shows "serves (t_store t) (t_engine t)"
  using traffic_run_ok[OF assms(1,2,5) traffic_start_ok[OF assms(3,4)]] assms(6,7)
  by (simp add: traffic_ok_def)

theorem latest_table_serves_witness:
  "\<exists>t. traffic_run (reference_env DialectSQLite) (sort_desc rl_Priority)
       (traffic_start demo_db (n_engine (a_node demo_api))) t \<and>
     view (t_store t) ''old.example'' = None \<and> serves (t_store t) (t_engine t)"
proof -
  let ?env = "reference_env DialectSQLite" and ?srt = "sort_desc rl_Priority"
  let ?t0 = "traffic_start demo_db (n_engine (a_node demo_api))"
  have g: "good demo_db" by (simp add: good_def)
  obtain s where s: "apply_op ?env (DropDomain ''old.example'') demo_db = (True, s)"
    and v: "view s ''old.example'' = None" and len: "length (domains s) \<le> 100000"
    using view_delete_domain[OF demo_db_wf, of "''old.example''"]
    by (auto simp: succeeds_def DeleteDomain_def sql_delete_domain_def demo_db_def)
  note f = goodD(2)[OF apply_op_good[OF g s]]
  let ?t1 = "?t0\<lparr>t_store := s, t_reloads := [(0, Listing)], t_writes := 1\<rparr>"
  let ?t2 = "?t1\<lparr>t_reloads := [(1, Loading [] (loaded ?env ?srt s))]\<rparr>"
  have r1: "traffic_run ?env ?srt ?t0 ?t1"
    using traffic_run.more[OF traffic_run.nothing
        traffic_step.wrote[of ?env "DropDomain ''old.example''" ?t0 s]] s
    by (simp add: traffic_start_def)
  have r2: "traffic_run ?env ?srt ?t1 ?t2" using run_listing[of ?t1 0 0 ?env ?srt] f by simp
  have r3: "traffic_run ?env ?srt ?t2 (advance ?env ?srt 0 ?t2)"
    using traffic_run.more[OF traffic_run.nothing traffic_step.advanced[of 0 ?t2]] by simp
  note run = traffic_run_trans[OF r3 traffic_run_trans[OF r2 r1]]
  have sv: "serves demo_db (n_engine (a_node demo_api))"
    using demo_api_ok by (simp add: in_step_def demo_db_def)
  have t: "t_store (advance ?env ?srt 0 ?t2) = s" "t_seen (advance ?env ?srt 0 ?t2) = 1"
    "t_writes (advance ?env ?srt 0 ?t2) = 1"
    by (subst advance_done; simp)+
  from latest_table_serves[OF reference_env_contract _ g sv run] t len v run show ?thesis
    by auto
qed

section \<open>The race\<close>

lemma loaded_enabled:
  assumes "good s" and "length (domains s) \<le> 100000" and "view s n = Some x" and "s_Enabled x"
  shows "loaded env srt s n \<noteq> None"
proof -
  obtain d where d: "find_domain n s = Some d" "x = site_of s d" using view_Some[OF assms(3)] by blast
  have "Reload env srt e s = ((None, e\<lparr>e_domains := loaded env srt s\<rparr>), s)" for e
    using goodD(2)[OF assms(1)] snd_load_all[of s]
    by (simp add: Reload_def ListDomains_Nil search_domains_def loaded_def split: prod.splits)
      (metis snd_conv)
  with Reload_Nil[OF goodD(2,1)[OF assms(1)] assms(2), of env srt]
  have "loaded env srt s = (\<lambda>n. case find_domain n s of
        Some d \<Rightarrow> if d_Enabled d then Some (entry_for env srt s d) else None | None \<Rightarrow> None)"
    by (metis (no_types, lifting) engine.select_convs(1) engine.surjective engine.update_convs(1) Pair_inject)
  with d assms(4) show ?thesis by (simp add: site_of_def)
qed

text \<open>The first of two writers lists the store before the second writes, and installs its table
  after the second has installed its own.\<close>

lemma overtaken:
  assumes "apply_op env op1 s = (True, s1)" and "apply_op env op2 s1 = (True, s2)"
    and f1: "faults s1 = []" and f2: "faults s2 = []"
  obtains t where "traffic_run env srt (traffic_start s e) t" and "t_reloads t = []"
    and "t_store t = s2" and "e_domains (t_engine t) = loaded env srt s1"
proof -
  let ?m1 = "loaded env srt s1" and ?m2 = "loaded env srt s2"
  let ?t0 = "traffic_start s e"
  let ?t1 = "?t0\<lparr>t_store := s1, t_reloads := [(0, Listing)], t_writes := 1\<rparr>"
  let ?t2 = "?t1\<lparr>t_reloads := [(1, Loading [] ?m1)]\<rparr>"
  let ?t3 = "?t2\<lparr>t_store := s2, t_reloads := [(1, Loading [] ?m1), (0, Listing)], t_writes := 2\<rparr>"
  let ?t4 = "?t3\<lparr>t_reloads := [(1, Loading [] ?m1), (2, Loading [] ?m2)]\<rparr>"
  have r1: "traffic_run env srt ?t0 ?t1"
    using traffic_run.more[OF traffic_run.nothing traffic_step.wrote[of env op1 ?t0 s1]] assms(1)
    by (simp add: traffic_start_def)
  have r2: "traffic_run env srt ?t1 ?t2" using run_listing[of ?t1 0 0 env srt] f1 by simp
  have r3: "traffic_run env srt ?t2 ?t3"
    using traffic_run.more[OF traffic_run.nothing traffic_step.wrote[of env op2 ?t2 s2]] assms(2)
    by (simp add: numeral_2_eq_2)
  have r4: "traffic_run env srt ?t3 ?t4" using run_listing[of ?t3 1 0 env srt] f2 by simp
  let ?t5 = "advance env srt 1 ?t4"
  let ?t6 = "advance env srt 0 ?t5"
  have t5: "?t5 = ?t4\<lparr>t_engine := (t_engine ?t4)\<lparr>e_domains := ?m2\<rparr>,
      t_reloads := [(1, Loading [] ?m1)], t_seen := 2\<rparr>"
    by (subst advance_done) (simp_all add: remove_nth_def)
  have t6: "t_reloads ?t6 = []" "t_store ?t6 = s2" "e_domains (t_engine ?t6) = ?m1"
    unfolding t5 by (subst advance_done; simp add: remove_nth_def)+
  have r5: "traffic_run env srt ?t4 ?t6"
    using traffic_run.more[OF traffic_run.more[OF traffic_run.nothing
        traffic_step.advanced[of 1 ?t4 env srt]] traffic_step.advanced[of 0 ?t5 env srt]] t5 by simp
  from that[OF traffic_run_trans[OF r5 traffic_run_trans[OF r4 traffic_run_trans[OF r3
      traffic_run_trans[OF r2 r1]]]] t6] show ?thesis .
qed

text \<open>C19: A race of the code: of two requests in parallel, one updates a domain and lists it for
  its reload, the other deletes the domain and reloads, and then the first installs its
  older table. All requests are done, the domain is gone from the store, and it goes on being
  served, until another request happens to reload.\<close>
theorem reload_race_serves_deleted:
  assumes "good s" and "length (domains s) \<le> 100000" and "view s n = Some x" and "s_Enabled x"
  shows "\<exists>t. traffic_run env srt (traffic_start s e) t \<and> t_reloads t = [] \<and>
    view (t_store t) n = None \<and>
    (\<forall>r. stripPort (rq_Host r) = n \<longrightarrow> fst (ServeHTTP (t_engine t) r) \<noteq> NotFound)"
proof -
  obtain d where d: "find_domain n s = Some d" "x = site_of s d" using view_Some[OF assms(3)] by blast
  obtain s1 where s1: "apply_op env (SetDomain n d) s = (True, s1)"
    and v1: "view s1 n = Some (x\<lparr>s_DefaultURL := d_DefaultURL d, s_StatusCode := d_StatusCode d, s_Enabled := True\<rparr>)"
    using goodD(2)[OF assms(1)] view_update_domain[of env n "d_DefaultURL d" "d_StatusCode d" "d_Enabled d" s]
      assms(3,4) d(2)
    by (auto simp: succeeds_def UpdateDomain_def sql_update_domain_def site_of_def)
  have g1: "good s1" by (rule apply_op_good[OF assms(1) s1])
  have len1: "length (domains s1) \<le> 100000"
    using s1 goodD(2)[OF assms(1)] assms(2) by (auto simp: succeeds_def UpdateDomain_def sql_update_domain_def)
  obtain s2 where s2: "apply_op env (DropDomain n) s1 = (True, s2)" and v2: "view s2 n = None"
    using goodD[OF g1] view_delete_domain[of s1 n]
    by (auto simp: succeeds_def DeleteDomain_def sql_delete_domain_def)
  obtain t where t: "traffic_run env srt (traffic_start s e) t" "t_reloads t = []" "t_store t = s2"
    "e_domains (t_engine t) = loaded env srt s1"
    using overtaken[OF s1 s2 goodD(2)[OF g1] goodD(2)[OF apply_op_good[OF g1 s2]]] by blast
  have "fst (ServeHTTP (t_engine t) r) \<noteq> NotFound" if "stripPort (rq_Host r) = n" for r
    using loaded_enabled[OF g1 len1 v1, of env srt] that t(4)
    by (auto simp: fst_ServeHTTP http_Redirect_def split: option.split)
  with t v2 show ?thesis by blast
qed

theorem reload_race_serves_deleted_witness:
  "\<exists>t. traffic_run (reference_env DialectPostgres) (sort_desc rl_Priority)
       (traffic_start demo_db (n_engine (a_node demo_api))) t \<and> t_reloads t = [] \<and>
     view (t_store t) ''old.example'' = None \<and>
     fst (ServeHTTP (t_engine t) (demo_request ''old.example'' ''/'')) \<noteq> NotFound"
proof -
  have "good demo_db" by (simp add: good_def)
  moreover have "length (domains demo_db) \<le> 100000" by (simp add: demo_db_def)
  moreover obtain x where "view demo_db ''old.example'' = Some x" "s_Enabled x"
    by (auto simp: view_def find_domain_def site_of_def demo_defs)
  ultimately obtain t where
    "traffic_run (reference_env DialectPostgres) (sort_desc rl_Priority)
       (traffic_start demo_db (n_engine (a_node demo_api))) t"
    "t_reloads t = []" "view (t_store t) ''old.example'' = None"
    "\<forall>r. stripPort (rq_Host r) = ''old.example'' \<longrightarrow> fst (ServeHTTP (t_engine t) r) \<noteq> NotFound"
    using reload_race_serves_deleted[of demo_db "''old.example''" _ "reference_env DialectPostgres"
        "sort_desc rl_Priority" "n_engine (a_node demo_api)"] by blast
  moreover have "stripPort (rq_Host (demo_request ''old.example'' ''/'')) = ''old.example''"
    unfolding demo_request_sel by (rule stripPort_plain) simp
  ultimately show ?thesis by metis
qed

end
