(* ===== verification/Spec2Isabelle.thy ===== *)
theory Spec2Isabelle
  imports Engine_Props Store_Props Store_Query Sync_Props Api_Analytics_Props
    Pg_Storage_Props Pg_Locks Beacon_Props Pipeline_Props Api_Typed
    Concurrent_Props
begin

text \<open>
  A verification library for \<open>tld-redirect\<close>, a Go server that answers requests for parked
  domains by redirects. A control plane keeps domains and rules in SQL tables behind an admin
  API, publishes them to one object of an S3 bucket, and obtains certificates; data planes
  poll that object, replace their tables by it and serve; a third mode does all of it in one
  process. Served requests are logged in the background and rolled up by the hour.

  \<^bold>\<open>The parts, their theories and the code.\<close>

  \<^item> \<open>Prelude\<close>: the functions of Go's \<open>strings\<close> and \<open>strconv\<close> the program uses, splitting of
    texts, descending sorts, 64-bit bounds. \<open>Chan\<close>: buffered channels, with the interface
    \<open>bounded_chan\<close> that the engine, the pipeline and the beacon rely on, interpreted on
    \<open>try_send\<close> and \<open>try_recv\<close>.
  \<^item> \<open>Store_Base\<close>, \<open>Store_CRUD\<close>, \<open>Store_Bulk\<close>, \<open>Store_Logs\<close>, \<open>Store_Open\<close>
    (\<open>internal/store/store.go\<close>). The record \<open>db\<close> holds the four tables as lists of rows, the id
    sequences, the clock and a plan of \<open>faults\<close>: one entry per statement, which lets it run,
    fail, or (for a query) stop after some rows. An operation is a function from \<open>db\<close> to
    an error or a value and the new \<open>db\<close>; \<open>transaction\<close> restores the tables on any error, as
    \<open>defer tx.Rollback()\<close> does. What the program asks of the SQL engine beyond that (collation,
    order of ties, texts of errors) is the parameter \<open>sqlenv\<close> with \<open>sql_contract\<close>, which
    \<open>reference_env\<close> meets for both dialects. \<open>Store_View\<close> abstracts the tables to the map
    \<open>view\<close> from names to sites; \<open>Store_Bulk_Props\<close>, \<open>Store_Atomic\<close>, \<open>Store_Export\<close>,
    \<open>Store_Props\<close>, \<open>Store_Query\<close> and \<open>Store_Logs_Props\<close> say what each operation does to it.
  \<^item> \<open>Go_Time\<close>: times as nanoseconds, the calendar and the formats of \<open>time\<close> the program uses.
  \<^item> \<open>Engine\<close>, \<open>Engine_Props\<close> (\<open>internal/redirect/engine.go\<close>): the table of served domains,
    \<open>Reload\<close>, path matching, \<open>ServeHTTP\<close> with its two log channels; \<open>serve_spec\<close> is what the
    contents of a store require of a reply.
  \<^item> \<open>Json_Text\<close>, \<open>Json\<close>: \<open>encoding/json\<close> on texts (tokens, nested values, escapes, invalid
    UTF-8, the depth limit) and the structs the program reads and writes.
  \<^item> \<open>Sync\<close>, \<open>Sync_Props\<close> (\<open>internal/sync/sync.go\<close>): publishing and polling over an S3 client
    that is the parameter \<open>s3\<close> with \<open>s3_contract\<close>. The interface \<open>snapshot_store\<close> is what
    replication needs of a store; it is interpreted on \<open>ExportAll\<close> and \<open>BulkImportReplace\<close>.
  \<^item> \<open>Api_Base\<close>, \<open>Api_Analytics\<close>, \<open>Csv\<close>, \<open>Api\<close>, \<open>Api_Props\<close>, \<open>Api_Analytics_Props\<close>
    (\<open>internal/api\<close>): every handler as a function of the request and the process state, the
    routes, the token check, CORS and logging. The interface \<open>store_mutation\<close> is what the
    handlers need of a store operation, interpreted on each of the seven that they call.
  \<^item> \<open>Server\<close>, \<open>Modes\<close>, \<open>Modes_Props\<close> (\<open>internal/server/mux.go\<close>, \<open>cmd/tld-redirect/main.go\<close>):
    host switching, the admin router, plain HTTP, and what each mode starts.
  \<^item> \<open>Concurrent\<close>, \<open>Concurrent_Props\<close>: handlers as goroutines. A write is a step, a reload one step
    per statement and one that installs its table, in any interleaving.
  \<^item> \<open>Json_Types\<close>, \<open>Api_Typed\<close>: what is decoded, stored and exported is valid UTF-8 and fits 64
    bits, after any run of requests.
  \<^item> \<open>Certs\<close>, \<open>Pg_Storage\<close>, \<open>Pg_Storage_Props\<close>, \<open>Pg_Locks\<close> (\<open>internal/certs\<close>): the on-demand
    decision over CertMagic as a parameter, the certificate storage over its table (interface
    \<open>kv_storage\<close>), the keys of advisory locks on 64-bit words.
  \<^item> \<open>Pipeline\<close>, \<open>Pipeline_Props\<close> (\<open>internal/analytics/pipeline.go\<close>), \<open>Beacon\<close>, \<open>Beacon_Props\<close>
    (\<open>internal/beacon/beacon.go\<close>): the goroutines as step relations over the channel they
    receive from, in any interleaving with the senders.

  \<^bold>\<open>What the properties show.\<close> A reloaded engine answers by the contents of the store; any run
  of API requests keeps it so, and a process in any mode starts so. Every store operation
  keeps the tables sound, also when it fails half-way; the replacing import is all or
  nothing; exports, the published JSON, the CSV export, beacon URLs and time texts read back
  as what was written. A node that polls ends with what was published, or keeps retrying.
  Only authorised admin requests change the tables. Certificates are asked only for served
  names. Log entries are written once, in order, in whole batches, and the drains end. Some
  properties show defects and limits of the code: a failed query during a reload drops a
  domain, a partial update stores status 0 on which the server panics, the export stops at
  10000 domains and a replica then deletes the others, two control planes can lose an update,
  a replica can take an old object for the new one, of two parallel reloads the older can win,
  an RFC 3339 \<open>since\<close> loses a day on SQLite. Where a query that is cut short would be taken
  for complete, because the code does not look at \<open>rows.Err\<close>, the statement says so (\<open>nocut\<close>).

  \<^bold>\<open>Bounds and termination.\<close> No definition needs fuel: loops over data are structural, the
  tokenizer, the parser and the calendar have measures, \<open>pollLoop\<close> and \<open>rollupWorker\<close> take
  the number of their ticks (or their times), and the goroutines are relations, whose ends
  are proved to be reached. The bounds in the statements are the code's own: 100000 domains
  in \<open>Reload\<close>, 10000 in \<open>ExportAll\<close>, batches of 100, 64-bit integers.

  \<^bold>\<open>Not modelled.\<close> The embedded UI files and the file server (a parameter \<open>ui\<close>); sockets, TLS
  handshakes, signals and the ten seconds of shutdown; the flag parser; the wording of
  decoder errors in answers with status 400; log output; the pool of SQL connections except
  where advisory locks depend on it; overflow of a calendar date by an absurd number of days;
  Terraform modules, scripts and load tests. Outside \<open>Concurrent\<close> each handler is one step.

  \<^bold>\<open>Idealised.\<close> A statement or commit that reports an error has had no effect: a commit whose
  acknowledgement is lost on the way is not modelled. What one of the databases rejects beyond
  the constraints of the tables (on PostgreSQL a status outside 32 bits, or a NUL byte in a
  text) appears only as a failing entry of the plan of \<open>faults\<close>. \<open>s3_contract\<close> takes the ETag
  of an object for a fingerprint that differs for different contents. Go's order of ready
  branches in a \<open>select\<close> is any order, and no fairness is assumed of it.
\<close>

end
